(* ===== verification/Prelude.thy ===== *)
theory Prelude
  imports Main "HOL-Library.List_Lexorder" "HOL-Library.Char_ord" "HOL-Library.Sublist"
begin

text \<open>
  Shared vocabulary of the development: results that may be an exception, Python's dictionaries as
  insertion-ordered association lists, the string operations of Python that the sources use, and the
  simp collections the component theories fill.

  A Python \<open>str\<close> is a \<^typ>\<open>string\<close> of characters with code points below 256. A Python \<open>dict\<close> with string
  keys is an association list with distinct keys in insertion order: \<open>dict_set\<close> overwrites in place or
  appends, as \<open>d[k] = v\<close> does.
\<close>

named_theorems py_simps \<open>evaluation rules for the Python layer\<close>
named_theorems dict_simps \<open>lookup and key rules for dictionaries\<close>

section \<open>Results\<close>

definition sbind :: "'e + 'a \<Rightarrow> ('a \<Rightarrow> 'e + 'b) \<Rightarrow> 'e + 'b" where
  "sbind m f = (case m of Inl e \<Rightarrow> Inl e | Inr x \<Rightarrow> f x)"

lemma sbind_simps [simp, py_simps]:
  "sbind (Inl e) f = Inl e"
  "sbind (Inr x) f = f x"
  by (simp_all add: sbind_def)

lemma sbind_cong [fundef_cong]:
  "m = m' \<Longrightarrow> (\<And>x. m' = Inr x \<Longrightarrow> f x = g x) \<Longrightarrow> sbind m f = sbind m' g"
  by (cases m') simp_all

lemma sbind_eq_Inr: "sbind m f = Inr y \<longleftrightarrow> (\<exists>x. m = Inr x \<and> f x = Inr y)"
  by (cases m) simp_all

lemma sbind_eq_Inl: "sbind m f = Inl e \<longleftrightarrow> m = Inl e \<or> (\<exists>x. m = Inr x \<and> f x = Inl e)"
  by (cases m) simp_all

text \<open>A comprehension whose body may raise: left to right, stopping at the first exception.\<close>

fun mapM :: "('a \<Rightarrow> 'e + 'b) \<Rightarrow> 'a list \<Rightarrow> 'e + 'b list" where
  "mapM f [] = Inr []"
| "mapM f (x # xs) = sbind (f x) (\<lambda>y. sbind (mapM f xs) (\<lambda>ys. Inr (y # ys)))"

lemma mapM_cong [fundef_cong]:
  "xs = ys \<Longrightarrow> (\<And>x. x \<in> set ys \<Longrightarrow> f x = g x) \<Longrightarrow> mapM f xs = mapM g ys"
proof (induction ys arbitrary: xs)
  case (Cons y ys)
  then have "f y = g y" and "mapM f ys = mapM g ys" by auto
  with Cons.prems(1) show ?case by simp
qed simp

lemma mapM_Inr_iff:
  "mapM f xs = Inr ys \<longleftrightarrow> length xs = length ys \<and> (\<forall>i < length xs. f (xs ! i) = Inr (ys ! i))"
proof (induction xs arbitrary: ys)
  case (Cons x xs)
  show ?case
  proof (cases ys)
    case (Cons z zs)
    with Cons.IH [of zs] show ?thesis
      by (auto simp: sbind_eq_Inr nth_Cons less_Suc_eq_0_disj)
  qed (simp add: sbind_eq_Inr)
qed auto

lemma mapM_length: "mapM f xs = Inr ys \<Longrightarrow> length ys = length xs"
  by (simp add: mapM_Inr_iff)

lemma mapM_Inr_all: "(\<And>x. x \<in> set xs \<Longrightarrow> f x = Inr (g x)) \<Longrightarrow> mapM f xs = Inr (map g xs)"
  by (simp add: mapM_Inr_iff)

lemma mapM_Inl: "mapM f xs = Inl e \<Longrightarrow> \<exists>x \<in> set xs. f x = Inl e"
  by (induction xs) (auto simp: sbind_eq_Inl)

lemma mapM_Inr_ex: "mapM f xs = Inr ys \<Longrightarrow> x \<in> set xs \<Longrightarrow> \<exists>y \<in> set ys. f x = Inr y"
  by (induction xs arbitrary: ys) (auto simp: sbind_eq_Inr)

section \<open>Dictionaries\<close>

type_synonym 'v dict = "(string \<times> 'v) list"

abbreviation dict_get :: "('k \<times> 'v) list \<Rightarrow> 'k \<Rightarrow> 'v option" where
  "dict_get \<equiv> map_of"

abbreviation dict_keys :: "('k \<times> 'v) list \<Rightarrow> 'k list" where
  "dict_keys \<equiv> map fst"

abbreviation dict_values :: "('k \<times> 'v) list \<Rightarrow> 'v list" where
  "dict_values \<equiv> map snd"

definition dict_has :: "('k \<times> 'v) list \<Rightarrow> 'k \<Rightarrow> bool" where
  "dict_has d k \<longleftrightarrow> dict_get d k \<noteq> None"

fun dict_set :: "'k \<Rightarrow> 'v \<Rightarrow> ('k \<times> 'v) list \<Rightarrow> ('k \<times> 'v) list" where
  "dict_set k v [] = [(k, v)]"
| "dict_set k v ((k', v') # d) = (if k = k' then (k, v) # d else (k', v') # dict_set k v d)"

text \<open>\<open>d.update(pairs)\<close> and \<open>dict(pairs)\<close>: later pairs win, first occurrences fix the order.\<close>

definition dict_update :: "('k \<times> 'v) list \<Rightarrow> ('k \<times> 'v) list \<Rightarrow> ('k \<times> 'v) list" where
  "dict_update d ps = foldl (\<lambda>acc (k, v). dict_set k v acc) d ps"

definition dict_of :: "('k \<times> 'v) list \<Rightarrow> ('k \<times> 'v) list" where
  "dict_of ps = dict_update [] ps"

definition wf_dict :: "('k \<times> 'v) list \<Rightarrow> bool" where
  "wf_dict d \<longleftrightarrow> distinct (dict_keys d)"

lemma dict_get_set [simp, dict_simps]:
  "dict_get (dict_set k v d) j = (if j = k then Some v else dict_get d j)"
  by (induction d) auto

lemma dict_keys_set [dict_simps]:
  "dict_keys (dict_set k v d) = (if k \<in> set (dict_keys d) then dict_keys d else dict_keys d @ [k])"
  by (induction k v d rule: dict_set.induct) simp_all

lemma set_dict_keys_set [simp]: "fst ` set (dict_set k v d) = insert k (fst ` set d)"
  by (induction k v d rule: dict_set.induct) (simp_all add: insert_commute)

lemma dict_has_iff [simp]: "dict_has d k \<longleftrightarrow> k \<in> fst ` set d"
  by (simp add: dict_has_def map_of_eq_None_iff)

lemma dict_get_None_iff: "dict_get d k = None \<longleftrightarrow> k \<notin> fst ` set d"
  by (simp add: map_of_eq_None_iff)

lemma dict_get_SomeD: "dict_get d k = Some v \<Longrightarrow> k \<in> fst ` set d"
  by (metis dict_get_None_iff option.distinct(1))

lemma wf_dict_set: "wf_dict d \<Longrightarrow> wf_dict (dict_set k v d)"
  by (simp add: wf_dict_def dict_keys_set)

lemma dict_set_elems: "p \<in> set (dict_set k v d) \<Longrightarrow> p = (k, v) \<or> p \<in> set d"
  by (induction d) (auto split: if_splits)

lemma dict_update_simps [simp, dict_simps]:
  "dict_update d [] = d"
  "dict_update d ((k, v) # ps) = dict_update (dict_set k v d) ps"
  by (simp_all add: dict_update_def)

lemma wf_dict_update: "wf_dict d \<Longrightarrow> wf_dict (dict_update d ps)"
  by (induction ps arbitrary: d) (auto simp: wf_dict_set)

lemma wf_dict_of [simp]: "wf_dict (dict_of ps)"
  unfolding dict_of_def by (rule wf_dict_update) (simp add: wf_dict_def)

lemma dict_get_update:
  "dict_get (dict_update d ps) j =
     (case dict_get (rev ps) j of Some v \<Rightarrow> Some v | None \<Rightarrow> dict_get d j)"
  by (induction ps arbitrary: d) (auto simp: map_add_def split: option.splits)

lemma dict_get_of: "dict_get (dict_of ps) j = dict_get (rev ps) j"
  by (simp add: dict_of_def dict_get_update split: option.splits)

lemma set_dict_keys_update: "fst ` set (dict_update d ps) = fst ` set d \<union> fst ` set ps"
proof (induction ps arbitrary: d)
  case (Cons p ps)
  then show ?case by (cases p) simp
qed simp

lemma set_dict_keys_of: "fst ` set (dict_of ps) = fst ` set ps"
  by (simp add: dict_of_def set_dict_keys_update)

text \<open>Insertion of a key that is new appends it.\<close>

lemma dict_set_fresh: "k \<notin> fst ` set d \<Longrightarrow> dict_set k v d = d @ [(k, v)]"
  by (induction d) auto

lemma dict_update_fresh:
  "distinct (map fst ps) \<Longrightarrow> fst ` set ps \<inter> fst ` set d = {} \<Longrightarrow> dict_update d ps = d @ ps"
proof (induction ps arbitrary: d)
  case (Cons p ps)
  obtain k v where [simp]: "p = (k, v)" by (cases p)
  from Cons.prems have "dict_set k v d = d @ [(k, v)]" by (intro dict_set_fresh) auto
  moreover from Cons.prems have "dict_update (d @ [(k, v)]) ps = (d @ [(k, v)]) @ ps"
    by (intro Cons.IH) auto
  ultimately show ?case by simp
qed simp

lemma dict_of_id: "wf_dict d \<Longrightarrow> dict_of d = d"
  by (simp add: dict_of_def wf_dict_def dict_update_fresh)

section \<open>Strings\<close>

text \<open>\<open>s.split(c)\<close> for a one-character separator; there is always at least one piece.\<close>

fun split_on :: "char \<Rightarrow> string \<Rightarrow> string list" where
  "split_on c [] = [[]]"
| "split_on c (x # xs) =
     (if x = c then [] # split_on c xs
      else (case split_on c xs of [] \<Rightarrow> [[x]] | w # ws \<Rightarrow> (x # w) # ws))"

text \<open>\<open>sep.join(parts)\<close>\<close>

fun join_with :: "string \<Rightarrow> string list \<Rightarrow> string" where
  "join_with sep [] = []"
| "join_with sep [w] = w"
| "join_with sep (w # ws) = w @ sep @ join_with sep ws"

lemma split_on_nonempty [simp]: "split_on c s \<noteq> []"
  by (induction s) (auto split: list.splits)

lemma join_split: "join_with [c] (split_on c s) = s"
proof (induction s)
  case (Cons x xs)
  obtain w ws where sp: "split_on c xs = w # ws" by (meson neq_Nil_conv split_on_nonempty)
  with Cons.IH show ?case by (cases ws) auto
qed simp

lemma split_on_no_sep: "w \<in> set (split_on c s) \<Longrightarrow> c \<notin> set w"
proof (induction s arbitrary: w)
  case (Cons x xs)
  obtain v vs where sp: "split_on c xs = v # vs" by (meson neq_Nil_conv split_on_nonempty)
  with Cons show ?case by (auto split: if_splits)
qed simp

lemma split_on_single: "c \<notin> set s \<Longrightarrow> split_on c s = [s]"
  by (induction s) auto

lemma split_on_append: "c \<notin> set w \<Longrightarrow> split_on c (w @ c # s) = w # split_on c s"
  by (induction w) auto

text \<open>Splitting a joined list of plain segments gives it back.\<close>

lemma split_on_join:
  "segs \<noteq> [] \<Longrightarrow> \<forall>s \<in> set segs. c \<notin> set s \<Longrightarrow> split_on c (join_with [c] segs) = segs"
  by (induction "[c]" segs rule: join_with.induct) (auto simp: split_on_single split_on_append)

lemma hd_split_on: "hd (split_on c s) = takeWhile (\<lambda>x. x \<noteq> c) s"
proof (induction s)
  case (Cons x xs)
  obtain v vs where sp: "split_on c xs = v # vs" by (meson neq_Nil_conv split_on_nonempty)
  with Cons show ?case by auto
qed simp

definition starts_with :: "string \<Rightarrow> string \<Rightarrow> bool" where
  "starts_with p s \<longleftrightarrow> take (length p) s = p"

lemma starts_with_iff: "starts_with p s \<longleftrightarrow> (\<exists>r. s = p @ r)"
  unfolding starts_with_def by (metis append_eq_conv_conj append_take_drop_id)

text \<open>The decimal text of a natural number and of an integer: \<open>str(n)\<close>.\<close>

definition digit_char :: "nat \<Rightarrow> char" where
  "digit_char n = char_of (48 + n mod 10)"

fun nat_str :: "nat \<Rightarrow> string" where
  "nat_str n = (if n < 10 then [digit_char n] else nat_str (n div 10) @ [digit_char (n mod 10)])"

declare nat_str.simps [simp del]

definition int_str :: "int \<Rightarrow> string" where
  "int_str i = (if i < 0 then CHR ''-'' # nat_str (nat (- i)) else nat_str (nat i))"

definition is_ascii_digit :: "char \<Rightarrow> bool" where
  "is_ascii_digit c \<longleftrightarrow> 48 \<le> (of_char c :: nat) \<and> (of_char c :: nat) \<le> 57"

definition digit_val :: "char \<Rightarrow> nat" where
  "digit_val c = of_char c - 48"

text \<open>
  \<open>str.isdigit\<close> below code point 256: the ten decimal digits and the superscripts two, three and one,
  which \<open>int\<close> does not accept.
\<close>

definition isdigit :: "string \<Rightarrow> bool" where
  "isdigit s \<longleftrightarrow> s \<noteq> [] \<and>
     (\<forall>c \<in> set s. is_ascii_digit c \<or> (of_char c :: nat) \<in> {178, 179, 185})"

text \<open>\<open>str.isspace\<close> of one character below code point 256; also the class \<open>\s\<close> of \<open>re\<close>.\<close>

definition is_space :: "char \<Rightarrow> bool" where
  "is_space c \<longleftrightarrow> (let n = of_char c :: nat in
     (9 \<le> n \<and> n \<le> 13) \<or> (28 \<le> n \<and> n \<le> 32) \<or> n = 133 \<or> n = 160)"

definition lstrip_ws :: "string \<Rightarrow> string" where
  "lstrip_ws s = dropWhile is_space s"

definition strip_ws :: "string \<Rightarrow> string" where
  "strip_ws s = rev (dropWhile is_space (rev (dropWhile is_space s)))"

text \<open>\<open>s.strip(chars)\<close> and \<open>s.lstrip(chars)\<close>\<close>

definition lstrip_chars :: "string \<Rightarrow> string \<Rightarrow> string" where
  "lstrip_chars cs s = dropWhile (\<lambda>c. c \<in> set cs) s"

definition strip_chars :: "string \<Rightarrow> string \<Rightarrow> string" where
  "strip_chars cs s = rev (lstrip_chars cs (rev (lstrip_chars cs s)))"

definition digits_val :: "string \<Rightarrow> nat" where
  "digits_val s = foldl (\<lambda>n c. 10 * n + digit_val c) 0 s"

text \<open>
  \<open>int(s)\<close> in base ten: surrounding whitespace, an optional sign, digit groups separated by single
  underscores. \<^const>\<open>None\<close> is the \<open>ValueError\<close>.
\<close>

definition digit_groups :: "string \<Rightarrow> nat option" where
  "digit_groups s =
     (if list_all (\<lambda>g. g \<noteq> [] \<and> list_all is_ascii_digit g) (split_on CHR ''_'' s)
      then Some (digits_val (concat (split_on CHR ''_'' s))) else None)"

definition py_int_of_str :: "string \<Rightarrow> int option" where
  "py_int_of_str s =
     (case strip_ws s of
        [] \<Rightarrow> None
      | c # cs \<Rightarrow>
          if c = CHR ''-'' then map_option (\<lambda>n. - int n) (digit_groups cs)
          else if c = CHR ''+'' then map_option int (digit_groups cs)
          else map_option int (digit_groups (c # cs)))"

text \<open>The lower and upper case of one ASCII or Latin-1 letter.\<close>

definition lower_char :: "char \<Rightarrow> char" where
  "lower_char c = (let n = of_char c :: nat in
     if (65 \<le> n \<and> n \<le> 90) \<or> (192 \<le> n \<and> n \<le> 222 \<and> n \<noteq> 215) then char_of (n + 32) else c)"

definition lower_str :: "string \<Rightarrow> string" where
  "lower_str s = map lower_char s"

text \<open>\<open>repr\<close> of a string: the quote choice and the escapes of CPython.\<close>

definition hex_char :: "nat \<Rightarrow> char" where
  "hex_char n = (if n < 10 then char_of (48 + n) else char_of (87 + n))"

definition repr_char :: "char \<Rightarrow> char \<Rightarrow> string" where
  "repr_char q c = (let n = of_char c :: nat in
     if c = q \<or> n = 92 then [char_of (92 :: nat), c]
     else if n = 9 then [char_of (92 :: nat), CHR ''t'']
     else if n = 10 then [char_of (92 :: nat), CHR ''n'']
     else if n = 13 then [char_of (92 :: nat), CHR ''r'']
     else if n < 32 \<or> (127 \<le> n \<and> n \<le> 160) \<or> n = 173
       then [char_of (92 :: nat), CHR ''x'', hex_char (n div 16), hex_char (n mod 16)]
     else [c])"

definition sq_char :: char where "sq_char = char_of (39 :: nat)"
definition dq_char :: char where "dq_char = char_of (34 :: nat)"

definition repr_str :: "string \<Rightarrow> string" where
  "repr_str s = (let q = (if sq_char \<in> set s \<and> dq_char \<notin> set s then dq_char else sq_char)
     in [q] @ concat (map (repr_char q) s) @ [q])"

section \<open>Indexing\<close>

text \<open>\<open>xs[i]\<close> with Python's negative indices; \<^const>\<open>None\<close> is the \<open>IndexError\<close>.\<close>

definition py_index :: "'a list \<Rightarrow> int \<Rightarrow> 'a option" where
  "py_index xs i =
     (let n = int (length xs) in
      if - n \<le> i \<and> i < n then Some (xs ! nat (if i < 0 then n + i else i)) else None)"

lemma py_index_SomeD: "py_index xs i = Some x \<Longrightarrow> x \<in> set xs"
  by (auto simp: py_index_def Let_def split: if_splits)

lemma py_index_nat: "n < length xs \<Longrightarrow> py_index xs (int n) = Some (xs ! n)"
  by (simp add: py_index_def)

section \<open>Integer division\<close>

lemma le_int_div_iff: "(s :: int) > 0 \<Longrightarrow> x \<le> y div s \<longleftrightarrow> x * s \<le> y"
proof
  assume s: "s > 0" and "x \<le> y div s"
  then have "x * s \<le> y div s * s" by (simp add: mult_right_mono)
  also have "\<dots> \<le> y" using s by (metis add.commute div_mult_mod_eq le_add_same_cancel2 pos_mod_sign)
  finally show "x * s \<le> y" .
next
  assume s: "s > 0" and "x * s \<le> y"
  then have "x * s div s \<le> y div s" by (intro zdiv_mono1)
  with s show "x \<le> y div s" by simp
qed

lemma div_eq_interval: "(k :: int) > 0 \<Longrightarrow> x div k = m \<longleftrightarrow> m * k \<le> x \<and> x < (m + 1) * k"
  using le_int_div_iff [of k m x] le_int_div_iff [of k "m + 1" x] by linarith

section \<open>Lists\<close>

lemma sort_key_distinct: "distinct xs \<Longrightarrow> distinct (sort_key f xs)"
  by simp

lemma filter_sort_key: "filter P (sort_key f xs) = sort_key f (filter P xs)"
  by (simp add: filter_sort)

lemma sum_list_map_filter_le: "sum_list (map f (filter P xs)) \<le> (sum_list (map f xs) :: nat)"
  by (induction xs) auto

end
