(* ===== verification/Py_Value.thy ===== *)
theory Py_Value
  imports Prelude Complex_Main
begin

text \<open>
  The JSON-like values that flow on every edge of a pipeline and fill every node's configuration, with
  the Python semantics the sources use on them: equality, ordering, truth, \<open>str\<close>, \<open>repr\<close>, type names and
  \<open>json.dumps\<close>.

  A float is a sign, a mantissa and a binary exponent (or an infinity, or not-a-number), so comparison
  with integers is exact as in CPython, and \<open>repr\<close> is the shortest decimal that reads back as the same
  double. Values are trees: two occurrences of one mutable object are two values.
\<close>

section \<open>Floats\<close>

datatype pyfloat = FNan | FInf bool | FNum bool nat int

definition pow2 :: "int \<Rightarrow> rat" where
  "pow2 e = (if 0 \<le> e then 2 ^ nat e else 1 / 2 ^ nat (- e))"

definition pow10 :: "int \<Rightarrow> rat" where
  "pow10 e = (if 0 \<le> e then 10 ^ nat e else 1 / 10 ^ nat (- e))"

text \<open>The order-theoretic content of a number: exact rationals, the infinities, not-a-number.\<close>

datatype ext = ENan | ENeg | EFin rat | EPos

fun ext_of_float :: "pyfloat \<Rightarrow> ext" where
  "ext_of_float FNan = ENan"
| "ext_of_float (FInf s) = (if s then ENeg else EPos)"
| "ext_of_float (FNum s m e) = EFin ((if s then - 1 else 1) * of_nat m * pow2 e)"

fun ext_eq :: "ext \<Rightarrow> ext \<Rightarrow> bool" where
  "ext_eq ENan b = False"
| "ext_eq a ENan = False"
| "ext_eq a b = (a = b)"

fun ext_lt :: "ext \<Rightarrow> ext \<Rightarrow> bool" where
  "ext_lt ENan b = False"
| "ext_lt a ENan = False"
| "ext_lt ENeg b = (b \<noteq> ENeg)"
| "ext_lt (EFin a) (EFin b) = (a < b)"
| "ext_lt (EFin a) b = (b = EPos)"
| "ext_lt EPos b = False"

definition ext_le :: "ext \<Rightarrow> ext \<Rightarrow> bool" where
  "ext_le a b \<longleftrightarrow> ext_lt a b \<or> ext_eq a b"

text \<open>Rounding an exact rational to the nearest double, ties to even.\<close>

fun bit_len :: "nat \<Rightarrow> nat" where
  "bit_len n = (if n = 0 then 0 else Suc (bit_len (n div 2)))"

declare bit_len.simps [simp del]

definition flog2 :: "rat \<Rightarrow> int" where
  "flog2 q = (let (a, b) = quotient_of q; e = int (bit_len (nat a)) - int (bit_len (nat b))
     in if pow2 e \<le> q then e else e - 1)"

definition round_half_even :: "rat \<Rightarrow> int" where
  "round_half_even q = (let f = \<lfloor>q\<rfloor>; r = q - of_int f in
     if r < 1 / 2 then f else if 1 / 2 < r then f + 1 else if even f then f else f + 1)"

definition to_float :: "rat \<Rightarrow> pyfloat" where
  "to_float q =
     (if q = 0 then FNum False 0 0
      else let a = \<bar>q\<bar>; e = max (flog2 a - 52) (- 1074); m = round_half_even (a / pow2 e)
        in if (2 :: rat) ^ 1024 \<le> of_int m * pow2 e then FInf (q < 0) else FNum (q < 0) (nat m) e)"

text \<open>\<open>repr\<close> of a double: the shortest decimal that rounds back to it, the closest among those.\<close>

definition dec_point :: "rat \<Rightarrow> int" where
  "dec_point q =
     (if 1 \<le> q then int (length (nat_str (nat \<lfloor>q\<rfloor>)))
      else let c = int (length (nat_str (nat \<lfloor>1 / q\<rfloor>))) in
        if q = pow10 (1 - c) then 2 - c else 1 - c)"

fun shortest_digits :: "nat \<Rightarrow> rat \<Rightarrow> int \<Rightarrow> nat \<Rightarrow> nat \<times> nat" where
  "shortest_digits 0 q k n = (nat (round_half_even (q * pow10 (17 - k))), 17)"
| "shortest_digits (Suc fuel) q k n =
     (let d = nat \<lfloor>q * pow10 (int n - k)\<rfloor>;
          val = (\<lambda>d. of_nat d * pow10 (k - int n) :: rat);
          good = filter (\<lambda>d. ext_eq (ext_of_float (to_float (val d))) (EFin q)) [d, Suc d]
      in case good of
           [] \<Rightarrow> shortest_digits fuel q k (Suc n)
         | [x] \<Rightarrow> (x, n)
         | x # y # _ \<Rightarrow> (if \<bar>val x - q\<bar> \<le> \<bar>val y - q\<bar> then x else y, n))"

definition format_digits :: "string \<Rightarrow> int \<Rightarrow> string" where
  "format_digits ds k =
     (if - 4 < k \<and> k \<le> 16 then
        (if k \<le> 0 then ''0.'' @ replicate (nat (- k)) CHR ''0'' @ ds
         else if int (length ds) \<le> k then ds @ replicate (nat k - length ds) CHR ''0'' @ ''.0''
         else take (nat k) ds @ ''.'' @ drop (nat k) ds)
      else
        (let m = take 1 ds @ (if length ds \<le> 1 then [] else ''.'' @ drop 1 ds);
             e = nat_str (nat \<bar>k - 1\<bar>);
             e' = (if length e < 2 then CHR ''0'' # e else e)
         in m @ ''e'' @ (if k - 1 < 0 then ''-'' else ''+'') @ e'))"

definition strip_zeros :: "string \<Rightarrow> string" where
  "strip_zeros ds = (let t = rev (dropWhile (\<lambda>c. c = CHR ''0'') (rev ds)) in if t = [] then ''0'' else t)"

fun float_repr :: "pyfloat \<Rightarrow> string" where
  "float_repr FNan = ''nan''"
| "float_repr (FInf s) = (if s then ''-inf'' else ''inf'')"
| "float_repr (FNum s m e) =
     (if s then ''-'' else '''') @
     (if m = 0 then ''0.0''
      else let q = of_nat m * pow2 e; k = dec_point q; (d, n) = shortest_digits 17 q k 1;
               ds = nat_str d
           in format_digits (strip_zeros ds) (k + (int (length ds) - int n)))"

section \<open>Values\<close>

datatype json =
    JNull
  | JBool bool
  | JInt int
  | JFloat pyfloat
  | JStr string
  | JList "json list"
  | JDict "(string \<times> json) list"

type_synonym record_t = "json dict"
type_synonym records = "record_t list"

lemma size_list_mem: "x \<in> set xs \<Longrightarrow> size x < Suc (size_list size xs)"
  by (induction xs) auto

lemma size_dict_mem: "p \<in> set d \<Longrightarrow> size (snd p) < Suc (size_list (size_prod (\<lambda>_. 0) size) d)"
  by (induction d) (auto simp: less_Suc_eq)

lemma size_json_children [simp, termination_simp]:
  "x \<in> set xs \<Longrightarrow> size x < size (JList xs)"
  "p \<in> set d \<Longrightarrow> size (snd p) < size (JDict d)"
  using size_list_mem [of x xs] size_dict_mem [of p d] by simp_all

lemma size_zip_mem [termination_simp]:
  "(a, b) \<in> set (zip xs ys) \<Longrightarrow> size (a :: json) < Suc (size_list size xs)"
  by (drule set_zip_leftD) (rule size_list_mem)

definition records_json :: "records \<Rightarrow> json" where
  "records_json rs = JList (map JDict rs)"

fun type_name :: "json \<Rightarrow> string" where
  "type_name JNull = ''NoneType''"
| "type_name (JBool b) = ''bool''"
| "type_name (JInt i) = ''int''"
| "type_name (JFloat f) = ''float''"
| "type_name (JStr s) = ''str''"
| "type_name (JList xs) = ''list''"
| "type_name (JDict d) = ''dict''"

text \<open>The truth value of \<open>if value:\<close>.\<close>

fun truthy :: "json \<Rightarrow> bool" where
  "truthy JNull = False"
| "truthy (JBool b) = b"
| "truthy (JInt i) = (i \<noteq> 0)"
| "truthy (JFloat f) = (\<not> ext_eq (ext_of_float f) (EFin 0))"
| "truthy (JStr s) = (s \<noteq> [])"
| "truthy (JList xs) = (xs \<noteq> [])"
| "truthy (JDict d) = (d \<noteq> [])"

text \<open>Booleans are integers.\<close>

fun num_ext :: "json \<Rightarrow> ext option" where
  "num_ext (JBool b) = Some (EFin (if b then 1 else 0))"
| "num_ext (JInt i) = Some (EFin (of_int i))"
| "num_ext (JFloat f) = Some (ext_of_float f)"
| "num_ext _ = None"

section \<open>Equality and ordering\<close>

fun py_eq :: "json \<Rightarrow> json \<Rightarrow> bool" where
  "py_eq (JStr s) y = (y = JStr s)"
| "py_eq JNull y = (y = JNull)"
| "py_eq (JList xs) y =
     (case y of
        JList ys \<Rightarrow> length xs = length ys \<and> list_all (\<lambda>p. py_eq (fst p) (snd p)) (zip xs ys)
      | _ \<Rightarrow> False)"
| "py_eq (JDict d) y =
     (case y of
        JDict e \<Rightarrow> length d = length e \<and>
          list_all (\<lambda>p. case dict_get e (fst p) of None \<Rightarrow> False | Some w \<Rightarrow> py_eq (snd p) w) d
      | _ \<Rightarrow> False)"
| "py_eq x y =
     (case (num_ext x, num_ext y) of (Some a, Some b) \<Rightarrow> ext_eq a b | _ \<Rightarrow> False)"

datatype cmpop = CLt | CLe | CGt | CGe

fun ext_rel :: "cmpop \<Rightarrow> ext \<Rightarrow> ext \<Rightarrow> bool" where
  "ext_rel CLt a b = ext_lt a b"
| "ext_rel CLe a b = ext_le a b"
| "ext_rel CGt a b = ext_lt b a"
| "ext_rel CGe a b = ext_le b a"

fun ord_rel :: "cmpop \<Rightarrow> 'a::linorder \<Rightarrow> 'a \<Rightarrow> bool" where
  "ord_rel CLt a b = (a < b)"
| "ord_rel CLe a b = (a \<le> b)"
| "ord_rel CGt a b = (b < a)"
| "ord_rel CGe a b = (b \<le> a)"

text \<open>An ordering comparison; \<^const>\<open>None\<close> is the \<open>TypeError\<close> of incomparable types.\<close>

fun py_rel :: "cmpop \<Rightarrow> json \<Rightarrow> json \<Rightarrow> bool option" where
  "py_rel op (JStr s) y = (case y of JStr t \<Rightarrow> Some (ord_rel op s t) | _ \<Rightarrow> None)"
| "py_rel op (JList []) y =
     (case y of JList ys \<Rightarrow> Some (ord_rel op 0 (length ys)) | _ \<Rightarrow> None)"
| "py_rel op (JList (x # xs)) y =
     (case y of
        JList [] \<Rightarrow> Some (ord_rel op (Suc (length xs)) 0)
      | JList (z # zs) \<Rightarrow> if py_eq x z then py_rel op (JList xs) (JList zs) else py_rel op x z
      | _ \<Rightarrow> None)"
| "py_rel op JNull y = None"
| "py_rel op (JDict d) y = None"
| "py_rel op x y =
     (case (num_ext x, num_ext y) of (Some a, Some b) \<Rightarrow> Some (ext_rel op a b) | _ \<Rightarrow> None)"

section \<open>Text\<close>

fun py_repr :: "json \<Rightarrow> string" where
  "py_repr JNull = ''None''"
| "py_repr (JBool b) = (if b then ''True'' else ''False'')"
| "py_repr (JInt i) = int_str i"
| "py_repr (JFloat f) = float_repr f"
| "py_repr (JStr s) = repr_str s"
| "py_repr (JList xs) = ''['' @ join_with '', '' (map py_repr xs) @ '']''"
| "py_repr (JDict d) =
     ''{'' @ join_with '', '' (map (\<lambda>p. repr_str (fst p) @ '': '' @ py_repr (snd p)) d) @ ''}''"

definition py_str :: "json \<Rightarrow> string" where
  "py_str v = (case v of JStr s \<Rightarrow> s | _ \<Rightarrow> py_repr v)"

text \<open>\<open>json.dumps\<close> with its defaults: ASCII output, separators \<open>", "\<close> and \<open>": "\<close>.\<close>

definition dumps_char :: "char \<Rightarrow> string" where
  "dumps_char c = (let n = of_char c :: nat; b = char_of (92 :: nat) in
     if n = 34 \<or> n = 92 then [b, c]
     else if n = 8 then [b, CHR ''b''] else if n = 9 then [b, CHR ''t'']
     else if n = 10 then [b, CHR ''n''] else if n = 12 then [b, CHR ''f'']
     else if n = 13 then [b, CHR ''r'']
     else if n < 32 \<or> 127 \<le> n
       then [b, CHR ''u'', CHR ''0'', CHR ''0'', hex_char (n div 16), hex_char (n mod 16)]
     else [c])"

definition dumps_str :: "string \<Rightarrow> string" where
  "dumps_str s = [dq_char] @ concat (map dumps_char s) @ [dq_char]"

fun dumps_float :: "pyfloat \<Rightarrow> string" where
  "dumps_float FNan = ''NaN''"
| "dumps_float (FInf s) = (if s then ''-Infinity'' else ''Infinity'')"
| "dumps_float f = float_repr f"

fun json_dumps :: "bool \<Rightarrow> json \<Rightarrow> string" where
  "json_dumps sk JNull = ''null''"
| "json_dumps sk (JBool b) = (if b then ''true'' else ''false'')"
| "json_dumps sk (JInt i) = int_str i"
| "json_dumps sk (JFloat f) = dumps_float f"
| "json_dumps sk (JStr s) = dumps_str s"
| "json_dumps sk (JList xs) = ''['' @ join_with '', '' (map (json_dumps sk) xs) @ '']''"
| "json_dumps sk (JDict d) =
     (let items = map (\<lambda>p. (fst p, json_dumps sk (snd p))) d;
          items' = (if sk then sort_key fst items else items)
      in ''{'' @ join_with '', '' (map (\<lambda>p. dumps_str (fst p) @ '': '' @ snd p) items') @ ''}'')"

section \<open>Well-formed values\<close>

text \<open>Every dictionary inside the value has distinct keys, as a Python dictionary does.\<close>

fun wf_json :: "json \<Rightarrow> bool" where
  "wf_json (JList xs) = list_all wf_json xs"
| "wf_json (JDict d) = (wf_dict d \<and> list_all (\<lambda>p. wf_json (snd p)) d)"
| "wf_json _ = True"

fun has_nan :: "json \<Rightarrow> bool" where
  "has_nan (JFloat FNan) = True"
| "has_nan (JList xs) = list_ex has_nan xs"
| "has_nan (JDict d) = list_ex (\<lambda>p. has_nan (snd p)) d"
| "has_nan _ = False"

lemma ext_eq_refl: "a \<noteq> ENan \<Longrightarrow> ext_eq a a"
  by (cases a) simp_all

lemma ext_eq_sym: "ext_eq a b \<longleftrightarrow> ext_eq b a"
  by (cases a; cases b) auto

lemma ext_eq_trans: "ext_eq a b \<Longrightarrow> ext_eq b c \<Longrightarrow> ext_eq a c"
  by (cases a; cases b; cases c) auto

lemma ext_of_float_not_nan: "f \<noteq> FNan \<Longrightarrow> ext_of_float f \<noteq> ENan"
  by (cases f) auto

text \<open>Python's \<open>==\<close> is reflexive on values without not-a-number.\<close>

lemma py_eq_refl: "wf_json v \<Longrightarrow> \<not> has_nan v \<Longrightarrow> py_eq v v"
proof (induction v)
  case (JFloat f)
  then show ?case by (cases f) (auto simp: ext_eq_refl)
next
  case (JList xs)
  then show ?case
    by (auto simp: list_all_iff list_ex_iff in_set_zip)
next
  case (JDict d)
  have "\<forall>p \<in> set d. dict_get d (fst p) = Some (snd p)"
    using JDict.prems(1) by (auto simp: wf_dict_def)
  with JDict show ?case
    by (fastforce simp: list_all_iff list_ex_iff)
qed simp_all

end
