(* ===== verification/Errors.thy ===== *)
theory Errors
  imports Py_Value
begin

text \<open>
  \<open>etl_core/errors.py\<close>: the structured error of a failing node, its categories, and the exceptions that
  travel through the engine. The \<open>timestamp\<close> of an error is a clock reading that no code reads back and is
  left out of the record.
\<close>

datatype error_category =
    DNS | NETWORK | TLS | TIMEOUT | HTTP_STATUS | AUTH | RATE_LIMIT | VALIDATION | TRANSFORM
  | DECRYPTION | CONFIG | UNKNOWN

fun category_value :: "error_category \<Rightarrow> string" where
  "category_value DNS = ''dns''"
| "category_value NETWORK = ''network''"
| "category_value TLS = ''tls''"
| "category_value TIMEOUT = ''timeout''"
| "category_value HTTP_STATUS = ''http_status''"
| "category_value AUTH = ''auth''"
| "category_value RATE_LIMIT = ''rate_limit''"
| "category_value VALIDATION = ''validation''"
| "category_value TRANSFORM = ''transform''"
| "category_value DECRYPTION = ''decryption''"
| "category_value CONFIG = ''config''"
| "category_value UNKNOWN = ''unknown''"

record node_error =
  ne_node_id :: string
  ne_node_type :: string
  ne_category :: error_category
  ne_message :: string
  ne_http_status :: "int option"
  ne_request_summary :: "string option"
  ne_attempts :: nat
  ne_details :: "json dict option"

text \<open>
  The exceptions the modelled code raises or lets through. \<open>OtherException\<close> carries the type name and
  the text of any exception the sources only convert.
\<close>

datatype exn =
    NodeExecutionError node_error
  | ReferenceResolutionError string
  | PathNotFoundError string
  | SecretNotFoundError string
  | SSRFBlockedError string
  | ExpressionError string
  | ValueError string
  | TypeError string
  | KeyError string
  | IndexError string
  | ZeroDivisionError string
  | OverflowError string
  | OtherException string string

text \<open>\<open>type(exc).__name__\<close> and \<open>str(exc)\<close>\<close>

fun exn_type :: "exn \<Rightarrow> string" where
  "exn_type (NodeExecutionError e) = ''NodeExecutionError''"
| "exn_type (ReferenceResolutionError m) = ''ReferenceResolutionError''"
| "exn_type (PathNotFoundError m) = ''PathNotFoundError''"
| "exn_type (SecretNotFoundError r) = ''SecretNotFoundError''"
| "exn_type (SSRFBlockedError m) = ''SSRFBlockedError''"
| "exn_type (ExpressionError m) = ''ExpressionError''"
| "exn_type (ValueError m) = ''ValueError''"
| "exn_type (TypeError m) = ''TypeError''"
| "exn_type (KeyError k) = ''KeyError''"
| "exn_type (IndexError m) = ''IndexError''"
| "exn_type (ZeroDivisionError m) = ''ZeroDivisionError''"
| "exn_type (OverflowError m) = ''OverflowError''"
| "exn_type (OtherException t m) = t"

fun exn_str :: "exn \<Rightarrow> string" where
  "exn_str (NodeExecutionError e) = ne_message e"
| "exn_str (ReferenceResolutionError m) = m"
| "exn_str (PathNotFoundError m) = m"
| "exn_str (SecretNotFoundError r) = ''secret '' @ repr_str r @ '' could not be resolved''"
| "exn_str (SSRFBlockedError m) = m"
| "exn_str (ExpressionError m) = m"
| "exn_str (ValueError m) = m"
| "exn_str (TypeError m) = m"
| "exn_str (KeyError k) = repr_str k"
| "exn_str (IndexError m) = m"
| "exn_str (ZeroDivisionError m) = m"
| "exn_str (OverflowError m) = m"
| "exn_str (OtherException t m) = m"

lemma category_value_inj: "category_value a = category_value b \<Longrightarrow> a = b"
  by (cases a; cases b) simp_all

text \<open>\<open>int(segment)\<close> with its \<open>ValueError\<close>.\<close>

definition py_int :: "string \<Rightarrow> exn + int" where
  "py_int s = (case py_int_of_str s of
     Some i \<Rightarrow> Inr i
   | None \<Rightarrow> Inl (ValueError (''invalid literal for int() with base 10: '' @ repr_str s)))"

end
