(* ===== verification/Paths.thy ===== *)
theory Paths
  imports Errors
begin

text \<open>
  \<open>etl_core/paths.py\<close>: dotted-path navigation over JSON-like data, shared by references, pagination, the
  iterator, transform predicates, join keys and decryption.

  \<open>get_path\<close> raises \<open>PathNotFoundError\<close>; \<open>get_path_opt\<close> is the call with a \<open>default\<close>, \<^const>\<open>None\<close> standing
  for the default. Both let the \<open>ValueError\<close> of \<open>int(segment)\<close> through, which \<open>_is_index\<close> does not
  exclude (\<open>"--1"\<close> passes it).
\<close>

section \<open>Definitions\<close>

definition split_path :: "string \<Rightarrow> string list" where
  "split_path path = filter (\<lambda>seg. seg \<noteq> []) (split_on CHR ''.'' path)"

definition is_index :: "string \<Rightarrow> bool" where
  "is_index segment \<longleftrightarrow> isdigit (lstrip_chars ''-'' segment)"

text \<open>One iteration of the navigation loop; \<^const>\<open>None\<close> when the segment is absent.\<close>

fun path_step :: "json \<Rightarrow> string \<Rightarrow> exn + json option" where
  "path_step (JDict d) segment = Inr (dict_get d segment)"
| "path_step (JList xs) segment =
     (if is_index segment then sbind (py_int segment) (\<lambda>index. Inr (py_index xs index)) else Inr None)"
| "path_step _ segment = Inr None"

datatype nav = NFound json | NMissing nat

fun nav_path :: "nat \<Rightarrow> json \<Rightarrow> string list \<Rightarrow> exn + nav" where
  "nav_path i current [] = Inr (NFound current)"
| "nav_path i current (segment # segments) =
     sbind (path_step current segment)
       (\<lambda>r. case r of Some v \<Rightarrow> nav_path (Suc i) v segments | None \<Rightarrow> Inr (NMissing i))"

definition not_found_msg :: "string list \<Rightarrow> nat \<Rightarrow> string" where
  "not_found_msg segments i =
     ''path '' @ repr_str (join_with ''.'' segments) @ '' not found (failed at '' @
     repr_str (join_with ''.'' (take (i + 1) segments)) @ '')''"

definition get_path :: "json \<Rightarrow> string list \<Rightarrow> exn + json" where
  "get_path obj segments =
     sbind (nav_path 0 obj segments)
       (\<lambda>r. case r of
          NFound v \<Rightarrow> Inr v
        | NMissing i \<Rightarrow> Inl (PathNotFoundError (not_found_msg segments i)))"

definition get_path_opt :: "json \<Rightarrow> string list \<Rightarrow> exn + json option" where
  "get_path_opt obj segments =
     sbind (nav_path 0 obj segments)
       (\<lambda>r. case r of NFound v \<Rightarrow> Inr (Some v) | NMissing i \<Rightarrow> Inr None)"

definition has_path :: "json \<Rightarrow> string list \<Rightarrow> exn + bool" where
  "has_path obj segments = sbind (get_path_opt obj segments) (\<lambda>r. Inr (r \<noteq> None))"

text \<open>The position \<open>xs[i]\<close> of a list that \<open>-len(xs) <= i < len(xs)\<close> allows.\<close>

definition list_pos :: "'a list \<Rightarrow> int \<Rightarrow> nat option" where
  "list_pos xs i =
     (let n = int (length xs) in
      if - n \<le> i \<and> i < n then Some (nat (if i < 0 then n + i else i)) else None)"

text \<open>The assignment \<open>current[leaf] = value\<close> on the container found at the parent path.\<close>

definition set_leaf :: "string list \<Rightarrow> json \<Rightarrow> string \<Rightarrow> json \<Rightarrow> exn + json" where
  "set_leaf segments current leaf value =
     (let fail = PathNotFoundError (''cannot set path '' @ repr_str (join_with ''.'' segments) @
                   '' on '' @ type_name current)
      in case current of
           JDict d \<Rightarrow> Inr (JDict (dict_set leaf value d))
         | JList xs \<Rightarrow>
             (if is_index leaf then
                sbind (py_int leaf)
                  (\<lambda>index. case list_pos xs index of
                     Some j \<Rightarrow> Inr (JList (xs[j := value]))
                   | None \<Rightarrow> Inl fail)
              else Inl fail)
         | _ \<Rightarrow> Inl fail)"

text \<open>The object after the container at the parent path was mutated in place.\<close>

fun put_back :: "json \<Rightarrow> string list \<Rightarrow> json \<Rightarrow> json" where
  "put_back obj [] new = new"
| "put_back (JDict d) (s # ss) new =
     (case dict_get d s of Some v \<Rightarrow> JDict (dict_set s (put_back v ss new) d) | None \<Rightarrow> JDict d)"
| "put_back (JList xs) (s # ss) new =
     (case py_int_of_str s of
        Some index \<Rightarrow> (case list_pos xs index of
            Some j \<Rightarrow> JList (xs[j := put_back (xs ! j) ss new])
          | None \<Rightarrow> JList xs)
      | None \<Rightarrow> JList xs)"
| "put_back obj (s # ss) new = obj"

definition set_path :: "json \<Rightarrow> string list \<Rightarrow> json \<Rightarrow> exn + json" where
  "set_path obj segments value =
     (if segments = [] then Inl (PathNotFoundError ''cannot set an empty path'')
      else let parents = butlast segments; leaf = last segments in
        sbind (if parents = [] then Inr obj else get_path obj parents)
          (\<lambda>current. sbind (set_leaf segments current leaf value)
             (\<lambda>current'. Inr (put_back obj parents current'))))"

section \<open>Segments\<close>

text \<open>A segment that passes \<open>_is_index\<close> but that \<open>int\<close> rejects.\<close>

definition bad_index :: "string \<Rightarrow> bool" where
  "bad_index s \<longleftrightarrow> is_index s \<and> py_int_of_str s = None"

lemma split_path_no_dots: "seg \<in> set (split_path p) \<Longrightarrow> seg \<noteq> [] \<and> CHR ''.'' \<notin> set seg"
  by (auto simp: split_path_def dest: split_on_no_sep)

lemma split_path_join:
  assumes "\<forall>s \<in> set segs. s \<noteq> [] \<and> CHR ''.'' \<notin> set s"
  shows "split_path (join_with ''.'' segs) = segs"
proof (cases "segs = []")
  case True
  then show ?thesis by (simp add: split_path_def)
next
  case False
  with assms have "split_on CHR ''.'' (join_with ''.'' segs) = segs"
    by (intro split_on_join) auto
  with assms show ?thesis by (simp add: split_path_def)
qed

section \<open>Navigation\<close>

lemma py_index_list_pos: "py_index xs i = map_option ((!) xs) (list_pos xs i)"
  by (simp add: py_index_def list_pos_def Let_def)

lemma list_pos_bound: "list_pos xs i = Some j \<Longrightarrow> j < length xs"
  by (auto simp: list_pos_def Let_def split: if_splits)

lemma list_pos_length: "length xs = length ys \<Longrightarrow> list_pos xs i = list_pos ys i"
  by (simp add: list_pos_def)

lemma py_int_Inr: "py_int s = Inr i \<longleftrightarrow> py_int_of_str s = Some i"
  by (simp add: py_int_def split: option.splits)

lemma py_int_Inl: "py_int s = Inl e \<Longrightarrow> py_int_of_str s = None \<and> (\<exists>m. e = ValueError m)"
  by (auto simp: py_int_def split: option.splits)

lemma path_step_Inl: "path_step v s = Inl e \<Longrightarrow> bad_index s \<and> (\<exists>m. e = ValueError m)"
  by (induction v s rule: path_step.induct)
    (auto simp: sbind_eq_Inl bad_index_def dest: py_int_Inl split: if_splits)

lemma nav_path_Inl: "nav_path i v ss = Inl e \<Longrightarrow> (\<exists>s \<in> set ss. bad_index s) \<and> (\<exists>m. e = ValueError m)"
proof (induction ss arbitrary: i v)
  case (Cons s ss)
  then show ?case
    by (auto simp: sbind_eq_Inl dest: path_step_Inl split: option.splits)
qed simp

lemma get_path_opt_total: "\<forall>s \<in> set ss. \<not> bad_index s \<Longrightarrow> \<exists>r. get_path_opt v ss = Inr r"
  by (cases "nav_path 0 v ss") (auto simp: get_path_opt_def dest: nav_path_Inl split: nav.splits)

lemma get_path_Inl:
  "get_path v ss = Inl e \<Longrightarrow> (\<exists>m. e = PathNotFoundError m) \<or> (\<exists>s \<in> set ss. bad_index s) \<and> (\<exists>m. e = ValueError m)"
  by (cases "nav_path 0 v ss") (auto simp: get_path_def dest: nav_path_Inl split: nav.splits)

lemma get_path_opt_Inl:
  "get_path_opt v ss = Inl e \<Longrightarrow> (\<exists>s \<in> set ss. bad_index s) \<and> (\<exists>m. e = ValueError m)"
  by (cases "nav_path 0 v ss") (auto simp: get_path_opt_def dest: nav_path_Inl split: nav.splits)

lemma nav_path_found_shift: "nav_path i v ss = Inr (NFound w) \<longleftrightarrow> nav_path j v ss = Inr (NFound w)"
proof (induction ss arbitrary: i j v)
  case (Cons s ss)
  show ?case
  proof (cases "path_step v s")
    case (Inr r)
    show ?thesis
    proof (cases r)
      case (Some x)
      with Inr Cons.IH [of "Suc i" x "Suc j"] show ?thesis by simp
    qed (simp add: Inr)
  qed simp
qed simp

lemma get_path_Inr0: "get_path v ss = Inr w \<longleftrightarrow> nav_path 0 v ss = Inr (NFound w)"
  by (cases "nav_path 0 v ss") (auto simp: get_path_def split: nav.splits)

lemma get_path_Inr: "get_path v ss = Inr w \<longleftrightarrow> nav_path i v ss = Inr (NFound w)"
  using get_path_Inr0 nav_path_found_shift by blast

lemma get_path_opt_Some: "get_path_opt v ss = Inr (Some w) \<longleftrightarrow> get_path v ss = Inr w"
  by (cases "nav_path 0 v ss") (auto simp: get_path_Inr0 get_path_opt_def split: nav.splits)

lemma get_path_Nil [simp, py_simps]: "get_path v [] = Inr v"
  by (simp add: get_path_def)

lemma get_path_Cons:
  "get_path v (s # ss) = Inr w \<longleftrightarrow> (\<exists>u. path_step v s = Inr (Some u) \<and> get_path u ss = Inr w)"
proof -
  have "nav_path 0 v (s # ss) = Inr (NFound w) \<longleftrightarrow>
      (\<exists>u. path_step v s = Inr (Some u) \<and> nav_path (Suc 0) u ss = Inr (NFound w))"
    by (cases "path_step v s") (auto split: option.splits)
  then show ?thesis
    by (simp only: get_path_Inr [of v "s # ss" w 0] get_path_Inr [of _ ss w "Suc 0"])
qed

lemma get_path_append:
  "get_path v (ss @ ts) = Inr w \<longleftrightarrow> (\<exists>u. get_path v ss = Inr u \<and> get_path u ts = Inr w)"
  by (induction ss arbitrary: v) (auto simp: get_path_Cons)

lemma get_path_wf: "wf_json v \<Longrightarrow> get_path v ss = Inr w \<Longrightarrow> wf_json w"
proof (induction ss arbitrary: v)
  case (Cons s ss)
  then obtain u where u: "path_step v s = Inr (Some u)" and w: "get_path u ss = Inr w"
    by (auto simp: get_path_Cons)
  from u Cons.prems(1) have "wf_json u"
  proof (induction v s rule: path_step.induct)
    case (1 d s)
    then show ?case by (force simp: list_all_iff dest: map_of_SomeD)
  next
    case (2 xs s)
    then show ?case
      by (auto simp: sbind_eq_Inr list_all_iff dest: py_index_SomeD split: if_splits)
  qed simp_all
  with w show ?case by (blast intro: Cons.IH)
qed simp

section \<open>Update\<close>

lemma path_step_put_back:
  assumes "path_step v s = Inr (Some u)"
  shows "path_step (put_back v (s # ss) new) s = Inr (Some (put_back u ss new))"
  using assms
proof (induction v s rule: path_step.induct)
  case (2 xs s)
  then obtain i where idx: "is_index s" and int: "py_int_of_str s = Some i"
    and at: "py_index xs i = Some u"
    by (auto simp: sbind_eq_Inr py_int_Inr split: if_splits)
  then obtain j where j: "list_pos xs i = Some j" and u: "u = xs ! j"
    by (auto simp: py_index_list_pos)
  have "list_pos (xs[j := put_back u ss new]) i = Some j"
    using j list_pos_length [of "xs[j := put_back u ss new]" xs i] by simp
  with idx int j u list_pos_bound [OF j] show ?case
    by (simp add: py_int_def py_index_list_pos)
qed auto

lemma get_path_put_back:
  "get_path v ps = Inr u \<Longrightarrow> get_path (put_back v ps new) ps = Inr new"
proof (induction ps arbitrary: v)
  case (Cons s ss)
  then obtain x where "path_step v s = Inr (Some x)" and "get_path x ss = Inr u"
    by (auto simp: get_path_Cons)
  with Cons.IH path_step_put_back show ?case
    by (auto simp: get_path_Cons)
qed simp

lemma path_step_set_leaf:
  assumes "set_leaf segs cur leaf val = Inr cur'"
  shows "path_step cur' leaf = Inr (Some val)"
proof (cases cur)
  case (JList xs)
  with assms obtain i j where "is_index leaf" and int: "py_int_of_str leaf = Some i"
    and j: "list_pos xs i = Some j" and "cur' = JList (xs[j := val])"
    by (auto simp: set_leaf_def Let_def sbind_eq_Inr py_int_Inr split: if_splits option.splits)
  moreover have "list_pos (xs[j := val]) i = Some j"
    using j list_pos_length [of "xs[j := val]" xs i] by simp
  ultimately show ?thesis
    using list_pos_bound [OF j] by (simp add: py_int_def py_index_list_pos)
qed (use assms in \<open>auto simp: set_leaf_def\<close>)

lemma set_path_Inr_cases:
  assumes "set_path obj segs val = Inr obj'"
  obtains cur cur' where "segs \<noteq> []" "get_path obj (butlast segs) = Inr cur"
    "set_leaf segs cur (last segs) val = Inr cur'" "obj' = put_back obj (butlast segs) cur'"
  using assms by (auto simp: set_path_def Let_def sbind_eq_Inr split: if_splits)

text \<open>
  C1. Reading back what was just written: whenever \<open>set_path\<close> succeeds, \<open>get_path\<close> on the updated object
  at the same path returns exactly the value that was set, for dictionary keys and for list indices
  (negative ones included) at any depth.
\<close>

theorem get_path_set_path:
  assumes "set_path obj segs val = Inr obj'"
  shows "get_path obj' segs = Inr val"
proof -
  from assms obtain cur cur' where ne: "segs \<noteq> []" and cur: "get_path obj (butlast segs) = Inr cur"
    and leaf: "set_leaf segs cur (last segs) val = Inr cur'"
    and obj': "obj' = put_back obj (butlast segs) cur'"
    by (rule set_path_Inr_cases)
  have "get_path obj' (butlast segs) = Inr cur'"
    using cur obj' get_path_put_back by blast
  moreover have "get_path cur' [last segs] = Inr val"
    using path_step_set_leaf [OF leaf] by (simp add: get_path_Cons)
  ultimately have "get_path obj' (butlast segs @ [last segs]) = Inr val"
    by (auto simp: get_path_append)
  with ne show ?thesis by simp
qed

theorem get_path_set_path_witness:
  "get_path (JDict [(''a'', JList [JNull, JDict [(''b'', JInt 1), (''c'', JStr ''x'')]])])
     [''a'', ''-1'', ''c''] = Inr (JStr ''x'')"
  by (rule get_path_set_path [of "JDict [(''a'', JList [JNull, JDict [(''b'', JInt 1)]])]" _ "JStr ''x''"])
    code_simp

text \<open>Writing below one key of a record leaves every other key of it untouched.\<close>

lemma put_back_dict_frame:
  "put_back (JDict d) (k # ks) new = JDict d' \<Longrightarrow> j \<noteq> k \<Longrightarrow> dict_get d' j = dict_get d j"
  by (auto split: option.splits)

lemma set_path_dict_frame:
  assumes "set_path (JDict d) (k # ks) val = Inr obj'"
  shows "\<exists>d'. obj' = JDict d' \<and> (\<forall>j. j \<noteq> k \<longrightarrow> dict_get d' j = dict_get d j)"
proof (cases "ks = []")
  case True
  with assms show ?thesis by (auto simp: set_path_def set_leaf_def)
next
  case False
  from assms obtain cur' where obj': "obj' = put_back (JDict d) (butlast (k # ks)) cur'"
    by (rule set_path_Inr_cases) auto
  with False have eq: "obj' = put_back (JDict d) (k # butlast ks) cur'" by simp
  then obtain d' where "obj' = JDict d'" by (cases "dict_get d k") auto
  with eq show ?thesis using put_back_dict_frame by metis
qed

lemma dict_set_wf_json: "wf_json (JDict d) \<Longrightarrow> wf_json v \<Longrightarrow> wf_json (JDict (dict_set k v d))"
  by (force simp: wf_dict_set list_all_iff dest: dict_set_elems)

lemma put_back_wf: "wf_json obj \<Longrightarrow> wf_json new \<Longrightarrow> wf_json (put_back obj ps new)"
proof (induction obj ps new rule: put_back.induct)
  case (2 d s ss new)
  show ?case
  proof (cases "dict_get d s")
    case (Some v)
    then have "wf_json v" using 2 by (force simp: list_all_iff dest: map_of_SomeD)
    with 2 Some show ?thesis using dict_set_wf_json by simp
  qed (use 2 in simp)
next
  case (3 xs s ss new)
  show ?case
  proof (cases "py_int_of_str s")
    case (Some i)
    show ?thesis
    proof (cases "list_pos xs i")
      case pos: (Some j)
      then have "wf_json (xs ! j)" using 3 list_pos_bound [OF pos] by (simp add: list_all_length)
      with 3 Some pos have "wf_json (put_back (xs ! j) ss new)" by simp
      with 3 Some pos list_pos_bound [OF pos] show ?thesis
        by (simp add: list_all_length nth_list_update)
    qed (use 3 Some in simp)
  qed (use 3 in simp)
qed simp_all

end
