(* ===== verification/References.thy ===== *)
theory References
  imports Paths
begin

text \<open>
  \<open>etl_core/references.py\<close>: the \<open>$upstream\<close> and \<open>$iter\<close> references of a node's configuration, their run-time
  resolution and their static collection. The two regular expressions are written out as matchers:
  \<open>whole_re\<close> for a string that is one reference, \<open>embed_scan\<close> for the left-to-right, non-overlapping
  \<open>${...}\<close> occurrences that \<open>finditer\<close> and \<open>sub\<close> visit.
\<close>

section \<open>Matching\<close>

datatype ref_kind = Upstream | Iter

fun kind_name :: "ref_kind \<Rightarrow> string" where
  "kind_name Upstream = ''upstream''"
| "kind_name Iter = ''iter''"

definition strip_prefix :: "string \<Rightarrow> string \<Rightarrow> string option" where
  "strip_prefix p s = (if starts_with p s then Some (drop (length p) s) else None)"

definition match_kind :: "string \<Rightarrow> string \<Rightarrow> (ref_kind \<times> string) option" where
  "match_kind opening s =
     (case strip_prefix (opening @ ''upstream.'') s of
        Some rest \<Rightarrow> Some (Upstream, rest)
      | None \<Rightarrow> (case strip_prefix (opening @ ''iter.'') s of
            Some rest \<Rightarrow> Some (Iter, rest)
          | None \<Rightarrow> None))"

definition ref_char :: "char \<Rightarrow> bool" where
  "ref_char c \<longleftrightarrow> \<not> is_space c \<and> c \<noteq> CHR ''{'' \<and> c \<noteq> CHR ''}''"

text \<open>\<open>WHOLE_RE.match\<close>; the final \<open>$\<close> also matches before one trailing newline.\<close>

definition whole_re :: "string \<Rightarrow> (ref_kind \<times> string) option" where
  "whole_re s =
     (case match_kind ''$'' s of
        None \<Rightarrow> None
      | Some (k, rest) \<Rightarrow>
          (let body = (if rest \<noteq> [] \<and> last rest = char_of (10 :: nat) then butlast rest else rest)
           in if body \<noteq> [] \<and> list_all ref_char body then Some (k, body) else None))"

text \<open>An \<open>EMBED_RE\<close> match at the start of the text: kind, path and the text after the closing brace.\<close>

definition embed_at :: "string \<Rightarrow> (ref_kind \<times> string \<times> string) option" where
  "embed_at s =
     (case match_kind ''${'' s of
        None \<Rightarrow> None
      | Some (k, rest) \<Rightarrow>
          (let path = takeWhile (\<lambda>c. c \<noteq> CHR ''}'') rest; tail = dropWhile (\<lambda>c. c \<noteq> CHR ''}'') rest
           in if path \<noteq> [] \<and> tail \<noteq> [] then Some (k, path, tl tail) else None))"

datatype piece = Lit char | Ref ref_kind string

lemma strip_prefix_length: "strip_prefix p s = Some r \<Longrightarrow> length s = length p + length r"
  by (auto simp: strip_prefix_def starts_with_iff split: if_splits)

lemma match_kind_length: "match_kind op s = Some (k, r) \<Longrightarrow> length r < length s"
  by (auto simp: match_kind_def dest!: strip_prefix_length split: option.splits)

lemma embed_at_length: "embed_at s = Some (k, p, r) \<Longrightarrow> length r < length s"
proof -
  assume "embed_at s = Some (k, p, r)"
  then obtain rest where m: "match_kind ''${'' s = Some (k, rest)"
    and r: "r = tl (dropWhile (\<lambda>c. c \<noteq> CHR ''}'') rest)"
    by (auto simp: embed_at_def Let_def split: option.splits if_splits)
  have "length r \<le> length rest" unfolding r 
    by (simp add: le_diff_conv le_SucI length_dropWhile_le)
  with match_kind_length [OF m] show ?thesis by simp
qed

function embed_scan :: "string \<Rightarrow> piece list" where
  "embed_scan s =
     (case embed_at s of
        Some (k, p, r) \<Rightarrow> Ref k p # embed_scan r
      | None \<Rightarrow> (case s of [] \<Rightarrow> [] | c # cs \<Rightarrow> Lit c # embed_scan cs))"
  by pat_completeness auto
termination
  by (relation "measure length") (auto dest: embed_at_length)

declare embed_scan.simps [simp del]

fun piece_refs :: "piece list \<Rightarrow> (ref_kind \<times> string) list" where
  "piece_refs [] = []"
| "piece_refs (Lit c # ps) = piece_refs ps"
| "piece_refs (Ref k p # ps) = (k, p) # piece_refs ps"

section \<open>Resolution\<close>

record iter_context =
  it_value :: json
  it_index :: nat

record reference_context =
  rx_upstream :: "records dict"
  rx_iter :: "iter_context option"

text \<open>Re-raising a \<open>PathNotFoundError\<close> as a resolution error, every other exception passing through.\<close>

definition convert_path_error :: "string \<Rightarrow> exn + json \<Rightarrow> exn + json" where
  "convert_path_error label r =
     (case r of
        Inr v \<Rightarrow> Inr v
      | Inl (PathNotFoundError m) \<Rightarrow> Inl (ReferenceResolutionError (label @ '': '' @ m))
      | Inl e \<Rightarrow> Inl e)"

definition resolve_iter :: "string \<Rightarrow> string \<Rightarrow> string list \<Rightarrow> reference_context \<Rightarrow> exn + json" where
  "resolve_iter path head rest ctx =
     (case rx_iter ctx of
        None \<Rightarrow> Inl (ReferenceResolutionError ''$iter reference used outside of an iterator scope'')
      | Some it \<Rightarrow>
          sbind (if head = ''value'' then Inr (it_value it)
                 else if head = ''index'' then Inr (JInt (int (it_index it)))
                 else Inl (ReferenceResolutionError (''unknown $iter field '' @ repr_str head @
                   '' (expected '' @ repr_str ''value'' @ '' or '' @ repr_str ''index'' @ '')'')))
            (\<lambda>base. if rest = [] then Inr base
                    else convert_path_error (''$iter.'' @ path) (get_path base rest)))"

definition index_range_msg :: "string \<Rightarrow> int \<Rightarrow> nat \<Rightarrow> string" where
  "index_range_msg path index n =
     ''$upstream.'' @ path @ '': record index '' @ int_str index @ '' out of range ('' @ nat_str n @
     '' records)''"

text \<open>The record a reference picks: by an integer segment, or the first one; with the segments left.\<close>

definition pick_record :: "string \<Rightarrow> string \<Rightarrow> records \<Rightarrow> string list \<Rightarrow> exn + json \<times> string list" where
  "pick_record path node_id recs rest =
     (if is_index (hd rest) then
        sbind (py_int (hd rest))
          (\<lambda>index. case py_index recs index of
             Some r \<Rightarrow> Inr (JDict r, tl rest)
           | None \<Rightarrow> Inl (ReferenceResolutionError (index_range_msg path index (length recs))))
      else
        (case recs of
           [] \<Rightarrow> Inl (ReferenceResolutionError
                  (''$upstream.'' @ path @ '': node '' @ repr_str node_id @ '' produced no records''))
         | r # _ \<Rightarrow> Inr (JDict r, rest)))"

definition resolve_upstream :: "string \<Rightarrow> string \<Rightarrow> string list \<Rightarrow> reference_context \<Rightarrow> exn + json" where
  "resolve_upstream path node_id rest ctx =
     (case dict_get (rx_upstream ctx) node_id of
        None \<Rightarrow> Inl (ReferenceResolutionError (''$upstream reference to '' @ repr_str node_id @
                 '', which has no available output (not an upstream node of this one, or it has not run)''))
      | Some recs \<Rightarrow>
          if rest = [] then Inr (records_json recs)
          else sbind (pick_record path node_id recs rest)
            (\<lambda>(record, rest'). if rest' = [] then Inr record
               else convert_path_error (''$upstream.'' @ path) (get_path record rest')))"

definition resolve_reference :: "ref_kind \<Rightarrow> string \<Rightarrow> reference_context \<Rightarrow> exn + json" where
  "resolve_reference kind path ctx =
     (case split_path path of
        [] \<Rightarrow> Inl (ReferenceResolutionError (''empty $'' @ kind_name kind @ '' reference''))
      | head # rest \<Rightarrow>
          (case kind of
             Iter \<Rightarrow> resolve_iter path head rest ctx
           | Upstream \<Rightarrow> resolve_upstream path head rest ctx))"

text \<open>\<open>EMBED_RE.sub\<close>: the replacement function runs left to right and its exception ends the call.\<close>

fun substitute :: "reference_context \<Rightarrow> piece list \<Rightarrow> exn + string" where
  "substitute ctx [] = Inr []"
| "substitute ctx (Lit c # ps) = sbind (substitute ctx ps) (\<lambda>s. Inr (c # s))"
| "substitute ctx (Ref k p # ps) =
     sbind (resolve_reference k p ctx) (\<lambda>v. sbind (substitute ctx ps) (\<lambda>s. Inr (py_str v @ s)))"

definition resolve_string :: "reference_context \<Rightarrow> string \<Rightarrow> exn + json" where
  "resolve_string ctx s =
     (if starts_with ''$$'' s then Inr (JStr (drop 1 s))
      else (case whole_re s of
          Some (k, p) \<Rightarrow> resolve_reference k p ctx
        | None \<Rightarrow> sbind (substitute ctx (embed_scan s)) (\<lambda>t. Inr (JStr t))))"

fun resolve_config :: "reference_context \<Rightarrow> json \<Rightarrow> exn + json" where
  "resolve_config ctx (JStr s) = resolve_string ctx s"
| "resolve_config ctx (JDict d) =
     sbind (mapM (\<lambda>p. sbind (resolve_config ctx (snd p)) (\<lambda>v. Inr (fst p, v))) d) (\<lambda>d'. Inr (JDict d'))"
| "resolve_config ctx (JList xs) = sbind (mapM (resolve_config ctx) xs) (\<lambda>ys. Inr (JList ys))"
| "resolve_config ctx v = Inr v"

section \<open>Static collection\<close>

definition string_references :: "string \<Rightarrow> (ref_kind \<times> string) list" where
  "string_references s =
     (if starts_with ''$$'' s then []
      else (case whole_re s of Some kp \<Rightarrow> [kp] | None \<Rightarrow> piece_refs (embed_scan s)))"

fun find_references :: "json \<Rightarrow> (ref_kind \<times> string) list" where
  "find_references (JStr s) = string_references s"
| "find_references (JDict d) = concat (map (\<lambda>p. find_references (snd p)) d)"
| "find_references (JList xs) = concat (map find_references xs)"
| "find_references v = []"

definition has_references :: "json \<Rightarrow> bool" where
  "has_references v \<longleftrightarrow> find_references v \<noteq> []"

section \<open>Which exceptions resolution raises\<close>

text \<open>The exceptions of one reference: a resolution error, or the \<open>ValueError\<close> of a malformed index.\<close>

definition ref_exn :: "string \<Rightarrow> exn \<Rightarrow> bool" where
  "ref_exn path e \<longleftrightarrow> (\<exists>m. e = ReferenceResolutionError m) \<or>
     (\<exists>s \<in> set (split_path path). bad_index s) \<and> (\<exists>m. e = ValueError m)"

lemma convert_path_error_Inl:
  assumes "convert_path_error l (get_path v ss) = Inl e"
  shows "(\<exists>m. e = ReferenceResolutionError m) \<or> (\<exists>s \<in> set ss. bad_index s) \<and> (\<exists>m. e = ValueError m)"
  using assms by (auto simp: convert_path_error_def dest: get_path_Inl split: sum.splits exn.splits)

lemma pick_record_Inl:
  assumes "pick_record path n recs rest = Inl e" and "rest \<noteq> []"
  shows "(\<exists>m. e = ReferenceResolutionError m) \<or> (\<exists>s \<in> set rest. bad_index s) \<and> (\<exists>m. e = ValueError m)"
  using assms
  by (auto simp: pick_record_def sbind_eq_Inl bad_index_def dest!: py_int_Inl
      split: if_splits option.splits list.splits)

lemma pick_record_rest: "pick_record path n recs rest = Inr (v, rest') \<Longrightarrow> set rest' \<subseteq> set rest"
  by (auto simp: pick_record_def sbind_eq_Inr dest: list.set_sel(2)
      split: if_splits option.splits list.splits)
    (metis list.sel(2) list.set_sel(2))+

lemma resolve_upstream_Inl:
  assumes "resolve_upstream path n rest ctx = Inl e"
  shows "(\<exists>m. e = ReferenceResolutionError m) \<or> (\<exists>s \<in> set rest. bad_index s) \<and> (\<exists>m. e = ValueError m)"
proof -
  consider (none) m where "e = ReferenceResolutionError m"
    | (pick) recs where "rest \<noteq> []" "pick_record path n recs rest = Inl e"
    | (path) recs v rest' where "pick_record path n recs rest = Inr (v, rest')"
        "convert_path_error (''$upstream.'' @ path) (get_path v rest') = Inl e"
    using assms by (auto simp: resolve_upstream_def sbind_eq_Inl split: option.splits if_splits)
  then show ?thesis
  proof cases
    case pick
    then show ?thesis by (intro pick_record_Inl)
  next
    case path
    with convert_path_error_Inl pick_record_rest show ?thesis by blast
  qed simp
qed

lemma resolve_iter_Inl:
  assumes "resolve_iter path h rest ctx = Inl e"
  shows "(\<exists>m. e = ReferenceResolutionError m) \<or> (\<exists>s \<in> set rest. bad_index s) \<and> (\<exists>m. e = ValueError m)"
  using assms convert_path_error_Inl
  by (auto simp: resolve_iter_def sbind_eq_Inl split: option.splits if_splits)

lemma resolve_reference_Inl: "resolve_reference k p ctx = Inl e \<Longrightarrow> ref_exn p e"
  by (auto simp: resolve_reference_def ref_exn_def split: list.splits ref_kind.splits
      dest!: resolve_upstream_Inl resolve_iter_Inl)

lemma substitute_Inl:
  "substitute ctx ps = Inl e \<Longrightarrow> \<exists>(k, p) \<in> set (piece_refs ps). resolve_reference k p ctx = Inl e"
  by (induction ps rule: piece_refs.induct) (auto simp: sbind_eq_Inl)

lemma substitute_Inr:
  "substitute ctx ps = Inr s \<Longrightarrow> (k, p) \<in> set (piece_refs ps) \<Longrightarrow> \<exists>v. resolve_reference k p ctx = Inr v"
  by (induction ps arbitrary: s rule: piece_refs.induct) (auto simp: sbind_eq_Inr)

lemma resolve_string_Inl:
  "resolve_string ctx s = Inl e \<Longrightarrow> \<exists>(k, p) \<in> set (string_references s). resolve_reference k p ctx = Inl e"
  by (auto simp: resolve_string_def string_references_def sbind_eq_Inl dest!: substitute_Inl
      split: if_splits option.splits)

lemma resolve_string_Inr:
  "resolve_string ctx s = Inr w \<Longrightarrow> (k, p) \<in> set (string_references s) \<Longrightarrow>
     \<exists>v. resolve_reference k p ctx = Inr v"
  by (auto simp: resolve_string_def string_references_def sbind_eq_Inr dest: substitute_Inr
      split: if_splits option.splits)

lemma resolve_config_Inl:
  "resolve_config ctx v = Inl e \<Longrightarrow> \<exists>(k, p) \<in> set (find_references v). resolve_reference k p ctx = Inl e"
proof (induction v)
  case (JStr s)
  then show ?case by (simp add: resolve_string_Inl)
next
  case (JDict d)
  then obtain p where "p \<in> set d" and "resolve_config ctx (snd p) = Inl e"
    by (auto simp: sbind_eq_Inl dest!: mapM_Inl)
  with JDict.IH [of p "snd p"] show ?case by (force simp: snds.simps)
next
  case (JList xs)
  then obtain x where "x \<in> set xs" and "resolve_config ctx x = Inl e"
    by (auto simp: sbind_eq_Inl dest!: mapM_Inl)
  with JList.IH show ?case by fastforce
qed simp_all

lemma resolve_config_Inr:
  "resolve_config ctx v = Inr w \<Longrightarrow> (k, p) \<in> set (find_references v) \<Longrightarrow>
     \<exists>x. resolve_reference k p ctx = Inr x"
proof (induction v arbitrary: w)
  case (JStr s)
  then show ?case by (auto dest: resolve_string_Inr)
next
  case (JDict d)
  then obtain d' q where d': "mapM (\<lambda>p. sbind (resolve_config ctx (snd p)) (\<lambda>v. Inr (fst p, v))) d = Inr d'"
    and q: "q \<in> set d" "(k, p) \<in> set (find_references (snd q))"
    by (auto simp: sbind_eq_Inr)
  then obtain u where "resolve_config ctx (snd q) = Inr u"
    by (auto simp: sbind_eq_Inr dest!: mapM_Inr_ex)
  with q JDict.IH [of q "snd q"] show ?case by (simp add: snds.simps)
next
  case (JList xs)
  then obtain ys x where ys: "mapM (resolve_config ctx) xs = Inr ys"
    and x: "x \<in> set xs" "(k, p) \<in> set (find_references x)"
    by (auto simp: sbind_eq_Inr)
  then obtain u where "resolve_config ctx x = Inr u" by (auto dest: mapM_Inr_ex)
  with x JList.IH show ?case by blast
qed simp_all

lemma resolve_config_exn:
  assumes "resolve_config ctx v = Inl e"
  shows "(\<exists>m. e = ReferenceResolutionError m) \<or>
    (\<exists>(k, p) \<in> set (find_references v). \<exists>s \<in> set (split_path p). bad_index s) \<and> (\<exists>m. e = ValueError m)"
  using resolve_config_Inl [OF assms] by (fastforce simp: ref_exn_def dest!: resolve_reference_Inl)

text \<open>
  C2. \<open>find_references\<close> collects exactly the references that \<open>resolve_config\<close> evaluates: a configuration
  resolves if and only if every collected reference does. Static validation, which sees only the
  collected references, therefore misses none that run-time resolution meets, at any nesting depth and
  in both the whole-string and the embedded form.
\<close>

theorem resolve_config_iff_references:
  "(\<exists>w. resolve_config ctx v = Inr w) \<longleftrightarrow>
     (\<forall>(k, p) \<in> set (find_references v). \<exists>x. resolve_reference k p ctx = Inr x)"
proof
  assume "\<exists>w. resolve_config ctx v = Inr w"
  then show "\<forall>(k, p) \<in> set (find_references v). \<exists>x. resolve_reference k p ctx = Inr x"
    by (auto dest: resolve_config_Inr)
next
  assume all: "\<forall>(k, p) \<in> set (find_references v). \<exists>x. resolve_reference k p ctx = Inr x"
  show "\<exists>w. resolve_config ctx v = Inr w"
  proof (cases "resolve_config ctx v")
    case (Inl e)
    with all show ?thesis by (fastforce dest!: resolve_config_Inl)
  qed simp
qed

theorem resolve_config_iff_references_witness:
  "\<exists>w. resolve_config \<lparr>rx_upstream = [(''n1'', [[(''id'', JInt 7)]])], rx_iter = None\<rparr>
     (JDict [(''user'', JStr ''$upstream.n1.id''), (''url'', JStr ''x/${upstream.n1.0.id}/y'')]) = Inr w"
proof -
  let ?ctx = "\<lparr>rx_upstream = [(''n1'', [[(''id'', JInt 7)]])], rx_iter = None\<rparr>"
  have refs: "find_references (JDict [(''user'', JStr ''$upstream.n1.id''),
      (''url'', JStr ''x/${upstream.n1.0.id}/y'')]) = [(Upstream, ''n1.id''), (Upstream, ''n1.0.id'')]"
    by code_simp
  have "resolve_reference Upstream ''n1.id'' ?ctx = Inr (JInt 7)"
    "resolve_reference Upstream ''n1.0.id'' ?ctx = Inr (JInt 7)"
    by code_simp+
  then show ?thesis
    by (subst resolve_config_iff_references) (simp only: refs list.set, simp)
qed

lemma resolve_config_no_refs_total:
  "\<not> has_references v \<Longrightarrow> \<exists>w. resolve_config ctx v = Inr w"
  by (cases "resolve_config ctx v") (auto simp: has_references_def dest: resolve_config_Inl)

lemma substitute_no_refs: "piece_refs ps = [] \<Longrightarrow> substitute ctx ps = substitute ctx' ps"
  by (induction ps rule: piece_refs.induct) simp_all

lemma resolve_string_no_refs: "string_references s = [] \<Longrightarrow> resolve_string ctx s = resolve_string ctx' s"
  using substitute_no_refs [of "embed_scan s" ctx ctx']
  by (simp add: resolve_string_def string_references_def split: if_splits option.splits)

lemma resolve_config_no_refs_indep:
  "find_references v = [] \<Longrightarrow> resolve_config ctx v = resolve_config ctx' v"
proof (induction v)
  case (JStr s)
  then show ?case by (simp add: resolve_string_no_refs)
next
  case (JDict d)
  have "resolve_config ctx (snd p) = resolve_config ctx' (snd p)" if "p \<in> set d" for p
    using JDict that by (auto simp: snds.simps)
  then show ?case by (simp cong: mapM_cong)
next
  case (JList xs)
  then show ?case by (simp cong: mapM_cong)
qed simp_all

text \<open>
  A configuration in which validation finds no reference is a constant: it always resolves, to the
  same value whatever the outputs of other nodes and whatever the current iteration.
\<close>

lemma resolve_config_without_references:
  assumes "\<not> has_references v"
  shows "\<exists>w. \<forall>ctx. resolve_config ctx v = Inr w"
proof -
  obtain w where w: "resolve_config undefined v = Inr w"
    using resolve_config_no_refs_total [OF assms] by blast
  have "resolve_config ctx v = Inr w" for ctx
    using resolve_config_no_refs_indep [of v ctx undefined] assms w by (simp add: has_references_def)
  then show ?thesis by blast
qed

end
