(* ===== verification/Redact.thy ===== *)
theory Redact
  imports Errors
begin

text \<open>
  \<open>etl_core/redact.py\<close>: the secret redactor of a run. A redactor is the list of variants (plain,
  percent-encoded and Base64 text of every secret of at least four characters), longest first; redaction
  replaces each variant by the mask in turn. \<open>redact_url\<close>, which rebuilds a URL, is in the theory \<open>Url\<close>.
\<close>

section \<open>Encodings\<close>

text \<open>UTF-8 of a character below code point 256, Base64 of bytes, and \<open>urllib.parse.quote(s, safe="")\<close>.\<close>

definition utf8_char :: "char \<Rightarrow> nat list" where
  "utf8_char c = (let n = of_char c in if n < 128 then [n] else [192 + n div 64, 128 + n mod 64])"

definition utf8 :: "string \<Rightarrow> nat list" where
  "utf8 s = concat (map utf8_char s)"

definition b64_char :: "nat \<Rightarrow> char" where
  "b64_char n =
     (if n < 26 then char_of (65 + n) else if n < 52 then char_of (71 + n)
      else if n < 62 then char_of (n - 4) else if n = 62 then CHR ''+'' else CHR ''/'')"

fun b64encode :: "nat list \<Rightarrow> string" where
  "b64encode [] = []"
| "b64encode [a] = [b64_char (a div 4), b64_char ((a mod 4) * 16), CHR ''='', CHR ''='']"
| "b64encode [a, b] =
     [b64_char (a div 4), b64_char ((a mod 4) * 16 + b div 16), b64_char ((b mod 16) * 4), CHR ''='']"
| "b64encode (a # b # c # rest) =
     b64_char (a div 4) # b64_char ((a mod 4) * 16 + b div 16) #
     b64_char ((b mod 16) * 4 + c div 64) # b64_char (c mod 64) # b64encode rest"

definition unreserved :: "nat \<Rightarrow> bool" where
  "unreserved n \<longleftrightarrow> (48 \<le> n \<and> n \<le> 57) \<or> (65 \<le> n \<and> n \<le> 90) \<or> (97 \<le> n \<and> n \<le> 122) \<or> n \<in> {45, 46, 95, 126}"

definition hex_upper :: "nat \<Rightarrow> char" where
  "hex_upper n = (if n < 10 then char_of (48 + n) else char_of (55 + n))"

definition quote_byte :: "nat \<Rightarrow> string" where
  "quote_byte n = (if unreserved n then [char_of n] else [CHR ''%'', hex_upper (n div 16), hex_upper (n mod 16)])"

definition quote :: "string \<Rightarrow> string" where
  "quote s = concat (map quote_byte (utf8 s))"

section \<open>Substring search and replacement\<close>

text \<open>\<open>v in s\<close> and \<open>s.replace(old, new)\<close> for a non-empty \<open>old\<close>.\<close>

fun occurs_in :: "string \<Rightarrow> string \<Rightarrow> bool" where
  "occurs_in v [] = (v = [])"
| "occurs_in v (c # cs) = (starts_with v (c # cs) \<or> occurs_in v cs)"

function py_replace :: "string \<Rightarrow> string \<Rightarrow> string \<Rightarrow> string" where
  "py_replace old new s =
     (if old = [] then s
      else if starts_with old s then new @ py_replace old new (drop (length old) s)
      else (case s of [] \<Rightarrow> [] | c # cs \<Rightarrow> c # py_replace old new cs))"
  by pat_completeness auto
termination
  by (relation "measure (\<lambda>(old, new, s). length s)")
    (auto simp: starts_with_iff)

declare py_replace.simps [simp del]

section \<open>The redactor\<close>

definition MASK :: string where "MASK = ''***''"

definition MIN_REDACTABLE_LENGTH :: nat where "MIN_REDACTABLE_LENGTH = 4"

definition secret_variants :: "string \<Rightarrow> string list" where
  "secret_variants secret =
     (if secret = [] \<or> length secret < MIN_REDACTABLE_LENGTH then []
      else [secret]
        @ (if quote secret \<noteq> secret then [quote secret] else [])
        @ (let encoded = b64encode (utf8 secret) in
           if MIN_REDACTABLE_LENGTH \<le> length encoded then [encoded] else []))"

definition make_redactor :: "string list \<Rightarrow> string list" where
  "make_redactor secrets = sort_key (\<lambda>v. - int (length v)) (remdups (concat (map secret_variants secrets)))"

fun redact :: "string list \<Rightarrow> string \<Rightarrow> string" where
  "redact [] msg = msg"
| "redact (v # vs) msg = redact vs (if occurs_in v msg then py_replace v MASK msg else msg)"

fun redact_obj :: "string list \<Rightarrow> json \<Rightarrow> json" where
  "redact_obj vs (JStr s) = JStr (redact vs s)"
| "redact_obj vs (JDict d) = JDict (map (\<lambda>p. (fst p, redact_obj vs (snd p))) d)"
| "redact_obj vs (JList xs) = JList (map (redact_obj vs) xs)"
| "redact_obj vs v = v"

text \<open>The string leaves of a secret.\<close>

fun json_strings :: "json \<Rightarrow> string list" where
  "json_strings (JStr s) = [s]"
| "json_strings (JDict d) = concat (map (\<lambda>p. json_strings (snd p)) d)"
| "json_strings (JList xs) = concat (map json_strings xs)"
| "json_strings v = []"

section \<open>No masked variant survives\<close>

lemma starts_with_Nil [simp]: "starts_with [] s"
  by (simp add: starts_with_def)

lemma starts_with_Cons [simp]: "starts_with (a # p) (b # s) \<longleftrightarrow> a = b \<and> starts_with p s"
  by (auto simp: starts_with_def)

lemma starts_with_Cons_Nil [simp]: "\<not> starts_with (a # p) []"
  by (simp add: starts_with_def)

lemma occurs_in_append: "occurs_in w t \<Longrightarrow> occurs_in w (s @ t)"
  by (induction s) simp_all

lemma starts_with_occurs: "starts_with w s \<Longrightarrow> occurs_in w s"
  by (cases s) (auto simp: starts_with_iff)

lemma py_replace_starts: "v \<noteq> [] \<Longrightarrow> starts_with v s \<Longrightarrow>
    py_replace v m s = m @ py_replace v m (drop (length v) s)"
  by (simp add: py_replace.simps)

lemma py_replace_skip: "v \<noteq> [] \<Longrightarrow> \<not> starts_with v (c # cs) \<Longrightarrow>
    py_replace v m (c # cs) = c # py_replace v m cs"
  by (simp add: py_replace.simps)

lemma py_replace_Nil: "v \<noteq> [] \<Longrightarrow> py_replace v m [] = []"
  by (cases v) (simp_all add: py_replace.simps)

text \<open>A mask-free word at the front of the result was at the front of the text, before any match.\<close>

lemma starts_with_py_replace:
  assumes "v \<noteq> []" and "CHR ''*'' \<notin> set w"
  shows "starts_with w (py_replace v MASK s) \<Longrightarrow> starts_with w s \<and> (w \<noteq> [] \<longrightarrow> \<not> starts_with v s)"
  using assms(2)
proof (induction w arbitrary: s)
  case (Cons a w)
  show ?case
  proof (cases s)
    case Nil
    with Cons.prems assms(1) show ?thesis by (simp add: py_replace_Nil)
  next
    case s: (Cons c cs)
    show ?thesis
    proof (cases "starts_with v s")
      case True
      with Cons.prems assms(1) show ?thesis by (simp add: py_replace_starts MASK_def)
    next
      case False
      with Cons.prems assms(1) s have "a = c" and "starts_with w (py_replace v MASK cs)"
        by (simp_all add: py_replace_skip)
      with Cons.IH [of cs] Cons.prems(2) False s show ?thesis by simp
    qed
  qed
qed simp

lemma occurs_in_mask: "occurs_in w (MASK @ t) \<Longrightarrow> w \<noteq> [] \<Longrightarrow> CHR ''*'' \<notin> set w \<Longrightarrow> occurs_in w t"
  by (cases w) (auto simp: MASK_def)

lemma occurs_in_py_replace:
  assumes "v \<noteq> []" and "w \<noteq> []" and star: "CHR ''*'' \<notin> set w"
  shows "occurs_in w (py_replace v MASK s) \<Longrightarrow> occurs_in w s \<and> w \<noteq> v"
proof (induction "length s" arbitrary: s rule: less_induct)
  case less
  show ?case
  proof (cases "starts_with v s")
    case True
    then obtain r where s: "s = v @ r" by (auto simp: starts_with_iff)
    with less.prems True assms have "occurs_in w (py_replace v MASK r)"
      by (auto simp: py_replace_starts dest: occurs_in_mask)
    with less.hyps [of r] assms(1) s show ?thesis by (simp add: occurs_in_append)
  next
    case False
    show ?thesis
    proof (cases s)
      case Nil
      with less.prems assms show ?thesis by (simp add: py_replace_Nil)
    next
      case s: (Cons c cs)
      consider "starts_with w (py_replace v MASK s)" | "occurs_in w (py_replace v MASK cs)"
        using less.prems False s assms(1) by (auto simp: py_replace_skip)
      then show ?thesis
      proof cases
        case 1
        with starts_with_py_replace [OF assms(1) star] assms(2)
        show ?thesis by (metis starts_with_occurs)
      next
        case 2
        with less.hyps [of cs] s show ?thesis by simp
      qed
    qed
  qed
qed

lemma redact_keeps_absent:
  assumes "\<forall>v \<in> set vs. v \<noteq> []" and "w \<noteq> []" and "CHR ''*'' \<notin> set w" and "\<not> occurs_in w msg"
  shows "\<not> occurs_in w (redact vs msg)"
  using assms(1,4) by (induction vs arbitrary: msg) (auto dest: occurs_in_py_replace [OF _ assms(2,3)])

lemma redact_removes:
  assumes "\<forall>v \<in> set vs. v \<noteq> []" and "w \<in> set vs" and star: "CHR ''*'' \<notin> set w"
  shows "\<not> occurs_in w (redact vs msg)"
  using assms(1,2)
proof (induction vs arbitrary: msg)
  case (Cons v vs)
  show ?case
  proof (cases "w = v")
    case True
    then have "\<not> occurs_in w (if occurs_in v msg then py_replace v MASK msg else msg)"
      using Cons.prems(1) star occurs_in_py_replace [of v w msg] by auto
    with Cons.prems(1) True star show ?thesis by (simp add: redact_keeps_absent)
  qed (use Cons in auto)
qed simp

text \<open>The encodings never produce the mask character.\<close>

lemma char_of_eq_star: "char_of (n :: nat) = CHR ''*'' \<longleftrightarrow> n mod 256 = 42"
proof -
  have "char_of n = CHR ''*'' \<longleftrightarrow> (of_char (char_of n) :: nat) = of_char CHR ''*''"
    by (simp only: of_char_eq_iff)
  then show ?thesis by simp
qed

lemma hex_upper_no_star: "n < 16 \<Longrightarrow> hex_upper n \<noteq> CHR ''*''"
  by (auto simp: hex_upper_def char_of_eq_star)

lemma quote_byte_no_star: "n < 256 \<Longrightarrow> CHR ''*'' \<notin> set (quote_byte n)"
  using hex_upper_no_star [of "n div 16"] hex_upper_no_star [of "n mod 16"]
  by (auto simp: quote_byte_def unreserved_def char_of_eq_star eq_commute [of "CHR ''*''"])

lemma utf8_char_bytes: "b \<in> set (utf8_char c) \<Longrightarrow> b < 256"
proof -
  have "of_char c div 64 < (64 :: nat)" 
    using nat_of_char_less_256 [of c] by (intro less_mult_imp_div_less) linarith
  moreover assume "b \<in> set (utf8_char c)"
  ultimately show ?thesis by (auto simp: utf8_char_def Let_def split: if_splits)
qed

lemma utf8_bytes: "b \<in> set (utf8 s) \<Longrightarrow> b < 256"
  by (auto simp: utf8_def dest: utf8_char_bytes)

lemma quote_no_star: "CHR ''*'' \<notin> set (quote s)"
  by (auto simp: quote_def dest!: utf8_bytes quote_byte_no_star)

lemma b64_char_no_star: "b64_char n \<noteq> CHR ''*''"
  by (auto simp: b64_char_def char_of_eq_star)

lemma b64encode_no_star: "CHR ''*'' \<notin> set (b64encode bs)"
  using b64_char_no_star by (induction bs rule: b64encode.induct) (auto simp: eq_commute [of "CHR ''*''"])

lemma secret_variants_no_star:
  "CHR ''*'' \<notin> set secret \<Longrightarrow> w \<in> set (secret_variants secret) \<Longrightarrow> CHR ''*'' \<notin> set w"
  using quote_no_star b64encode_no_star by (auto simp: secret_variants_def Let_def split: if_splits)

lemma quote_byte_nonempty: "quote_byte n \<noteq> []"
  by (simp add: quote_byte_def)

lemma utf8_nonempty: "s \<noteq> [] \<Longrightarrow> utf8 s \<noteq> []"
  by (cases s) (auto simp: utf8_def utf8_char_def Let_def)

lemma quote_nonempty: "s \<noteq> [] \<Longrightarrow> quote s \<noteq> []"
  by (drule utf8_nonempty) (auto simp: quote_def quote_byte_nonempty neq_Nil_conv)

lemma secret_variants_nonempty: "w \<in> set (secret_variants secret) \<Longrightarrow> w \<noteq> []"
  using quote_nonempty [of secret]
  by (auto simp: secret_variants_def Let_def MIN_REDACTABLE_LENGTH_def split: if_splits)

lemma set_make_redactor: "set (make_redactor secrets) = (\<Union>v \<in> set secrets. set (secret_variants v))"
  by (simp add: make_redactor_def)

lemma redactor_nonempty: "\<forall>v \<in> set (make_redactor secrets). v \<noteq> []"
  using secret_variants_nonempty by (auto simp: set_make_redactor)

lemma secret_variants_long:
  assumes "4 \<le> length secret"
  shows "secret \<in> set (secret_variants secret)" and "quote secret \<in> set (secret_variants secret)"
    and "b64encode (utf8 secret) \<in> set (secret_variants secret)"
proof -
  have ne: "secret \<noteq> []" using assms by auto
  obtain b bs where "utf8 secret = b # bs" using utf8_nonempty [OF ne] by (meson neq_Nil_conv)
  then have "4 \<le> length (b64encode (utf8 secret))" by (cases bs rule: b64encode.cases) auto
  with ne assms show "secret \<in> set (secret_variants secret)" "quote secret \<in> set (secret_variants secret)"
    "b64encode (utf8 secret) \<in> set (secret_variants secret)"
    by (auto simp: secret_variants_def MIN_REDACTABLE_LENGTH_def Let_def)
qed

text \<open>
  C3. Redaction is complete: for a run whose secrets do not contain the mask character, the redacted text
  contains none of the three forms (plain, percent-encoded, Base64) of any secret of four characters or
  more, whatever the text was, although the variants are replaced one after the other and may overlap.
\<close>

theorem redact_hides_secrets:
  assumes "secret \<in> set secrets" and "MIN_REDACTABLE_LENGTH \<le> length secret"
    and "CHR ''*'' \<notin> set secret"
  shows "\<not> occurs_in secret (redact (make_redactor secrets) msg) \<and>
    \<not> occurs_in (quote secret) (redact (make_redactor secrets) msg) \<and>
    \<not> occurs_in (b64encode (utf8 secret)) (redact (make_redactor secrets) msg)"
proof -
  have "\<not> occurs_in w (redact (make_redactor secrets) msg)" if "w \<in> set (secret_variants secret)" for w
    using that assms redactor_nonempty secret_variants_no_star
    by (intro redact_removes) (auto simp: set_make_redactor)
  with secret_variants_long [of secret] assms(2) show ?thesis
    by (auto simp: MIN_REDACTABLE_LENGTH_def)
qed

theorem redact_hides_secrets_witness:
  "\<not> occurs_in ''pa/ss'' (redact (make_redactor [''abcd'', ''pa/ss'']) ''GET /x?k=pa/ss&q=pa%2Fss'')"
proof -
  have "MIN_REDACTABLE_LENGTH \<le> length ''pa/ss''" by (simp add: MIN_REDACTABLE_LENGTH_def)
  then show ?thesis using redact_hides_secrets [of "''pa/ss''" "[''abcd'', ''pa/ss'']"] by simp
qed

lemma redact_obj_strings: "json_strings (redact_obj vs v) = map (redact vs) (json_strings v)"
proof (induction v)
  case (JDict d)
  then have "map (\<lambda>p. json_strings (redact_obj vs (snd p))) d = map (\<lambda>p. map (redact vs) (json_strings (snd p))) d"
    by (auto simp: snds.simps)
  then show ?case by (simp only: redact_obj.simps json_strings.simps map_map map_concat comp_def snd_conv)
next
  case (JList xs)
  then have "map (\<lambda>x. json_strings (redact_obj vs x)) xs = map (\<lambda>x. map (redact vs) (json_strings x)) xs"
    by simp
  then show ?case by (simp only: redact_obj.simps json_strings.simps map_map map_concat comp_def)
qed simp_all

end
