(* ===== verification/Run_Context.thy ===== *)
theory Run_Context
  imports References Redact
begin

text \<open>
  \<open>etl_core/events.py\<close>, \<open>etl_core/context.py\<close> and \<open>etl_core/nodes/base.py\<close>: the per-run log, the options and
  the context of a run, the per-node view through which nodes log and build errors, and the plugin
  interface as a record of the class attributes and methods the engine uses.

  A log is the list of its events (timestamps left out); code that logs returns the events it appends.
  A node class is a \<open>node_cls\<close>: \<open>cls_config_model\<close> is \<open>config_model.model_validate\<close> (the location and
  message pairs of a \<open>ValidationError\<close> on the left), \<open>cls_run\<close> the coroutine \<open>run\<close>, and the last three
  fields are what the engine asks of a fan-out node.
\<close>

section \<open>Events\<close>

datatype log_level = LDebug | LInfo | LWarning | LError

fun level_value :: "log_level \<Rightarrow> string" where
  "level_value LDebug = ''debug''"
| "level_value LInfo = ''info''"
| "level_value LWarning = ''warning''"
| "level_value LError = ''error''"

record log_event =
  le_level :: log_level
  le_node_id :: "string option"
  le_message :: string
  le_data :: "json dict option"

text \<open>\<open>RunLog.log\<close> without data: the event it appends and hands to \<open>on_event\<close>.\<close>

definition log_msg :: "log_level \<Rightarrow> string option \<Rightarrow> string \<Rightarrow> log_event" where
  "log_msg level node_id message =
     \<lparr>le_level = level, le_node_id = node_id, le_message = message, le_data = None\<rparr>"

section \<open>Options and contexts\<close>

record ssrf_policy =
  sp_enabled :: bool
  sp_allow_hosts :: "string list"

record file_policy =
  fp_allowed_dirs :: "string list"

record exec_options =
  eo_max_concurrency :: nat
  eo_continue_on_error :: bool
  eo_ssrf_policy :: ssrf_policy
  eo_file_policy :: file_policy

definition default_options :: exec_options where
  "default_options =
     \<lparr>eo_max_concurrency = 8, eo_continue_on_error = False,
      eo_ssrf_policy = \<lparr>sp_enabled = True, sp_allow_hosts = []\<rparr>,
      eo_file_policy = \<lparr>fp_allowed_dirs = []\<rparr>\<rparr>"

record run_ctx =
  rc_secrets :: "string dict"
  rc_options :: exec_options
  rc_redactor :: "string list"

record node_ctx =
  nc_run :: run_ctx
  nc_node_id :: string
  nc_node_type :: string
  nc_iter :: "iter_context option"

abbreviation nc_redactor :: "node_ctx \<Rightarrow> string list" where
  "nc_redactor ctx \<equiv> rc_redactor (nc_run ctx)"

section \<open>NodeContext\<close>

definition redact_dict :: "string list \<Rightarrow> json dict \<Rightarrow> json dict" where
  "redact_dict vs d = map (\<lambda>p. (fst p, redact_obj vs (snd p))) d"

definition redact_opt_dict :: "string list \<Rightarrow> json dict option \<Rightarrow> json dict option" where
  "redact_opt_dict vs d =
     (case d of None \<Rightarrow> None | Some d \<Rightarrow> if d = [] then None else Some (redact_dict vs d))"

definition ctx_log :: "node_ctx \<Rightarrow> log_level \<Rightarrow> string \<Rightarrow> json dict option \<Rightarrow> log_event" where
  "ctx_log ctx level message data =
     \<lparr>le_level = level, le_node_id = Some (nc_node_id ctx), le_message = redact (nc_redactor ctx) message,
      le_data = redact_opt_dict (nc_redactor ctx) data\<rparr>"

definition ctx_error :: "node_ctx \<Rightarrow> error_category \<Rightarrow> string \<Rightarrow> int option \<Rightarrow> string option \<Rightarrow> nat \<Rightarrow>
    json dict option \<Rightarrow> exn" where
  "ctx_error ctx category message http_status request_summary attempts details =
     NodeExecutionError
       \<lparr>ne_node_id = nc_node_id ctx, ne_node_type = nc_node_type ctx, ne_category = category,
        ne_message = redact (nc_redactor ctx) message, ne_http_status = http_status,
        ne_request_summary =
          (case request_summary of
             None \<Rightarrow> None
           | Some s \<Rightarrow> if s = [] then None else Some (redact (nc_redactor ctx) s)),
        ne_attempts = attempts, ne_details = redact_opt_dict (nc_redactor ctx) details\<rparr>"

text \<open>\<open>ctx.error(category, message)\<close> with every keyword at its default.\<close>

abbreviation ctx_err :: "node_ctx \<Rightarrow> error_category \<Rightarrow> string \<Rightarrow> exn" where
  "ctx_err ctx category message \<equiv> ctx_error ctx category message None None 1 None"

definition get_secret :: "node_ctx \<Rightarrow> string \<Rightarrow> exn + string" where
  "get_secret ctx ref =
     (case dict_get (rc_secrets (nc_run ctx)) ref of
        Some v \<Rightarrow> Inr v
      | None \<Rightarrow> Inl (ctx_err ctx CONFIG (''secret '' @ repr_str ref @ '' was not provided to this run'')))"

section \<open>The plugin interface\<close>

type_synonym node_inputs = "records list dict"
type_synonym node_outputs = "records dict"
type_synonym config_errors = "(string list \<times> string) list"
type_synonym 'a logged = "(exn + 'a) \<times> log_event list"

record 'c node_cls =
  cls_name :: string
  cls_config_model :: "json dict \<Rightarrow> config_errors + 'c"
  cls_input_ports :: "string list"
  cls_output_ports :: "string list"
  cls_allow_multi_input :: bool
  cls_fan_out :: bool
  cls_required_input_ports :: "'c \<Rightarrow> string list"
  cls_check_spec :: "'c \<Rightarrow> nat dict \<Rightarrow> string list"
  cls_run :: "'c \<Rightarrow> node_inputs \<Rightarrow> node_ctx \<Rightarrow> node_outputs logged"
  cls_get_values :: "'c \<Rightarrow> node_inputs \<Rightarrow> node_ctx \<Rightarrow> json list logged"
  cls_fan_in :: "'c \<Rightarrow> string"
  cls_max_concurrency :: "'c \<Rightarrow> nat option"

text \<open>\<open>NODE_REGISTRY\<close>, and \<open>register_node\<close> with its two \<open>ValueError\<close>s.\<close>

type_synonym 'c registry = "(string \<times> 'c node_cls) list"

definition register_node :: "('c node_cls \<Rightarrow> 'c node_cls \<Rightarrow> bool) \<Rightarrow> string \<Rightarrow> 'c node_cls \<Rightarrow> 'c registry \<Rightarrow>
    exn + 'c registry" where
  "register_node same_class tname cls reg =
     (if tname = [] then Inl (ValueError (cls_name cls @ '' must define a type_name''))
      else (case dict_get reg tname of
          Some existing \<Rightarrow>
            if same_class existing cls then Inr (dict_set tname cls reg)
            else Inl (ValueError (''node type '' @ repr_str tname @ '' is already registered by '' @
                        cls_name existing))
        | None \<Rightarrow> Inr (dict_set tname cls reg)))"

lemma register_node_get:
  "register_node same t cls reg = Inr reg' \<Longrightarrow>
     dict_get reg' t = Some cls \<and> (\<forall>u. u \<noteq> t \<longrightarrow> dict_get reg' u = dict_get reg u)"
  by (auto simp: register_node_def split: if_splits option.splits)

section \<open>Errors and log events carry no secret\<close>

text \<open>The texts of an error or an event that are shown to users.\<close>

definition error_texts :: "node_error \<Rightarrow> string list" where
  "error_texts e =
     ne_message e # (case ne_request_summary e of None \<Rightarrow> [] | Some s \<Rightarrow> [s])
     @ (case ne_details e of None \<Rightarrow> [] | Some d \<Rightarrow> json_strings (JDict d))"

definition event_texts :: "log_event \<Rightarrow> string list" where
  "event_texts ev = le_message ev # (case le_data ev of None \<Rightarrow> [] | Some d \<Rightarrow> json_strings (JDict d))"

lemma redact_dict_strings: "json_strings (JDict (redact_dict vs d)) = map (redact vs) (json_strings (JDict d))"
  using redact_obj_strings [of vs "JDict d"] by (simp add: redact_dict_def)

lemma ctx_error_texts:
  "ctx_error ctx cat msg st rs att det = NodeExecutionError e \<Longrightarrow>
     t \<in> set (error_texts e) \<Longrightarrow> \<exists>u. t = redact (nc_redactor ctx) u"
  by (auto simp: ctx_error_def error_texts_def redact_opt_dict_def redact_dict_strings
      simp del: json_strings.simps split: option.splits if_splits)

lemma ctx_log_texts: "t \<in> set (event_texts (ctx_log ctx lv msg data)) \<Longrightarrow> \<exists>u. t = redact (nc_redactor ctx) u"
  by (auto simp: ctx_log_def event_texts_def redact_opt_dict_def redact_dict_strings
      simp del: json_strings.simps split: option.splits if_splits)


definition demo_ctx :: node_ctx where
  "demo_ctx =
     \<lparr>nc_run = \<lparr>rc_secrets = [(''TOKEN'', ''s3cret'')], rc_options = default_options,
        rc_redactor = make_redactor [''s3cret'']\<rparr>,
      nc_node_id = ''posts'', nc_node_type = ''api_source'', nc_iter = None\<rparr>"


end
