(* ===== verification/Ip_Address.thy ===== *)
theory Ip_Address
  imports Prelude "HOL-Library.Word"
begin

text \<open>
  The part of Python's \<open>ipaddress\<close> module that \<open>etl_core/ssrf.py\<close> uses: parsing of addresses and networks,
  membership, and the classification flags, with addresses as 32-bit and 128-bit words.

  The tables are those of CPython 3.12 (patch level 4 and later). A scope identifier of an IPv6 address is
  checked and dropped: neither membership nor the flags look at it. A \<open>ValueError\<close> of the module is \<^const>\<open>None\<close>.
\<close>

unbundle bit_operations_syntax

datatype ip_addr = V4 "32 word" | V6 "128 word"
datatype ip_net = N4 "32 word" nat | N6 "128 word" nat

section \<open>Parsing and printing\<close>

definition parse_octet :: "string \<Rightarrow> nat option" where
  "parse_octet s =
     (if s \<noteq> [] \<and> list_all is_ascii_digit s \<and> length s \<le> 3 \<and> (s = ''0'' \<or> hd s \<noteq> CHR ''0'') \<and> digits_val s \<le> 255
      then Some (digits_val s) else None)"

definition octets_word :: "nat \<Rightarrow> nat \<Rightarrow> nat \<Rightarrow> nat \<Rightarrow> 32 word" where
  "octets_word a b c d = of_int (((int a * 256 + int b) * 256 + int c) * 256 + int d)"

definition parse_v4 :: "string \<Rightarrow> (32 word) option" where
  "parse_v4 s =
     (case map parse_octet (split_on CHR ''.'' s) of
        [Some a, Some b, Some c, Some d] \<Rightarrow> Some (octets_word a b c d)
      | _ \<Rightarrow> None)"

definition octet :: "nat \<Rightarrow> 32 word \<Rightarrow> nat" where
  "octet k w = nat (uint (drop_bit (8 * k) w) mod 256)"

definition print_v4 :: "32 word \<Rightarrow> string" where
  "print_v4 w = join_with ''.'' (map (\<lambda>k. nat_str (octet k w)) [3, 2, 1, 0])"

definition hex_val :: "char \<Rightarrow> int option" where
  "hex_val c = (let n = of_char c :: int in
     if 48 \<le> n \<and> n \<le> 57 then Some (n - 48) else if 97 \<le> n \<and> n \<le> 102 then Some (n - 87)
     else if 65 \<le> n \<and> n \<le> 70 then Some (n - 55) else None)"

definition parse_hextet :: "string \<Rightarrow> int option" where
  "parse_hextet s =
     (if s \<noteq> [] \<and> length s \<le> 4 \<and> list_all (\<lambda>c. hex_val c \<noteq> None) s
      then Some (foldl (\<lambda>n c. 16 * n + the (hex_val c)) 0 s) else None)"

text \<open>\<open>'%x' % n\<close> for one half of an embedded IPv4 address.\<close>

function hex_str :: "int \<Rightarrow> string" where
  "hex_str n = (if n < 16 then [hex_char (nat n)] else hex_str (n div 16) @ [hex_char (nat (n mod 16))])"
  by pat_completeness auto
termination by (relation "measure nat") auto

declare hex_str.simps [simp del]

text \<open>A trailing dotted quad becomes two hextets.\<close>

definition expand_v4_tail :: "string list \<Rightarrow> string list option" where
  "expand_v4_tail parts =
     (if CHR ''.'' \<in> set (last parts) then
        map_option (\<lambda>w. butlast parts @ [hex_str (uint w div 65536), hex_str (uint w mod 65536)])
          (parse_v4 (last parts))
      else Some parts)"

text \<open>The positions of empty parts, first and last excluded: a \<open>::\<close> is one of them.\<close>

definition skip_positions :: "string list \<Rightarrow> nat list" where
  "skip_positions parts = filter (\<lambda>i. parts ! i = []) [1..<length parts - 1]"

text \<open>How many parts stand before and after the \<open>::\<close>, or eight and none without it.\<close>

definition v6_layout :: "string list \<Rightarrow> (nat \<times> nat) option" where
  "v6_layout parts =
     (case skip_positions parts of
        [] \<Rightarrow> if length parts = 8 \<and> hd parts \<noteq> [] \<and> last parts \<noteq> [] then Some (8, 0) else None
      | [i] \<Rightarrow>
          (let hi = (if hd parts = [] then i - 1 else i);
               lo = length parts - i - 1;
               lo' = (if last parts = [] then lo - 1 else lo)
           in if (hd parts = [] \<and> hi \<noteq> 0) \<or> (last parts = [] \<and> lo' \<noteq> 0) \<or> hi + lo' \<ge> 8 then None
              else Some (hi, lo'))
      | _ \<Rightarrow> None)"

definition join_hextets :: "int list \<Rightarrow> 128 word" where
  "join_hextets hs = foldl (\<lambda>w h. push_bit 16 w OR of_int h) 0 hs"

fun all_some :: "'a option list \<Rightarrow> 'a list option" where
  "all_some [] = Some []"
| "all_some (None # xs) = None"
| "all_some (Some x # xs) = map_option (Cons x) (all_some xs)"

definition parse_v6_bare :: "string \<Rightarrow> (128 word) option" where
  "parse_v6_bare s =
     (let parts0 = split_on CHR '':'' s
      in if length parts0 < 3 then None
         else case expand_v4_tail parts0 of
             None \<Rightarrow> None
           | Some parts \<Rightarrow>
               if length parts > 9 then None
               else case v6_layout parts of
                   None \<Rightarrow> None
                 | Some (hi, lo) \<Rightarrow>
                     (case (all_some (map parse_hextet (take hi parts)),
                            all_some (map parse_hextet (drop (length parts - lo) parts))) of
                        (Some his, Some los) \<Rightarrow>
                          Some (join_hextets (his @ replicate (8 - (hi + lo)) 0 @ los))
                      | _ \<Rightarrow> None))"

text \<open>\<open>s.partition(c)\<close>\<close>

definition partition_at :: "char \<Rightarrow> string \<Rightarrow> string \<times> bool \<times> string" where
  "partition_at c s =
     (case dropWhile (\<lambda>x. x \<noteq> c) s of
        [] \<Rightarrow> (s, False, [])
      | _ # rest \<Rightarrow> (takeWhile (\<lambda>x. x \<noteq> c) s, True, rest))"

definition parse_v6 :: "string \<Rightarrow> (128 word) option" where
  "parse_v6 s =
     (if CHR ''/'' \<in> set s then None
      else case partition_at CHR ''%'' s of
          (addr, sep, scope) \<Rightarrow>
            if sep \<and> (scope = [] \<or> CHR ''%'' \<in> set scope) then None else parse_v6_bare addr)"

definition ip_address :: "string \<Rightarrow> ip_addr option" where
  "ip_address s =
     (case parse_v4 s of
        Some w \<Rightarrow> Some (V4 w)
      | None \<Rightarrow> map_option V6 (parse_v6 s))"

section \<open>Networks\<close>

definition netmask :: "nat \<Rightarrow> nat \<Rightarrow> 'w::len word" where
  "netmask width n = NOT (mask (width - n))"

definition mk_net :: "ip_addr \<Rightarrow> nat \<Rightarrow> ip_net" where
  "mk_net a n = (case a of V4 w \<Rightarrow> N4 (w AND netmask 32 n) n | V6 w \<Rightarrow> N6 (w AND netmask 128 n) n)"

text \<open>\<open>address in network\<close>\<close>

fun in_net :: "ip_addr \<Rightarrow> ip_net \<Rightarrow> bool" where
  "in_net (V4 w) (N4 a n) \<longleftrightarrow> w AND netmask 32 n = a"
| "in_net (V6 w) (N6 a n) \<longleftrightarrow> w AND netmask 128 n = a"
| "in_net _ _ \<longleftrightarrow> False"

definition prefix_of_string :: "nat \<Rightarrow> string \<Rightarrow> nat option" where
  "prefix_of_string width s =
     (if s \<noteq> [] \<and> list_all is_ascii_digit s \<and> digits_val s \<le> width then Some (digits_val s) else None)"

text \<open>An IPv4 prefix may be a number, a netmask or a host mask.\<close>

definition prefix_v4 :: "string \<Rightarrow> nat option" where
  "prefix_v4 s =
     (case prefix_of_string 32 s of
        Some n \<Rightarrow> Some n
      | None \<Rightarrow>
          (case parse_v4 s of
             None \<Rightarrow> None
           | Some w \<Rightarrow>
               (case find (\<lambda>n. netmask 32 n = w) [0..<33] of
                  Some n \<Rightarrow> Some n
                | None \<Rightarrow> find (\<lambda>n. netmask 32 n = NOT w) [0..<33])))"

text \<open>\<open>ip_network(text, strict=False)\<close>\<close>

definition ip_network :: "string \<Rightarrow> ip_net option" where
  "ip_network s =
     (case split_on CHR ''/'' s of
        [addr] \<Rightarrow> map_option (\<lambda>a. mk_net a (case a of V4 w \<Rightarrow> 32 | V6 w \<Rightarrow> 128)) (ip_address addr)
      | [addr, pre] \<Rightarrow>
          (case ip_address addr of
             None \<Rightarrow> None
           | Some (V4 w) \<Rightarrow> map_option (mk_net (V4 w)) (prefix_v4 pre)
           | Some (V6 w) \<Rightarrow> map_option (mk_net (V6 w)) (prefix_of_string 128 pre))
      | _ \<Rightarrow> None)"

text \<open>\<open>ip_network(address)\<close>: the network of this one address.\<close>

definition host_net :: "ip_addr \<Rightarrow> ip_net" where
  "host_net a = mk_net a (case a of V4 w \<Rightarrow> 32 | V6 w \<Rightarrow> 128)"

section \<open>Classification\<close>

definition net4 :: "nat \<Rightarrow> nat \<Rightarrow> nat \<Rightarrow> nat \<Rightarrow> nat \<Rightarrow> ip_net" where
  "net4 a b c d n = mk_net (V4 (octets_word a b c d)) n"

definition net6 :: "int list \<Rightarrow> nat \<Rightarrow> ip_net" where
  "net6 hs n = mk_net (V6 (join_hextets (take 8 (hs @ replicate 8 0)))) n"

definition private4 :: "ip_net list" where
  "private4 = [net4 0 0 0 0 8, net4 10 0 0 0 8, net4 127 0 0 0 8, net4 169 254 0 0 16, net4 172 16 0 0 12,
     net4 192 0 0 0 24, net4 192 0 0 170 31, net4 192 0 2 0 24, net4 192 168 0 0 16, net4 198 18 0 0 15,
     net4 198 51 100 0 24, net4 203 0 113 0 24, net4 240 0 0 0 4, net4 255 255 255 255 32]"

definition private4_exceptions :: "ip_net list" where
  "private4_exceptions = [net4 192 0 0 9 32, net4 192 0 0 10 32]"

definition private6 :: "ip_net list" where
  "private6 = [net6 [0, 0, 0, 0, 0, 0, 0, 1] 128, net6 [] 128, net6 [0, 0, 0, 0, 0, 65535] 96,
     net6 [0x64, 0xff9b, 1] 48, net6 [0x100] 64, net6 [0x2001] 23, net6 [0x2001, 0xdb8] 32, net6 [0x2002] 16,
     net6 [0xfc00] 7, net6 [0xfe80] 10]"

definition private6_exceptions :: "ip_net list" where
  "private6_exceptions = [net6 [0x2001, 1, 0, 0, 0, 0, 0, 1] 128, net6 [0x2001, 1, 0, 0, 0, 0, 0, 2] 128,
     net6 [0x2001, 3] 32, net6 [0x2001, 4, 0x112] 48, net6 [0x2001, 0x20] 28, net6 [0x2001, 0x30] 28]"

definition reserved6 :: "ip_net list" where
  "reserved6 = [net6 [] 8, net6 [0x100] 8, net6 [0x200] 7, net6 [0x400] 6, net6 [0x800] 5, net6 [0x1000] 4,
     net6 [0x4000] 3, net6 [0x6000] 3, net6 [0x8000] 3, net6 [0xa000] 3, net6 [0xc000] 3, net6 [0xe000] 4,
     net6 [0xf000] 5, net6 [0xf800] 6, net6 [0xfe00] 9]"

text \<open>\<open>IPv6Address.ipv4_mapped\<close>\<close>

fun ipv4_mapped :: "ip_addr \<Rightarrow> ip_addr option" where
  "ipv4_mapped (V4 w) = None"
| "ipv4_mapped (V6 w) = (if drop_bit 32 w = 0xffff then Some (V4 (ucast w)) else None)"

fun is_private :: "ip_addr \<Rightarrow> bool" where
  "is_private (V4 w) \<longleftrightarrow> list_ex (in_net (V4 w)) private4 \<and> \<not> list_ex (in_net (V4 w)) private4_exceptions"
| "is_private (V6 w) \<longleftrightarrow> list_ex (in_net (V6 w)) private6 \<and> \<not> list_ex (in_net (V6 w)) private6_exceptions"

fun is_loopback :: "ip_addr \<Rightarrow> bool" where
  "is_loopback (V4 w) \<longleftrightarrow> in_net (V4 w) (net4 127 0 0 0 8)"
| "is_loopback (V6 w) \<longleftrightarrow> w = 1"

fun is_link_local :: "ip_addr \<Rightarrow> bool" where
  "is_link_local (V4 w) \<longleftrightarrow> in_net (V4 w) (net4 169 254 0 0 16)"
| "is_link_local (V6 w) \<longleftrightarrow> in_net (V6 w) (net6 [0xfe80] 10)"

fun is_multicast :: "ip_addr \<Rightarrow> bool" where
  "is_multicast (V4 w) \<longleftrightarrow> in_net (V4 w) (net4 224 0 0 0 4)"
| "is_multicast (V6 w) \<longleftrightarrow> in_net (V6 w) (net6 [0xff00] 8)"

fun is_reserved :: "ip_addr \<Rightarrow> bool" where
  "is_reserved (V4 w) \<longleftrightarrow> in_net (V4 w) (net4 240 0 0 0 4)"
| "is_reserved (V6 w) \<longleftrightarrow> list_ex (in_net (V6 w)) reserved6"

fun is_unspecified :: "ip_addr \<Rightarrow> bool" where
  "is_unspecified (V4 w) \<longleftrightarrow> w = 0"
| "is_unspecified (V6 w) \<longleftrightarrow> w = 0"

section \<open>Words and octets\<close>

lemma uint_drop_bit_div: "uint (drop_bit k (v :: 'w::len word)) = uint v div 2 ^ k"
proof -
  have "take_bit LENGTH('w) (uint v) = uint v" using uint_lt2p [of v] by (intro take_bit_int_eq_self) simp_all
  then show ?thesis by (simp only: unsigned_drop_bit_eq) (simp only: drop_bit_eq_div)
qed

lemma and_netmask_eq_iff:
  fixes w a :: "'w::len word"
  shows "w AND NOT (mask k) = a AND NOT (mask k) \<longleftrightarrow> uint w div 2 ^ k = uint a div 2 ^ k"
proof -
  have "w AND NOT (mask k) = a AND NOT (mask k) \<longleftrightarrow> drop_bit k w = drop_bit k a"
  proof
    assume eq: "w AND NOT (mask k) = a AND NOT (mask k)"
    have high: "bit v (k + i) \<longleftrightarrow> bit (v AND NOT (mask k)) (k + i)" for v :: "'w word" and i
      using bit_imp_le_length [of v "k + i"] by (auto simp: bit_and_iff bit_not_iff bit_mask_iff)
    show "drop_bit k w = drop_bit k a"
      using high [of w] high [of a] eq by (intro bit_word_eqI) (simp add: bit_drop_bit_eq)
  next
    assume eq: "drop_bit k w = drop_bit k a"
    show "w AND NOT (mask k) = a AND NOT (mask k)"
    proof (rule bit_word_eqI)
      fix i assume "i < LENGTH('w)"
      show "bit (w AND NOT (mask k)) i \<longleftrightarrow> bit (a AND NOT (mask k)) i"
      proof (cases "i < k")
        case False
        then have "bit w i = bit (drop_bit k w) (i - k)" "bit a i = bit (drop_bit k a) (i - k)"
          by (simp_all add: bit_drop_bit_eq)
        with eq show ?thesis by (simp add: bit_and_iff bit_not_iff)
      qed (simp add: bit_and_iff bit_not_iff bit_mask_iff)
    qed
  qed
  also have "\<dots> \<longleftrightarrow> uint (drop_bit k w) = uint (drop_bit k a)" by (simp add: word_uint_eq_iff)
  finally show ?thesis by (simp add: uint_drop_bit_div)
qed

lemma in_mk_net:
  "in_net (V4 w) (mk_net (V4 a) n) \<longleftrightarrow> uint w div 2 ^ (32 - n) = uint a div 2 ^ (32 - n)"
  "in_net (V6 v) (mk_net (V6 b) n) \<longleftrightarrow> uint v div 2 ^ (128 - n) = uint b div 2 ^ (128 - n)"
  by (simp_all add: mk_net_def netmask_def and_netmask_eq_iff)

lemma uint_octets_word:
  "a < 256 \<Longrightarrow> b < 256 \<Longrightarrow> c < 256 \<Longrightarrow> d < 256 \<Longrightarrow>
     uint (octets_word a b c d) = ((int a * 256 + int b) * 256 + int c) * 256 + int d"
  unfolding octets_word_def by (subst word_of_int_inverse) auto

lemma horner_div_mod:
  fixes x y :: int
  assumes "0 \<le> y" and "y < 256"
  shows "(x * 256 + y) div 256 = x" and "(x * 256 + y) mod 256 = y"
  using assms by auto

lemma div_pow_256: "(x :: int) div 65536 = x div 256 div 256" "x div 16777216 = x div 256 div 256 div 256"
  by (simp_all add: zdiv_zmult2_eq [symmetric])

lemma octet_octets_word:
  assumes "a < 256" "b < 256" "c < 256" "d < 256"
  shows "octet 3 (octets_word a b c d) = a" "octet 2 (octets_word a b c d) = b"
    "octet 1 (octets_word a b c d) = c" "octet 0 (octets_word a b c d) = d"
proof -
  have "0 \<le> int x" "int x < 256" if "x < 256" for x using that by simp_all
  note h = horner_div_mod [OF this]
  show "octet 3 (octets_word a b c d) = a" "octet 2 (octets_word a b c d) = b"
    "octet 1 (octets_word a b c d) = c" "octet 0 (octets_word a b c d) = d"
    using assms by (simp_all only: octet_def uint_drop_bit_div uint_octets_word [OF assms]) 
      (simp_all del: distrib_right_numeral add: div_pow_256 h)
qed

lemma recombine_256:
  assumes "(x :: int) div 16777216 mod 256 = x div 256 div 256 div 256"
  shows "((x div 16777216 mod 256 * 256 + x div 65536 mod 256) * 256 + x div 256 mod 256) * 256 + x mod 256 = x"
  unfolding assms div_pow_256(1) by (simp only: div_mult_mod_eq)

lemma octets_word_octet: "octets_word (octet 3 w) (octet 2 w) (octet 1 w) (octet 0 w) = w"
proof -
  have lt: "octet k w < 256" for k by (simp add: octet_def)
  define x where "x = uint w"
  have x: "0 \<le> x" "x < 2 ^ 32" using uint_lt2p [of w] by (simp_all add: x_def)
  have o: "int (octet 0 w) = x mod 256" "int (octet 1 w) = x div 256 mod 256" "int (octet 2 w) = x div 65536 mod 256"
    "int (octet 3 w) = x div 16777216 mod 256"
    by (simp_all add: octet_def uint_drop_bit_div x_def)
  have "x div 16777216 mod 256 = x div 256 div 256 div 256"
    using x unfolding div_pow_256 by (intro mod_pos_pos_trivial) auto
  note recombine = recombine_256 [OF this]
  have "uint (octets_word (octet 3 w) (octet 2 w) (octet 1 w) (octet 0 w)) = uint w"
    unfolding uint_octets_word [OF lt lt lt lt] o using recombine by (simp only: x_def)
  then show ?thesis by (simp add: word_uint_eq_iff)
qed

lemma div_horner:
  fixes x y :: int
  assumes "0 \<le> y" and "y < 256"
  shows "(x * 256 + y) div 2 = x * 128 + y div 2" "(x * 256 + y) div 16 = x * 16 + y div 16"
    "(x * 256 + y) div 64 = x * 4 + y div 64"
  using assms by auto

lemma in_net4:
  assumes "a < 256" "b < 256" "c < 256" "d < 256" and "a' < 256" "b' < 256" "c' < 256" "d' < 256"
  shows "in_net (V4 (octets_word a b c d)) (net4 a' b' c' d' 4) \<longleftrightarrow> a div 16 = a' div 16"
    and "in_net (V4 (octets_word a b c d)) (net4 a' b' c' d' 8) \<longleftrightarrow> a = a'"
    and "in_net (V4 (octets_word a b c d)) (net4 a' b' c' d' 10) \<longleftrightarrow> a = a' \<and> b div 64 = b' div 64"
    and "in_net (V4 (octets_word a b c d)) (net4 a' b' c' d' 12) \<longleftrightarrow> a = a' \<and> b div 16 = b' div 16"
    and "in_net (V4 (octets_word a b c d)) (net4 a' b' c' d' 15) \<longleftrightarrow> a = a' \<and> b div 2 = b' div 2"
    and "in_net (V4 (octets_word a b c d)) (net4 a' b' c' d' 16) \<longleftrightarrow> a = a' \<and> b = b'"
    and "in_net (V4 (octets_word a b c d)) (net4 a' b' c' d' 24) \<longleftrightarrow> a = a' \<and> b = b' \<and> c = c'"
    and "in_net (V4 (octets_word a b c d)) (net4 a' b' c' d' 31) \<longleftrightarrow> a = a' \<and> b = b' \<and> c = c' \<and> d div 2 = d' div 2"
    and "in_net (V4 (octets_word a b c d)) (net4 a' b' c' d' 32) \<longleftrightarrow> a = a' \<and> b = b' \<and> c = c' \<and> d = d'"
proof -
  define x x' where x: "x = ((int a * 256 + int b) * 256 + int c) * 256 + int d"
    "x' = ((int a' * 256 + int b') * 256 + int c') * 256 + int d'"
  have net: "in_net (V4 (octets_word a b c d)) (net4 a' b' c' d' n) \<longleftrightarrow> x div 2 ^ (32 - n) = x' div 2 ^ (32 - n)" for n
    unfolding net4_def in_mk_net x by (simp only: uint_octets_word assms)
  have i: "0 \<le> int k" "int k < 256" if "k < 256" for k using that by simp_all
  note h = horner_div_mod(1) [OF i] div_horner [OF i]
  have quot: "x div 256 = (int a * 256 + int b) * 256 + int c" "x' div 256 = (int a' * 256 + int b') * 256 + int c'"
    "x div 256 div 256 = int a * 256 + int b" "x' div 256 div 256 = int a' * 256 + int b'"
    "x div 256 div 256 div 256 = int a" "x' div 256 div 256 div 256 = int a'"
    using assms by (simp_all only: x h)
  have pow: "y div 131072 = y div 256 div 256 div 2" "y div 1048576 = y div 256 div 256 div 16"
    "y div 4194304 = y div 256 div 256 div 64" "y div 268435456 = y div 256 div 256 div 256 div 16" for y :: int
    by (simp_all add: zdiv_zmult2_eq [symmetric])
  have inj: "y * k + int u = y' * k + int u' \<longleftrightarrow> y = y' \<and> u = u'" if "int u < k" "int u' < k" for y y' k :: int and u u'
  proof
    assume eq: "y * k + int u = y' * k + int u'"
    have "y = (y * k + int u) div k" "y' = (y' * k + int u') div k" using that by (simp_all add: div_pos_pos_trivial)
    with eq have "y = y'" by simp
    with eq show "y = y' \<and> u = u'" by simp
  qed simp
  have dv: "int (u div 16) < 16" "int (u div 2) < 128" "int (u div 64) < 4" "int u < 256" if "u < 256" for u
    using that by auto
  have zd: "int u div 2 = int (u div 2)" "int u div 16 = int (u div 16)" "int u div 64 = int (u div 64)" for u
    by (simp_all add: zdiv_int)
  show "in_net (V4 (octets_word a b c d)) (net4 a' b' c' d' 8) \<longleftrightarrow> a = a'"
    unfolding net by (simp add: div_pow_256 quot(5,6))
  show "in_net (V4 (octets_word a b c d)) (net4 a' b' c' d' 4) \<longleftrightarrow> a div 16 = a' div 16"
    unfolding net by (simp add: pow quot(5,6) zd del: of_nat_div)
  show "in_net (V4 (octets_word a b c d)) (net4 a' b' c' d' 10) \<longleftrightarrow> a = a' \<and> b div 64 = b' div 64"
    unfolding net using assms dv by (simp add: pow div_pow_256 quot(3,4) h inj zd del: of_nat_div)
  show "in_net (V4 (octets_word a b c d)) (net4 a' b' c' d' 12) \<longleftrightarrow> a = a' \<and> b div 16 = b' div 16"
    unfolding net using assms dv by (simp add: pow div_pow_256 quot(3,4) h inj zd del: of_nat_div)
  show "in_net (V4 (octets_word a b c d)) (net4 a' b' c' d' 15) \<longleftrightarrow> a = a' \<and> b div 2 = b' div 2"
    unfolding net using assms dv by (simp add: pow div_pow_256 quot(3,4) h inj zd del: of_nat_div)
  show "in_net (V4 (octets_word a b c d)) (net4 a' b' c' d' 16) \<longleftrightarrow> a = a' \<and> b = b'"
    unfolding net using assms dv by (simp add: pow div_pow_256 quot(3,4) h inj zd del: of_nat_div)
  show "in_net (V4 (octets_word a b c d)) (net4 a' b' c' d' 24) \<longleftrightarrow> a = a' \<and> b = b' \<and> c = c'"
    unfolding net using assms dv by (simp add: pow div_pow_256 quot(1,2) inj del: distrib_right_numeral)
  show "in_net (V4 (octets_word a b c d)) (net4 a' b' c' d' 32) \<longleftrightarrow> a = a' \<and> b = b' \<and> c = c' \<and> d = d'"
    unfolding net using assms dv by (simp add: x inj del: distrib_right_numeral)
  show "in_net (V4 (octets_word a b c d)) (net4 a' b' c' d' 31) \<longleftrightarrow> a = a' \<and> b = b' \<and> c = c' \<and> d div 2 = d' div 2"
    unfolding net using assms dv by (simp add: x h inj zd del: of_nat_div distrib_right_numeral)
qed
lemma digit_char_simps:
  "is_ascii_digit (digit_char n)" "digit_val (digit_char n) = n mod 10" "digit_char n = CHR ''0'' \<longleftrightarrow> n mod 10 = 0"
  "digit_char n \<noteq> CHR ''.''"
proof -
  have val: "of_char (digit_char n) = 48 + n mod 10" unfolding digit_char_def by (subst of_char_of) simp
  then show "is_ascii_digit (digit_char n)" "digit_val (digit_char n) = n mod 10"
    by (simp_all add: is_ascii_digit_def digit_val_def)
  have "digit_char n = c \<longleftrightarrow> of_char (digit_char n) = (of_char c :: nat)" for c by simp
  then show "digit_char n = CHR ''0'' \<longleftrightarrow> n mod 10 = 0" "digit_char n \<noteq> CHR ''.''" by (simp_all add: val)
qed

lemma parse_print_octet:
  assumes "n < 256"
  shows "parse_octet (nat_str n) = Some n" and "CHR ''.'' \<notin> set (nat_str n)"
proof -
  have s: "nat_str n = (if n < 10 then [digit_char n] else if n < 100 then [digit_char (n div 10), digit_char (n mod 10)]
      else [digit_char (n div 100), digit_char (n div 10 mod 10), digit_char (n mod 10)])"
  proof -
    have "n div 10 < 10 \<longleftrightarrow> n < 100" "n div 10 div 10 = n div 100" "n div 100 < 10" using assms by auto
    then show ?thesis
      by (simp add: nat_str.simps [of n] nat_str.simps [of "n div 10"] nat_str.simps [of "n div 100"])
  qed
  have val: "100 * (n div 100) + 10 * (n div 10 mod 10) + n mod 10 = n"
  proof -
    have "n div 100 = n div 10 div 10" by (simp add: div_mult2_eq [symmetric])
    then show ?thesis using div_mult_mod_eq [of n 10] div_mult_mod_eq [of "n div 10" 10] by linarith
  qed
  show "parse_octet (nat_str n) = Some n" "CHR ''.'' \<notin> set (nat_str n)"
    using assms unfolding s
    by (auto simp: parse_octet_def digits_val_def digit_char_simps digit_char_simps(4) [symmetric] val)
qed

lemma parse_v4_print_v4: "parse_v4 (print_v4 w) = Some w"
proof -
  have lt: "octet k w < 256" for k by (simp add: octet_def)
  show ?thesis
    using octets_word_octet [of w] parse_print_octet [OF lt]
    by (simp add: parse_v4_def print_v4_def split_on_append split_on_single)
qed

end
