(* ===== verification/Url.thy ===== *)
theory Url
  imports Ip_Address Errors Redact
begin

text \<open>
  The part of \<open>urllib.parse\<close> the sources use (CPython 3.12.6 and later), and \<open>Redactor.redact_url\<close> and
  \<open>request_summary\<close> of \<open>etl_core/redact.py\<close>, which rest on it.

  Characters have code points below 256, so the NFKC check of \<open>urlsplit\<close> on the authority never fails: no
  such character normalises to one of \<open>/?#@:\<close>. Decoding percent escapes can give characters outside this
  range, so \<open>bytes.decode("utf-8", "replace")\<close> is the parameter \<open>dec\<close>.
\<close>

section \<open>urlsplit\<close>

record url_parts =
  up_scheme :: string
  up_netloc :: string
  up_path :: string
  up_query :: string
  up_fragment :: string

definition char_code :: "char \<Rightarrow> nat" where
  "char_code c = of_char c"

definition ascii_alpha :: "char \<Rightarrow> bool" where
  "ascii_alpha c \<longleftrightarrow> (65 \<le> char_code c \<and> char_code c \<le> 90) \<or> (97 \<le> char_code c \<and> char_code c \<le> 122)"

definition scheme_char :: "char \<Rightarrow> bool" where
  "scheme_char c \<longleftrightarrow> ascii_alpha c \<or> is_ascii_digit c \<or> c \<in> set ''+-.''"

text \<open>Leading control characters and blanks go, and so do tabs and line breaks anywhere.\<close>

definition clean_url :: "string \<Rightarrow> string" where
  "clean_url s = filter (\<lambda>c. char_code c \<notin> {9, 10, 13}) (dropWhile (\<lambda>c. char_code c \<le> 32) s)"

definition split_scheme :: "string \<Rightarrow> string \<times> string" where
  "split_scheme s =
     (case partition_at CHR '':'' s of
        (pre, found, rest) \<Rightarrow>
          if found \<and> pre \<noteq> [] \<and> ascii_alpha (hd pre) \<and> list_all scheme_char pre then (lower_str pre, rest)
          else ([], s))"

text \<open>\<open>s.rpartition("@")[2]\<close>\<close>

definition after_last :: "char \<Rightarrow> string \<Rightarrow> string" where
  "after_last c s = rev (takeWhile (\<lambda>x. x \<noteq> c) (rev s))"

text \<open>The host of a bracketed authority must be an IPv6 address or a future address.\<close>

definition bracketed_host_ok :: "string \<Rightarrow> bool" where
  "bracketed_host_ok h =
     (if starts_with ''v'' h then
        (case partition_at CHR ''.'' (tl h) of
           (ver, found, rest) \<Rightarrow>
             found \<and> ver \<noteq> [] \<and> list_all (\<lambda>c. hex_val c \<noteq> None) ver \<and> rest \<noteq> [] \<and> CHR ''\<newline>'' \<notin> set rest)
      else (case ip_address h of Some (V6 w) \<Rightarrow> True | _ \<Rightarrow> False))"

definition bracketed_netloc_ok :: "string \<Rightarrow> bool" where
  "bracketed_netloc_ok netloc =
     (let hostport = after_last CHR ''@'' netloc
      in case partition_at CHR ''['' hostport of
          (pre, found, bracketed) \<Rightarrow>
            if found then
              (case partition_at CHR '']'' bracketed of
                 (host, _, port) \<Rightarrow>
                   pre = [] \<and> (port = [] \<or> starts_with '':'' port) \<and> bracketed_host_ok host)
            else bracketed_host_ok (fst (partition_at CHR '':'' hostport)))"

definition netloc_ok :: "string \<Rightarrow> bool" where
  "netloc_ok netloc \<longleftrightarrow> (CHR ''['' \<in> set netloc \<longleftrightarrow> CHR '']'' \<in> set netloc) \<and>
     (CHR ''['' \<in> set netloc \<longrightarrow> bracketed_netloc_ok netloc)"

definition urlsplit :: "string \<Rightarrow> exn + url_parts" where
  "urlsplit url =
     (case split_scheme (clean_url url) of
        (scheme, rest) \<Rightarrow>
          (let has_netloc = starts_with ''//'' rest;
               netloc = (if has_netloc then takeWhile (\<lambda>c. c \<notin> set ''/?#'') (drop 2 rest) else []);
               rest1 = (if has_netloc then dropWhile (\<lambda>c. c \<notin> set ''/?#'') (drop 2 rest) else rest)
           in if \<not> netloc_ok netloc then Inl (ValueError ''Invalid IPv6 URL'')
              else (case partition_at CHR ''#'' rest1 of
                  (rest2, _, fragment) \<Rightarrow>
                    (case partition_at CHR ''?'' rest2 of
                       (path, _, query) \<Rightarrow> Inr
                         \<lparr>up_scheme = scheme, up_netloc = netloc, up_path = path, up_query = query,
                          up_fragment = fragment\<rparr>))))"

text \<open>The properties \<open>hostname\<close> and \<open>port\<close>.\<close>

definition host_info :: "string \<Rightarrow> string \<times> string" where
  "host_info netloc =
     (let hostinfo = after_last CHR ''@'' netloc
      in case partition_at CHR ''['' hostinfo of
          (_, found, bracketed) \<Rightarrow>
            if found then
              (case partition_at CHR '']'' bracketed of
                 (host, _, port) \<Rightarrow> (host, snd (snd (partition_at CHR '':'' port))))
            else (case partition_at CHR '':'' hostinfo of (host, _, port) \<Rightarrow> (host, port)))"

definition url_hostname :: "url_parts \<Rightarrow> string option" where
  "url_hostname p =
     (let host = fst (host_info (up_netloc p))
      in if host = [] then None
         else (case partition_at CHR ''%'' host of
             (name, found, zone) \<Rightarrow> Some (lower_str name @ (if found then ''%'' else []) @ zone)))"

definition url_port :: "url_parts \<Rightarrow> exn + int option" where
  "url_port p =
     (let port = snd (host_info (up_netloc p))
      in if port = [] then Inr None
         else if \<not> list_all is_ascii_digit port
         then Inl (ValueError (''Port could not be cast to integer value as '' @ repr_str port))
         else if digits_val port \<le> 65535 then Inr (Some (int (digits_val port)))
         else Inl (ValueError ''Port out of range 0-65535''))"

section \<open>Query strings\<close>

text \<open>\<open>unquote\<close>: the runs of ASCII characters are unescaped to bytes and decoded.\<close>

fun unquote_bytes :: "string \<Rightarrow> nat list" where
  "unquote_bytes (a # b # c # s) =
     (if a = CHR ''%'' then
        (case (hex_val b, hex_val c) of
           (Some x, Some y) \<Rightarrow> nat (16 * x + y) # unquote_bytes s
         | _ \<Rightarrow> char_code a # unquote_bytes (b # c # s))
      else char_code a # unquote_bytes (b # c # s))"
| "unquote_bytes s = map char_code s"

function unquote_runs :: "(nat list \<Rightarrow> string) \<Rightarrow> string \<Rightarrow> string" where
  "unquote_runs dec s =
     (case s of
        [] \<Rightarrow> []
      | c # cs \<Rightarrow>
          if char_code c < 128
          then dec (unquote_bytes (takeWhile (\<lambda>c. char_code c < 128) s)) @
                 unquote_runs dec (dropWhile (\<lambda>c. char_code c < 128) s)
          else c # unquote_runs dec cs)"
  by pat_completeness auto
termination
  by (relation "measure (\<lambda>(dec, s). length s)") (auto intro: le_imp_less_Suc length_dropWhile_le)

declare unquote_runs.simps [simp del]

definition unquote :: "(nat list \<Rightarrow> string) \<Rightarrow> string \<Rightarrow> string" where
  "unquote dec s = (if CHR ''%'' \<in> set s then unquote_runs dec s else s)"

definition plus_to_space :: "string \<Rightarrow> string" where
  "plus_to_space s = map (\<lambda>c. if c = CHR ''+'' then CHR '' '' else c) s"

text \<open>\<open>parse_qsl(query, keep_blank_values=True)\<close>\<close>

definition parse_qsl :: "(nat list \<Rightarrow> string) \<Rightarrow> string \<Rightarrow> (string \<times> string) list" where
  "parse_qsl dec query =
     map (\<lambda>piece. case partition_at CHR ''='' piece of
            (name, _, v) \<Rightarrow> (unquote dec (plus_to_space name), unquote dec (plus_to_space v)))
       (filter (\<lambda>piece. piece \<noteq> []) (split_on CHR ''&'' query))"

text \<open>\<open>urlencode(pairs, safe="*")\<close>\<close>

definition quote_plus_byte :: "nat \<Rightarrow> string" where
  "quote_plus_byte n = (if n = 32 then ''+'' else if n = 42 then ''*'' else quote_byte n)"

definition quote_plus :: "string \<Rightarrow> string" where
  "quote_plus s = concat (map quote_plus_byte (utf8 s))"

definition urlencode :: "(string \<times> string) list \<Rightarrow> string" where
  "urlencode ps = join_with ''&'' (map (\<lambda>(k, v). quote_plus k @ ''='' @ quote_plus v) ps)"

section \<open>urlunsplit\<close>

definition uses_netloc :: "string list" where
  "uses_netloc = ['''', ''ftp'', ''http'', ''gopher'', ''nntp'', ''telnet'', ''imap'', ''wais'', ''file'', ''mms'',
     ''https'', ''shttp'', ''snews'', ''prospero'', ''rtsp'', ''rtsps'', ''rtspu'', ''rsync'', ''svn'', ''svn+ssh'',
     ''sftp'', ''nfs'', ''git'', ''git+ssh'', ''ws'', ''wss'', ''itms-services'']"

definition urlunsplit :: "url_parts \<Rightarrow> string" where
  "urlunsplit p =
     (let path = up_path p;
          s1 = (if up_netloc p \<noteq> [] then
                  ''//'' @ up_netloc p @ (if path \<noteq> [] \<and> hd path \<noteq> CHR ''/'' then ''/'' else []) @ path
                else if starts_with ''//'' path then ''//'' @ path
                else if up_scheme p \<noteq> [] \<and> up_scheme p \<in> set uses_netloc \<and> (path = [] \<or> hd path = CHR ''/'')
                then ''//'' @ path else path);
          s2 = (if up_scheme p \<noteq> [] then up_scheme p @ '':'' @ s1 else s1);
          s3 = (if up_query p \<noteq> [] then s2 @ ''?'' @ up_query p else s2)
      in if up_fragment p \<noteq> [] then s3 @ ''#'' @ up_fragment p else s3)"

section \<open>Redacted URLs\<close>

definition sensitive_words :: "string list" where
  "sensitive_words = [''key'', ''token'', ''secret'', ''password'', ''passwd'', ''pwd'', ''auth'', ''signature'',
     ''credential'', ''session'']"

definition sensitive_param :: "string \<Rightarrow> bool" where
  "sensitive_param name \<longleftrightarrow> list_ex (\<lambda>w. occurs_in w (lower_str name)) sensitive_words"

definition mask_pairs :: "(string \<times> string) list \<Rightarrow> (string \<times> string) list" where
  "mask_pairs ps = map (\<lambda>(name, v). (name, if sensitive_param name then MASK else v)) ps"

definition mask_url :: "(nat list \<Rightarrow> string) \<Rightarrow> url_parts \<Rightarrow> url_parts" where
  "mask_url dec p =
     p\<lparr>up_netloc := (if CHR ''@'' \<in> set (up_netloc p) then MASK @ ''@'' @ after_last CHR ''@'' (up_netloc p)
                     else up_netloc p),
       up_query := (if up_query p = [] then [] else urlencode (mask_pairs (parse_qsl dec (up_query p))))\<rparr>"

definition redact_url :: "(nat list \<Rightarrow> string) \<Rightarrow> string list \<Rightarrow> string \<Rightarrow> string" where
  "redact_url dec vs url =
     (case urlsplit url of
        Inl e \<Rightarrow> redact vs url
      | Inr p \<Rightarrow> redact vs (urlunsplit (mask_url dec p)))"

text \<open>HTTP methods are ASCII words, and so is their upper case.\<close>

definition upper_ascii :: "string \<Rightarrow> string" where
  "upper_ascii s = map (\<lambda>c. if 97 \<le> char_code c \<and> char_code c \<le> 122 then char_of (char_code c - 32) else c) s"

definition request_summary :: "(nat list \<Rightarrow> string) \<Rightarrow> string list \<Rightarrow> string \<Rightarrow> string \<Rightarrow> string" where
  "request_summary dec vs verb url = upper_ascii verb @ '' '' @ redact_url dec vs url"

section \<open>Masking keeps the parameters\<close>

lemma char_of_eq: "n < 256 \<Longrightarrow> char_of n = c \<longleftrightarrow> n = char_code c"
  unfolding char_code_def by (auto simp: char_of_eq_iff take_bit_eq_mod)

lemma hex_val_upper: "n < 16 \<Longrightarrow> hex_val (hex_upper n) = Some (int n)"
  by (auto simp: hex_val_def hex_upper_def Let_def of_nat_of_char [symmetric, where 'a = int])

lemma hex_upper_char: "n < 16 \<Longrightarrow> hex_upper n \<notin> set ''+&=% '' \<and> char_code (hex_upper n) < 128"
  by (auto simp: hex_upper_def char_of_eq char_code_def)

definition query_byte :: "nat \<Rightarrow> string" where
  "query_byte n = (if n = 32 then '' '' else if n = 42 then ''*'' else quote_byte n)"

lemma char_code_char_of [simp]: "n < 256 \<Longrightarrow> char_code (char_of n) = n"
  by (simp add: char_code_def)

lemma unreserved_char:
  assumes "unreserved n"
  shows "n < 128" and "char_of n \<notin> set ''+&=% ''"
  using assms by (auto simp: unreserved_def char_of_eq char_code_def)

lemma query_byte_cases:
  assumes "n < 256"
  obtains (plain) c where "query_byte n = [c]" "quote_plus_byte n = [if c = CHR '' '' then CHR ''+'' else c]"
      "char_code c = n" "n < 128" "c \<notin> set ''+&=%''"
  | (escaped) "query_byte n = [CHR ''%'', hex_upper (n div 16), hex_upper (n mod 16)]"
      "quote_plus_byte n = [CHR ''%'', hex_upper (n div 16), hex_upper (n mod 16)]"
proof (cases "n = 32 \<or> n = 42")
  case True
  then show thesis
    by (intro plain [of "if n = 32 then CHR '' '' else CHR ''*''"])
      (auto simp: query_byte_def quote_plus_byte_def char_code_def)
next
  case False
  show thesis
  proof (cases "unreserved n")
    case True
    with False unreserved_char [OF True] show thesis
      by (intro plain [of "char_of n"]) (auto simp: query_byte_def quote_plus_byte_def quote_byte_def)
  next
    case False
    with \<open>\<not> (n = 32 \<or> n = 42)\<close> show thesis
      by (intro escaped) (auto simp: query_byte_def quote_plus_byte_def quote_byte_def)
  qed
qed

lemma unquote_bytes_plain: "c \<noteq> CHR ''%'' \<Longrightarrow> unquote_bytes (c # s) = char_code c # unquote_bytes s"
  by (cases s; cases "tl s") auto

lemma unquote_query_bytes:
  "list_all (\<lambda>n. n < 256) bs \<Longrightarrow> unquote_bytes (concat (map query_byte bs)) = bs"
proof (induction bs)
  case (Cons n bs)
  have n: "n < 256" using Cons.prems by simp
  from n show ?case
  proof (cases rule: query_byte_cases)
    case (plain c)
    with Cons show ?thesis by (simp add: unquote_bytes_plain)
  next
    case escaped
    have "nat (16 * int (n div 16) + int (n mod 16)) = n" by (simp add: nat_add_distrib nat_mult_distrib)
    with n Cons escaped show ?thesis by (simp add: hex_val_upper)
  qed
qed simp

lemma plus_to_space_quote:
  "list_all (\<lambda>n. n < 256) bs \<Longrightarrow> plus_to_space (concat (map quote_plus_byte bs)) = concat (map query_byte bs)"
proof (induction bs)
  case (Cons n bs)
  have n: "n < 256" using Cons.prems by simp
  then have "n div 16 < 16" "n mod 16 < 16" by auto
  note h = hex_upper_char [OF this(1)] hex_upper_char [OF this(2)]
  from n show ?case
  proof (cases rule: query_byte_cases)
    case (plain c)
    with Cons show ?thesis by (auto simp: plus_to_space_def)
  next
    case escaped
    with Cons h show ?thesis by (auto simp: plus_to_space_def)
  qed
qed (simp add: plus_to_space_def)

lemma query_bytes_ascii:
  assumes "list_all (\<lambda>n. n < 256) bs"
  shows "\<forall>c \<in> set (concat (map query_byte bs)). char_code c < 128"
    and "\<forall>c \<in> set (concat (map quote_plus_byte bs)). c \<noteq> CHR ''&'' \<and> c \<noteq> CHR ''=''"
    and "CHR ''%'' \<notin> set (concat (map query_byte bs)) \<Longrightarrow> concat (map query_byte bs) = map char_of bs \<and> list_all (\<lambda>n. n < 128) bs"
  using assms
proof (induction bs)
  case (Cons n bs)
  {
    case 1
    have n: "n < 256" using 1 by simp
    then have "n div 16 < 16" "n mod 16 < 16" by auto
    note h = hex_upper_char [OF this(1)] hex_upper_char [OF this(2)]
    from n 1 Cons h show ?case by (cases rule: query_byte_cases) (auto simp: char_code_def)
  next
    case 2
    have n: "n < 256" using 2 by simp
    then have "n div 16 < 16" "n mod 16 < 16" by auto
    note h = hex_upper_char [OF this(1)] hex_upper_char [OF this(2)]
    from n 2 Cons h show ?case by (cases rule: query_byte_cases) auto
  next
    case 3
    have n: "n < 256" using 3 by simp
    from n 3 Cons show ?case by (cases rule: query_byte_cases) (auto simp: char_code_def)
  }
qed auto

lemma utf8_all_bytes: "list_all (\<lambda>n. n < 256) (utf8 s)"
  using utf8_bytes by (auto simp: list_all_iff)

lemma utf8_ascii: "list_all (\<lambda>n. n < 128) (utf8 s) \<Longrightarrow> map char_of (utf8 s) = s"
  by (induction s) (auto simp: utf8_def utf8_char_def Let_def split: if_splits)

lemma unquote_runs_ascii: "s \<noteq> [] \<Longrightarrow> \<forall>c \<in> set s. char_code c < 128 \<Longrightarrow> unquote_runs dec s = dec (unquote_bytes s)"
  by (cases s) (auto simp: unquote_runs.simps [of dec "_ # _"] unquote_runs.simps [of dec "[]"] takeWhile_eq_all_conv [THEN iffD2]
      dropWhile_eq_Nil_conv [THEN iffD2])

lemma unquote_quote_plus:
  assumes "\<And>s. dec (utf8 s) = s"
  shows "unquote dec (plus_to_space (quote_plus s)) = s"
proof -
  note q = query_bytes_ascii [OF utf8_all_bytes]
  have p: "plus_to_space (quote_plus s) = concat (map query_byte (utf8 s))"
    unfolding quote_plus_def by (rule plus_to_space_quote [OF utf8_all_bytes])
  show ?thesis
  proof (cases "CHR ''%'' \<in> set (concat (map query_byte (utf8 s)))")
    case True
    then have "concat (map query_byte (utf8 s)) \<noteq> []" by (metis empty_iff empty_set)
    from unquote_runs_ascii [OF this q(1)] True show ?thesis
      unfolding unquote_def p by (simp only: if_True unquote_query_bytes [OF utf8_all_bytes] assms)
  next
    case False
    with q(3) [OF False] show ?thesis unfolding unquote_def p using utf8_ascii [of s] by simp
  qed
qed

lemma partition_at_found: "c \<notin> set s \<Longrightarrow> partition_at c (s @ c # t) = (s, True, t)"
  by (induction s) (auto simp: partition_at_def split: list.splits)

lemma parse_qsl_urlencode:
  assumes "\<And>s. dec (utf8 s) = s"
  shows "parse_qsl dec (urlencode ps) = ps"
proof (cases "ps = []")
  case False
  let ?piece = "\<lambda>(k, v). quote_plus k @ ''='' @ quote_plus v"
  have amp: "c \<noteq> CHR ''&'' \<and> c \<noteq> CHR ''=''" if "c \<in> set (quote_plus s)" for c s
    using query_bytes_ascii(2) [OF utf8_all_bytes] that unfolding quote_plus_def by blast
  have "split_on CHR ''&'' (urlencode ps) = map ?piece ps"
    unfolding urlencode_def using False amp by (intro split_on_join) auto
  moreover have "filter (\<lambda>w. w \<noteq> []) (map ?piece ps) = map ?piece ps" by (auto simp: filter_id_conv)
  moreover have "(case partition_at CHR ''='' (?piece kv) of (name, _, v) \<Rightarrow>
      (unquote dec (plus_to_space name), unquote dec (plus_to_space v))) = kv" for kv
  proof -
    have "CHR ''='' \<notin> set (quote_plus (fst kv))" using amp by blast
    from partition_at_found [OF this, of "quote_plus (snd kv)"] show ?thesis
      using unquote_quote_plus [OF assms] by (simp add: case_prod_beta)
  qed
  ultimately show ?thesis by (simp add: parse_qsl_def comp_def)
qed (simp add: parse_qsl_def urlencode_def)

lemma after_last_append: "c \<notin> set t \<Longrightarrow> after_last c (s @ c # t) = t"
proof -
  assume "c \<notin> set t"
  then have "takeWhile (\<lambda>x. x \<noteq> c) (rev t @ c # rev s) = rev t" by (subst takeWhile_append2) auto
  then show ?thesis by (simp add: after_last_def)
qed

lemma after_last_no_sep: "c \<notin> set (after_last c s)"
  using set_takeWhileD unfolding after_last_def by fastforce


text \<open>The decoder on the bytes of characters below code point 256.\<close>

fun latin_decode :: "nat list \<Rightarrow> string" where
  "latin_decode (b # b' # bs) =
     (if b < 128 then char_of b # latin_decode (b' # bs) else char_of ((b - 192) * 64 + (b' - 128)) # latin_decode bs)"
| "latin_decode bs = map char_of bs"

lemma latin_decode_ascii: "b < 128 \<Longrightarrow> latin_decode (b # bs) = char_of b # latin_decode bs"
  by (cases bs) simp_all

lemma latin_decode_utf8: "latin_decode (utf8 s) = s"
proof (induction s)
  case (Cons c s)
  have lt: "(of_char c :: nat) < 256" by simp
  then have "of_char c div 64 * 64 + of_char c mod 64 = (of_char c :: nat)" by simp
  with Cons lt show ?case by (auto simp: utf8_def utf8_char_def Let_def latin_decode_ascii)
qed (simp add: utf8_def)

definition demo_url :: url_parts where
  "demo_url = \<lparr>up_scheme = ''https'', up_netloc = ''me:pw@api.example:8443'', up_path = ''/v1'',
     up_query = ''q=a+b&api_key=xyz'', up_fragment = []\<rparr>"


lemma redact_url_redacts: "\<exists>u. redact_url dec vs url = redact vs u"
  by (auto simp: redact_url_def split: sum.splits)

end
