(* ===== verification/Ssrf.thy ===== *)
theory Ssrf
  imports Run_Context Url
begin

text \<open>
  \<open>etl_core/ssrf.py\<close>: the guard every request issued by the program passes, before the first request and
  again on every hop of a redirect.

  The resolver is a parameter, the function \<open>dns\<close> from host and port to the addresses \<open>getaddrinfo\<close> answers
  or to its error. The set of allowed names is the list of their normalised texts.
\<close>

section \<open>The policy\<close>

definition bare_host :: "string \<Rightarrow> string" where
  "bare_host h = strip_chars ''[]'' (strip_ws h)"

definition policy_names :: "ssrf_policy \<Rightarrow> string list" where
  "policy_names policy =
     map (\<lambda>entry. lower_str (bare_host entry)) (filter (\<lambda>entry. CHR ''/'' \<notin> set entry) (sp_allow_hosts policy))"

definition entry_network :: "string \<Rightarrow> ip_net option" where
  "entry_network entry0 =
     (let entry = strip_ws entry0
      in if CHR ''/'' \<in> set entry then ip_network entry
         else map_option host_net (ip_address (strip_chars ''[]'' entry)))"

definition policy_networks :: "ssrf_policy \<Rightarrow> ip_net list" where
  "policy_networks policy = List.map_filter entry_network (sp_allow_hosts policy)"

definition EXTRA_BLOCKED_NETWORKS :: "ip_net list" where
  "EXTRA_BLOCKED_NETWORKS = [net4 100 64 0 0 10, net4 192 0 0 0 24]"

definition is_blocked_address :: "ip_addr \<Rightarrow> bool" where
  "is_blocked_address address0 =
     (let address = (case ipv4_mapped address0 of Some m \<Rightarrow> m | None \<Rightarrow> address0)
      in is_private address \<or> is_loopback address \<or> is_link_local address \<or> is_multicast address \<or>
         is_reserved address \<or> is_unspecified address \<or> list_ex (in_net address) EXTRA_BLOCKED_NETWORKS)"

definition unparsable_msg :: "string \<Rightarrow> string \<Rightarrow> string" where
  "unparsable_msg host ip_text = ''could not parse resolved address '' @ repr_str ip_text @ '' for host '' @ repr_str host"

definition blocked_msg :: "string \<Rightarrow> string \<Rightarrow> string" where
  "blocked_msg host ip_text =
     ''host '' @ repr_str host @ '' resolves to '' @ ip_text @ '', which is in a blocked '' @
     ''range (private/loopback/link-local/metadata). Add the host to '' @
     ''the SSRF allowlist if this is intentional.''"

fun check_ips :: "ip_net list \<Rightarrow> string \<Rightarrow> string list \<Rightarrow> string option" where
  "check_ips nets host [] = None"
| "check_ips nets host (ip_text # ips) =
     (case ip_address ip_text of
        None \<Rightarrow> Some (unparsable_msg host ip_text)
      | Some address \<Rightarrow>
          if list_ex (in_net address) nets then check_ips nets host ips
          else if is_blocked_address address then Some (blocked_msg host ip_text)
          else check_ips nets host ips)"

definition find_blocked :: "string \<Rightarrow> string list \<Rightarrow> ssrf_policy \<Rightarrow> string option" where
  "find_blocked host ips policy =
     (if \<not> sp_enabled policy then None
      else if lower_str (bare_host host) \<in> set (policy_names policy) then None
      else check_ips (policy_networks policy) host ips)"

section \<open>The guard\<close>

type_synonym resolver = "string \<Rightarrow> int option \<Rightarrow> exn + string list"

definition resolve_host :: "resolver \<Rightarrow> string \<Rightarrow> int option \<Rightarrow> exn + string list" where
  "resolve_host dns host port =
     (case ip_address (bare_host host) of
        Some a \<Rightarrow> Inr [bare_host host]
      | None \<Rightarrow> map_sum id (\<lambda>infos. sort (remdups infos)) (dns (bare_host host) port))"

definition ensure_url_allowed :: "resolver \<Rightarrow> string \<Rightarrow> ssrf_policy \<Rightarrow> exn + unit" where
  "ensure_url_allowed dns url policy =
     (if \<not> sp_enabled policy then Inr ()
      else sbind (urlsplit url) (\<lambda>parts.
        case url_hostname parts of
          None \<Rightarrow> Inl (SSRFBlockedError (''URL '' @ repr_str url @ '' has no host''))
        | Some host \<Rightarrow>
            if lower_str host \<in> set (policy_names policy) then Inr ()
            else sbind (url_port parts) (\<lambda>port.
              sbind (resolve_host dns host port) (\<lambda>ips.
                case find_blocked host ips policy of
                  Some reason \<Rightarrow> Inl (SSRFBlockedError reason)
                | None \<Rightarrow> Inr ()))))"

text \<open>
  A request through a client with \<open>guarded_event_hooks\<close>: the client issues the request of each hop, and the
  hook runs before it. \<open>hop\<close> is the client's transport: a redirect to another URL, or the final response.
  The result lists the URLs that were requested.
\<close>

datatype 'r hop = Redirect string | Final 'r

fun guarded_request :: "resolver \<Rightarrow> ssrf_policy \<Rightarrow> (string \<Rightarrow> 'r hop) \<Rightarrow> nat \<Rightarrow> string \<Rightarrow> (exn + 'r) \<times> string list" where
  "guarded_request dns policy hop 0 url = (Inl (OtherException ''TooManyRedirects'' ''Exceeded maximum allowed redirects.''), [])"
| "guarded_request dns policy hop (Suc n) url =
     (case ensure_url_allowed dns url policy of
        Inl e \<Rightarrow> (Inl e, [])
      | Inr u \<Rightarrow>
          (case hop url of
             Final r \<Rightarrow> (Inr r, [url])
           | Redirect next \<Rightarrow>
               (case guarded_request dns policy hop n next of (res, urls) \<Rightarrow> (res, url # urls))))"

section \<open>What the guard lets through\<close>

text \<open>The special-purpose ranges of IPv4, by octets.\<close>

definition special_v4 :: "nat \<Rightarrow> nat \<Rightarrow> nat \<Rightarrow> bool" where
  "special_v4 a b c \<longleftrightarrow>
     (a = 0 \<or> a = 10 \<or> a = 127 \<or> 224 \<le> a) \<or> (a = 100 \<and> 64 \<le> b \<and> b < 128) \<or> (a = 169 \<and> b = 254) \<or>
     (a = 172 \<and> 16 \<le> b \<and> b < 32) \<or> (a = 192 \<and> (b = 168 \<or> b = 0 \<and> (c = 0 \<or> c = 2))) \<or>
     (a = 198 \<and> (18 \<le> b \<and> b < 20 \<or> b = 51 \<and> c = 100)) \<or> (a = 203 \<and> b = 0 \<and> c = 113)"

lemma blocked_octets:
  assumes "a < 256" "b < 256" "c < 256" "d < 256"
  shows "is_blocked_address (V4 (octets_word a b c d)) \<longleftrightarrow> special_v4 a b c"
proof -
  have zero: "octets_word a b c d = 0 \<Longrightarrow> a = 0"
    using uint_octets_word [OF assms] by simp
  have d16: "x div 16 = k \<longleftrightarrow> k * 16 \<le> x \<and> x < (k + 1) * 16" for x k :: nat by auto
  have d64: "x div 64 = k \<longleftrightarrow> k * 64 \<le> x \<and> x < (k + 1) * 64" for x k :: nat by auto
  have d2: "x div 2 = k \<longleftrightarrow> k * 2 \<le> x \<and> x < (k + 1) * 2" for x k :: nat by auto
  show ?thesis
    unfolding special_v4_def using assms zero
    by (cases "a = 192"; cases "a < 224"; cases "octets_word a b c d = 0")
      (simp_all add: is_blocked_address_def Let_def private4_def private4_exceptions_def EXTRA_BLOCKED_NETWORKS_def
        in_net4 d16 d64 d2, auto)
qed

definition head6 :: "128 word \<Rightarrow> int" where
  "head6 w = uint w div 2 ^ 112"

lemma head6_bounds: "0 \<le> head6 w" "head6 w < 65536"
proof -
  have "uint w < 2 ^ 128" using uint_lt2p [of w] by simp
  then show "head6 w < 65536" by (simp add: head6_def)
  show "0 \<le> head6 w" unfolding head6_def by (intro pos_imp_zdiv_nonneg_iff [THEN iffD2]) simp_all
qed

lemma in_net6_short:
  assumes "n \<le> 16"
  shows "in_net (V6 w) (mk_net (V6 b) n) \<longleftrightarrow> head6 w div 2 ^ (16 - n) = head6 b div 2 ^ (16 - n)"
proof -
  have e: "128 - n = 112 + (16 - n)" using assms(1) by simp
  have "uint w div 2 ^ (128 - n) = head6 w div 2 ^ (16 - n)" for w :: "128 word"
    unfolding e power_add head6_def by (simp add: zdiv_zmult2_eq)
  then show ?thesis by (simp add: in_mk_net)
qed

lemma in_net6_long:
  assumes "16 \<le> n" and "in_net (V6 w) (mk_net (V6 b) n)"
  shows "head6 w = head6 b"
proof -
  have e: "(2 :: int) ^ 112 = 2 ^ (128 - n) * 2 ^ (112 - (128 - n))" 
    using assms(1) by (simp flip: power_add)
  have "head6 w = uint w div 2 ^ (128 - n) div 2 ^ (112 - (128 - n))" for w :: "128 word"
    unfolding head6_def e by (simp add: zdiv_zmult2_eq)
  then show ?thesis using assms(2) by (simp add: in_mk_net)
qed


lemma head6_net:
  "list_all (\<lambda>h. head6 (join_hextets (take 8 ([h] @ replicate 8 0))) = h)
     [0x100, 0x200, 0x400, 0x800, 0x1000, 0x4000, 0x6000, 0x8000, 0xa000, 0xc000, 0xe000, 0xf000, 0xf800,
      0xfe00, 0xfe80, 0xfc00, 0xff00]"
  "head6 (join_hextets (take 8 ([] @ replicate 8 0))) = 0"
  by code_simp+

lemma in_exceptions_head: "list_ex (in_net (V6 w)) private6_exceptions \<Longrightarrow> head6 w = 0x2001"
proof -
  have "list_all (\<lambda>hs. head6 (join_hextets (take 8 (hs @ replicate 8 0))) = 0x2001)
    [[0x2001, 1, 0, 0, 0, 0, 0, 1], [0x2001, 1, 0, 0, 0, 0, 0, 2], [0x2001, 3], [0x2001, 4, 0x112], [0x2001, 0x20], [0x2001, 0x30]]"
    by code_simp
  then show "list_ex (in_net (V6 w)) private6_exceptions \<Longrightarrow> ?thesis"
    unfolding private6_exceptions_def net6_def
    by (auto simp del: take_append take_Cons' dest!: in_net6_long [rotated])
qed

lemma unblocked_v6:
  assumes "ipv4_mapped (V6 w) = None" and "\<not> is_blocked_address (V6 w)"
  shows "head6 w div 0x2000 = 1 \<or> head6 w div 64 = 0x3fb"
proof -
  have net: "in_net (V6 w) (net6 [h] n) \<longleftrightarrow> h div 2 ^ (16 - n) * 2 ^ (16 - n) \<le> head6 w \<and>
      head6 w < (h div 2 ^ (16 - n) + 1) * 2 ^ (16 - n)"
    if "n \<le> 16" "head6 (join_hextets (take 8 ([h] @ replicate 8 0))) = h" for h n
    unfolding net6_def in_net6_short [OF that(1)] that(2) by (rule div_eq_interval) simp
  have net0: "in_net (V6 w) (net6 [] 8) \<longleftrightarrow> head6 w < 0x100"
    unfolding net6_def in_net6_short [of 8, simplified] head6_net(2) using head6_bounds [of w]
    by (simp add: div_eq_interval)
  have ok: "\<not> in_net (V6 w) (net6 [0xff00] 8)" "\<not> in_net (V6 w) (net6 [0xfe80] 10)" "\<not> is_private (V6 w)"
    "\<not> list_ex (in_net (V6 w)) reserved6"
    using assms by (simp_all add: is_blocked_address_def Let_def)
  have "\<not> in_net (V6 w) (net6 [0xfc00] 7)"
  proof
    assume fc: "in_net (V6 w) (net6 [0xfc00] 7)"
    then have "list_ex (in_net (V6 w)) private6" by (simp add: private6_def)
    with ok(3) have "head6 w = 0x2001" using in_exceptions_head by auto
    with fc show False using head6_net(1) by (simp add: net)
  qed
  then have fc: "64512 \<le> head6 w \<longrightarrow> \<not> head6 w < 65024" using head6_net(1) by (simp add: net)
  have ends: "head6 w < 65280" "65152 \<le> head6 w \<longrightarrow> \<not> head6 w < 65216"
    using ok(1,2) head6_net(1) head6_bounds [of w] by (simp_all add: net)
  have r: "\<not> head6 w < 256" "256 \<le> head6 w \<longrightarrow> \<not> head6 w < 512" "512 \<le> head6 w \<longrightarrow> \<not> head6 w < 1024"
    "1024 \<le> head6 w \<longrightarrow> \<not> head6 w < 2048" "2048 \<le> head6 w \<longrightarrow> \<not> head6 w < 4096"
    "4096 \<le> head6 w \<longrightarrow> \<not> head6 w < 8192" "16384 \<le> head6 w \<longrightarrow> \<not> head6 w < 24576"
    "24576 \<le> head6 w \<longrightarrow> \<not> head6 w < 32768" "32768 \<le> head6 w \<longrightarrow> \<not> head6 w < 40960"
    "40960 \<le> head6 w \<longrightarrow> \<not> head6 w < 49152" "49152 \<le> head6 w \<longrightarrow> \<not> head6 w < 57344"
    "57344 \<le> head6 w \<longrightarrow> \<not> head6 w < 61440" "61440 \<le> head6 w \<longrightarrow> \<not> head6 w < 63488"
    "63488 \<le> head6 w \<longrightarrow> \<not> head6 w < 64512" "65024 \<le> head6 w \<longrightarrow> \<not> head6 w < 65152"
    using ok(4) head6_net(1) by (simp_all add: net net0 reserved6_def)
  have "8192 \<le> head6 w" using r(1-6) by linarith
  moreover have "head6 w < 16384 \<or> 40960 \<le> head6 w" using r(7-9) by linarith
  moreover have "head6 w < 40960 \<or> 61440 \<le> head6 w" using r(10-12) by linarith
  moreover have "head6 w < 61440 \<or> 65024 \<le> head6 w" using r(13,14) fc by linarith
  moreover have "head6 w < 65024 \<or> 65216 \<le> head6 w" using r(15) ends(2) by linarith
  ultimately have "8192 \<le> head6 w \<and> head6 w < 16384 \<or> 65216 \<le> head6 w" by linarith
  with ends(1) show ?thesis by (simp add: div_eq_interval)
qed

text \<open>
  Addresses of the public internet: IPv4 (also mapped into IPv6) outside the special ranges, and IPv6 in
  the global unicast block \<open>2000::/3\<close> or the deprecated site-local block \<open>fec0::/10\<close>.
\<close>

definition public_v4 :: "32 word \<Rightarrow> bool" where
  "public_v4 w \<longleftrightarrow> \<not> special_v4 (octet 3 w) (octet 2 w) (octet 1 w)"

definition public_addr :: "ip_addr \<Rightarrow> bool" where
  "public_addr a =
     (case a of
        V4 w \<Rightarrow> public_v4 w
      | V6 w \<Rightarrow>
          (case ipv4_mapped a of
             Some (V4 v) \<Rightarrow> public_v4 v
           | _ \<Rightarrow> head6 w div 0x2000 = 1 \<or> head6 w div 64 = 0x3fb))"

lemma blocked_v4: "is_blocked_address (V4 w) \<longleftrightarrow> \<not> public_v4 w"
proof -
  have "octet k w < 256" for k by (simp add: octet_def)
  from blocked_octets [OF this this this this, of 3 2 1 0] show ?thesis
    unfolding octets_word_octet public_v4_def by simp
qed

lemma unblocked_public: "\<not> is_blocked_address a \<Longrightarrow> public_addr a"
proof (cases a)
  case (V6 w)
  assume ok: "\<not> is_blocked_address a"
  show ?thesis
  proof (cases "ipv4_mapped a")
    case None
    with ok V6 unblocked_v6 [of w] show ?thesis by (simp add: public_addr_def)
  next
    case (Some m)
    with V6 have "m = V4 (ucast w)" by (auto split: if_splits)
    with ok Some V6 blocked_v4 [of "ucast w"] show ?thesis
      by (auto simp: public_addr_def is_blocked_address_def [of "V6 w"] is_blocked_address_def [of "V4 (ucast w)"] Let_def)
  qed
qed (simp add: public_addr_def blocked_v4)

text \<open>A URL the policy permits: a named host, or a host all of whose addresses are allowed or public.\<close>

definition url_permitted :: "resolver \<Rightarrow> ssrf_policy \<Rightarrow> string \<Rightarrow> bool" where
  "url_permitted dns policy url \<longleftrightarrow>
     (\<exists>parts host. urlsplit url = Inr parts \<and> url_hostname parts = Some host \<and>
        (lower_str host \<in> set (policy_names policy) \<or> lower_str (bare_host host) \<in> set (policy_names policy) \<or>
         (\<exists>port ips. url_port parts = Inr port \<and> resolve_host dns host port = Inr ips \<and>
            (\<forall>ip \<in> set ips. \<exists>a. ip_address ip = Some a \<and>
               (list_ex (in_net a) (policy_networks policy) \<or> public_addr a)))))"

lemma check_ips_None:
  "check_ips nets host ips = None \<longleftrightarrow>
     (\<forall>ip \<in> set ips. \<exists>a. ip_address ip = Some a \<and> (list_ex (in_net a) nets \<or> \<not> is_blocked_address a))"
  by (induction nets host ips rule: check_ips.induct) (auto split: option.splits)

lemma ensure_url_allowed_permitted:
  assumes "ensure_url_allowed dns url policy = Inr u" and "sp_enabled policy"
  shows "url_permitted dns policy url"
proof -
  obtain parts host where p: "urlsplit url = Inr parts" "url_hostname parts = Some host"
    using assms by (auto simp: ensure_url_allowed_def sbind_eq_Inr split: option.splits)
  show ?thesis
  proof (cases "lower_str host \<in> set (policy_names policy)")
    case False
    then obtain port ips where r: "url_port parts = Inr port" "resolve_host dns host port = Inr ips"
      "find_blocked host ips policy = None"
      using assms p by (auto simp: ensure_url_allowed_def sbind_eq_Inr split: option.splits)
    from r(3) assms(2) have "lower_str (bare_host host) \<in> set (policy_names policy) \<or>
        check_ips (policy_networks policy) host ips = None"
      by (auto simp: find_blocked_def split: if_splits)
    with p r(1,2) show ?thesis unfolding url_permitted_def check_ips_None using unblocked_public by blast
  qed (use p in \<open>auto simp: url_permitted_def\<close>)
qed

lemma guarded_requests_permitted:
  assumes "guarded_request dns policy hop n url = (res, urls)" and "sp_enabled policy"
  shows "\<forall>u \<in> set urls. url_permitted dns policy u"
  using assms(1)
proof (induction n arbitrary: url res urls)
  case (Suc n)
  show ?case
  proof (cases "ensure_url_allowed dns url policy")
    case (Inr u)
    with Suc.prems Suc.IH ensure_url_allowed_permitted [OF Inr assms(2)] show ?thesis
      by (cases "hop url") (auto split: prod.splits)
  qed (use Suc.prems in simp)
qed simp


text \<open>A redirect from a public host to the metadata service is not followed.\<close>

definition demo_hop :: "string \<Rightarrow> string hop" where
  "demo_hop url = (if url = ''http://8.8.8.8/'' then Redirect ''http://169.254.169.254/'' else Final url)"


text \<open>
  The site-local block \<open>fec0::/10\<close>, private although deprecated, passes the guard: \<open>is_site_local\<close> is not
  among the flags it asks for.
\<close>

lemma site_local_not_blocked: "\<not> is_blocked_address (V6 0xfec00000000000000000000000000001)"
  by code_simp

end
