(* ===== verification/Expression.thy ===== *)
theory Expression
  imports Run_Context
begin

text \<open>
  The safe expressions of \<open>etl_core/nodes/transform.py\<close>: \<open>compile_expression\<close> and the tables of allowed
  operators and functions, over a datatype of the Python expression nodes the evaluator distinguishes.

  The arithmetic of integers, strings and lists is exact; float addition, subtraction, multiplication and
  division round the exact rational result to the nearest double (the sign of a zero result is not
  tracked). What remains of the standard library is collected in \<open>py_lib\<close>: the parser \<open>ast.parse\<close>, the
  regular expressions of \<open>re.search\<close>, the other float operations, \<open>%\<close> formatting, \<open>float\<close> of a text,
  \<open>round\<close> and \<open>upper\<close>.
\<close>

section \<open>Syntax\<close>

datatype bin_op = OAdd | OSub | OMult | ODiv | OFloorDiv | OMod | OPow | OBinOther string
datatype un_op = OUSub | OUAdd | ONot | OUnOther string
datatype bool_op = OAnd | OOr
datatype cmp_op = OEq | ONotEq | OLt | OLtE | OGt | OGtE | OIn | ONotIn | OCmpOther string

datatype expr =
    EConst json
  | EBadConst string
  | EName string
  | EAttr expr string
  | ESubscript expr expr
  | EBin bin_op expr expr
  | EUn un_op expr
  | EBool bool_op "expr list"
  | ECompare expr "(cmp_op \<times> expr) list"
  | EIf expr expr expr
  | ECall "string option" "expr list" bool
  | EList "expr list"
  | EOther string

record py_lib =
  pl_parse :: "string \<Rightarrow> string + expr"
  pl_search :: "string \<Rightarrow> string \<Rightarrow> exn + bool"
  pl_float_op :: "bin_op \<Rightarrow> pyfloat \<Rightarrow> pyfloat \<Rightarrow> exn + json"
  pl_format :: "string \<Rightarrow> json \<Rightarrow> exn + json"
  pl_float_of_str :: "string \<Rightarrow> exn + json"
  pl_round :: "json list \<Rightarrow> exn + json"
  pl_upper :: "string \<Rightarrow> string"

section \<open>Operators\<close>

definition quoted :: "string \<Rightarrow> string" where
  "quoted s = [sq_char] @ s @ [sq_char]"

definition dquoted :: "string \<Rightarrow> string" where
  "dquoted s = [dq_char] @ s @ [dq_char]"

definition type_error :: "string \<Rightarrow> json \<Rightarrow> json \<Rightarrow> exn" where
  "type_error op a b = TypeError (''unsupported operand type(s) for '' @ op @ '': '' @
     quoted (type_name a) @ '' and '' @ quoted (type_name b))"

fun as_int :: "json \<Rightarrow> int option" where
  "as_int (JBool b) = Some (if b then 1 else 0)"
| "as_int (JInt i) = Some i"
| "as_int _ = None"

text \<open>The float a number is converted to when the other operand is one.\<close>

fun as_float :: "json \<Rightarrow> exn + pyfloat" where
  "as_float (JFloat f) = Inr f"
| "as_float (JBool b) = Inr (to_float (if b then 1 else 0))"
| "as_float (JInt i) =
     (case to_float (of_int i) of
        FInf s \<Rightarrow> Inl (OverflowError ''int too large to convert to float'')
      | f \<Rightarrow> Inr f)"
| "as_float _ = Inl (TypeError ''must be real number'')"

definition is_num :: "json \<Rightarrow> bool" where
  "is_num v \<longleftrightarrow> num_ext v \<noteq> None"

fun neg_float :: "pyfloat \<Rightarrow> pyfloat" where
  "neg_float FNan = FNan"
| "neg_float (FInf s) = FInf (\<not> s)"
| "neg_float (FNum s m e) = FNum (\<not> s) m e"

fun float_sign :: "pyfloat \<Rightarrow> bool" where
  "float_sign FNan = False"
| "float_sign (FInf s) = s"
| "float_sign (FNum s m e) = s"

definition float_zero :: "pyfloat \<Rightarrow> bool" where
  "float_zero f \<longleftrightarrow> ext_eq (ext_of_float f) (EFin 0)"

definition float_add :: "pyfloat \<Rightarrow> pyfloat \<Rightarrow> pyfloat" where
  "float_add a b =
     (case (ext_of_float a, ext_of_float b) of
        (EFin x, EFin y) \<Rightarrow> to_float (x + y)
      | (ENan, _) \<Rightarrow> FNan | (_, ENan) \<Rightarrow> FNan
      | (EFin _, _) \<Rightarrow> b | (_, EFin _) \<Rightarrow> a
      | _ \<Rightarrow> if float_sign a = float_sign b then a else FNan)"

definition float_mult :: "pyfloat \<Rightarrow> pyfloat \<Rightarrow> pyfloat" where
  "float_mult a b =
     (case (ext_of_float a, ext_of_float b) of
        (EFin x, EFin y) \<Rightarrow> to_float (x * y)
      | (ENan, _) \<Rightarrow> FNan | (_, ENan) \<Rightarrow> FNan
      | _ \<Rightarrow> if float_zero a \<or> float_zero b then FNan else FInf (float_sign a \<noteq> float_sign b))"

definition float_div :: "pyfloat \<Rightarrow> pyfloat \<Rightarrow> exn + pyfloat" where
  "float_div a b =
     (if float_zero b then Inl (ZeroDivisionError ''float division by zero'')
      else (case (ext_of_float a, ext_of_float b) of
          (EFin x, EFin y) \<Rightarrow> Inr (to_float (x / y))
        | (ENan, _) \<Rightarrow> Inr FNan | (_, ENan) \<Rightarrow> Inr FNan
        | (EFin _, _) \<Rightarrow> Inr (to_float 0)
        | (_, EFin _) \<Rightarrow> Inr (FInf (float_sign a \<noteq> float_sign b))
        | _ \<Rightarrow> Inr FNan))"

definition float_op2 :: "(pyfloat \<Rightarrow> pyfloat \<Rightarrow> exn + json) \<Rightarrow> json \<Rightarrow> json \<Rightarrow> exn + json" where
  "float_op2 f a b = sbind (as_float a) (\<lambda>x. sbind (as_float b) (f x))"

fun repeat_list :: "nat \<Rightarrow> 'a list \<Rightarrow> 'a list" where
  "repeat_list 0 xs = []"
| "repeat_list (Suc n) xs = xs @ repeat_list n xs"

definition seq_repeat :: "json \<Rightarrow> json \<Rightarrow> exn + json" where
  "seq_repeat s v =
     (case as_int v of
        Some n \<Rightarrow> (case s of
            JStr t \<Rightarrow> Inr (JStr (repeat_list (nat n) t))
          | JList xs \<Rightarrow> Inr (JList (repeat_list (nat n) xs))
          | _ \<Rightarrow> Inl (type_error ''*'' s v))
      | None \<Rightarrow> Inl (TypeError (''can'' @ [sq_char] @ ''t multiply sequence by non-int of type '' @ quoted (type_name v))))"

fun is_seq :: "json \<Rightarrow> bool" where
  "is_seq (JStr s) = True"
| "is_seq (JList xs) = True"
| "is_seq v = False"

fun py_add :: "json \<Rightarrow> json \<Rightarrow> exn + json" where
  "py_add (JStr s) b = (case b of
      JStr t \<Rightarrow> Inr (JStr (s @ t))
    | _ \<Rightarrow> Inl (TypeError (''can only concatenate str (not '' @ dquoted (type_name b) @ '') to str'')))"
| "py_add (JList xs) b = (case b of
      JList ys \<Rightarrow> Inr (JList (xs @ ys))
    | _ \<Rightarrow> Inl (TypeError (''can only concatenate list (not '' @ dquoted (type_name b) @ '') to list'')))"
| "py_add a b =
     (case (as_int a, as_int b) of
        (Some x, Some y) \<Rightarrow> Inr (JInt (x + y))
      | _ \<Rightarrow> if is_num a \<and> is_num b then float_op2 (\<lambda>x y. Inr (JFloat (float_add x y))) a b
          else Inl (type_error ''+'' a b))"

definition py_sub :: "json \<Rightarrow> json \<Rightarrow> exn + json" where
  "py_sub a b =
     (case (as_int a, as_int b) of
        (Some x, Some y) \<Rightarrow> Inr (JInt (x - y))
      | _ \<Rightarrow> if is_num a \<and> is_num b then float_op2 (\<lambda>x y. Inr (JFloat (float_add x (neg_float y)))) a b
          else Inl (type_error ''-'' a b))"

definition py_mult :: "json \<Rightarrow> json \<Rightarrow> exn + json" where
  "py_mult a b =
     (if is_seq a then seq_repeat a b else if is_seq b then seq_repeat b a
      else (case (as_int a, as_int b) of
          (Some x, Some y) \<Rightarrow> Inr (JInt (x * y))
        | _ \<Rightarrow> if is_num a \<and> is_num b then float_op2 (\<lambda>x y. Inr (JFloat (float_mult x y))) a b
            else Inl (type_error ''*'' a b)))"

definition py_div :: "json \<Rightarrow> json \<Rightarrow> exn + json" where
  "py_div a b =
     (case (as_int a, as_int b) of
        (Some x, Some y) \<Rightarrow>
          if y = 0 then Inl (ZeroDivisionError ''division by zero'')
          else (case to_float (of_int x / of_int y) of
              FInf s \<Rightarrow> Inl (OverflowError ''integer division result too large for a float'')
            | f \<Rightarrow> Inr (JFloat f))
      | _ \<Rightarrow> if is_num a \<and> is_num b then float_op2 (\<lambda>x y. sbind (float_div x y) (\<lambda>f. Inr (JFloat f))) a b
          else Inl (type_error ''/'' a b))"

definition py_floordiv :: "py_lib \<Rightarrow> json \<Rightarrow> json \<Rightarrow> exn + json" where
  "py_floordiv lib a b =
     (case (as_int a, as_int b) of
        (Some x, Some y) \<Rightarrow>
          if y = 0 then Inl (ZeroDivisionError ''integer division or modulo by zero'') else Inr (JInt (x div y))
      | _ \<Rightarrow> if is_num a \<and> is_num b then float_op2 (pl_float_op lib OFloorDiv) a b
          else Inl (type_error ''//'' a b))"

definition py_mod :: "py_lib \<Rightarrow> json \<Rightarrow> json \<Rightarrow> exn + json" where
  "py_mod lib a b =
     (case a of
        JStr s \<Rightarrow> pl_format lib s b
      | _ \<Rightarrow> (case (as_int a, as_int b) of
          (Some x, Some y) \<Rightarrow>
            if y = 0 then Inl (ZeroDivisionError ''integer modulo by zero'') else Inr (JInt (x mod y))
        | _ \<Rightarrow> if is_num a \<and> is_num b then float_op2 (pl_float_op lib OMod) a b
            else Inl (type_error ''%'' a b)))"

definition py_pow :: "py_lib \<Rightarrow> json \<Rightarrow> json \<Rightarrow> exn + json" where
  "py_pow lib a b =
     (case (as_int a, as_int b) of
        (Some x, Some y) \<Rightarrow>
          if 0 \<le> y then Inr (JInt (x ^ nat y)) else float_op2 (pl_float_op lib OPow) a b
      | _ \<Rightarrow> if is_num a \<and> is_num b then float_op2 (pl_float_op lib OPow) a b
          else Inl (type_error ''** or pow()'' a b))"

text \<open>\<open>_ALLOWED_BINOPS\<close>\<close>

fun binop_handler :: "py_lib \<Rightarrow> bin_op \<Rightarrow> (json \<Rightarrow> json \<Rightarrow> exn + json) option" where
  "binop_handler lib OAdd = Some py_add"
| "binop_handler lib OSub = Some py_sub"
| "binop_handler lib OMult = Some py_mult"
| "binop_handler lib ODiv = Some py_div"
| "binop_handler lib OFloorDiv = Some (py_floordiv lib)"
| "binop_handler lib OMod = Some (py_mod lib)"
| "binop_handler lib OPow = Some (py_pow lib)"
| "binop_handler lib (OBinOther n) = None"

text \<open>The names of the operand types the \<open>TypeError\<close> of a comparison reports.\<close>

fun rel_types :: "json \<Rightarrow> json \<Rightarrow> string \<times> string" where
  "rel_types (JList (x # xs)) (JList (y # ys)) =
     (if py_eq x y then rel_types (JList xs) (JList ys) else rel_types x y)"
| "rel_types a b = (type_name a, type_name b)"

definition py_ordering :: "string \<Rightarrow> cmpop \<Rightarrow> json \<Rightarrow> json \<Rightarrow> exn + bool" where
  "py_ordering opname op a b =
     (case py_rel op a b of
        Some r \<Rightarrow> Inr r
      | None \<Rightarrow> (let (s, t) = rel_types a b in
          Inl (TypeError (quoted opname @ '' not supported between instances of '' @ quoted s @ '' and '' @ quoted t))))"

fun substring :: "string \<Rightarrow> string \<Rightarrow> bool" where
  "substring p [] \<longleftrightarrow> p = []"
| "substring p (c # s) \<longleftrightarrow> starts_with p (c # s) \<or> substring p s"

fun py_in :: "json \<Rightarrow> json \<Rightarrow> exn + bool" where
  "py_in a (JList xs) = Inr (list_ex (\<lambda>x. py_eq x a) xs)"
| "py_in a (JStr t) =
     (case a of JStr s \<Rightarrow> Inr (substring s t)
      | _ \<Rightarrow> Inl (TypeError (quoted ''in <string>'' @ '' requires string as left operand, not '' @ type_name a)))"
| "py_in a (JDict d) =
     (case a of JStr s \<Rightarrow> Inr (dict_has d s)
      | JList xs \<Rightarrow> Inl (TypeError (''unhashable type: '' @ quoted ''list''))
      | JDict e \<Rightarrow> Inl (TypeError (''unhashable type: '' @ quoted ''dict''))
      | _ \<Rightarrow> Inr False)"
| "py_in a b = Inl (TypeError (''argument of type '' @ quoted (type_name b) @ '' is not iterable''))"

text \<open>\<open>_ALLOWED_CMPOPS\<close>\<close>

fun cmpop_handler :: "cmp_op \<Rightarrow> (json \<Rightarrow> json \<Rightarrow> exn + bool) option" where
  "cmpop_handler OEq = Some (\<lambda>a b. Inr (py_eq a b))"
| "cmpop_handler ONotEq = Some (\<lambda>a b. Inr (\<not> py_eq a b))"
| "cmpop_handler OLt = Some (py_ordering ''<'' CLt)"
| "cmpop_handler OLtE = Some (py_ordering ''<='' CLe)"
| "cmpop_handler OGt = Some (py_ordering ''>'' CGt)"
| "cmpop_handler OGtE = Some (py_ordering ''>='' CGe)"
| "cmpop_handler OIn = Some py_in"
| "cmpop_handler ONotIn = Some (\<lambda>a b. sbind (py_in a b) (\<lambda>r. Inr (\<not> r)))"
| "cmpop_handler (OCmpOther n) = None"

section \<open>Functions\<close>

definition arity_error :: "string \<Rightarrow> json list \<Rightarrow> exn" where
  "arity_error f args = TypeError (f @ ''() takes exactly one argument ('' @ nat_str (length args) @ '' given)'')"

fun py_len :: "json \<Rightarrow> exn + json" where
  "py_len (JStr s) = Inr (JInt (int (length s)))"
| "py_len (JList xs) = Inr (JInt (int (length xs)))"
| "py_len (JDict d) = Inr (JInt (int (length d)))"
| "py_len v = Inl (TypeError (''object of type '' @ quoted (type_name v) @ '' has no len()''))"

definition trunc_rat :: "rat \<Rightarrow> int" where
  "trunc_rat q = (if q < 0 then - \<lfloor>- q\<rfloor> else \<lfloor>q\<rfloor>)"

fun py_to_int :: "json \<Rightarrow> exn + json" where
  "py_to_int (JFloat f) =
     (case ext_of_float f of
        EFin q \<Rightarrow> Inr (JInt (trunc_rat q))
      | ENan \<Rightarrow> Inl (ValueError ''cannot convert float NaN to integer'')
      | _ \<Rightarrow> Inl (OverflowError ''cannot convert float infinity to integer''))"
| "py_to_int (JStr s) = sbind (py_int s) (\<lambda>i. Inr (JInt i))"
| "py_to_int v =
     (case as_int v of
        Some i \<Rightarrow> Inr (JInt i)
      | None \<Rightarrow> Inl (TypeError (''int() argument must be a string, a bytes-like object or a real number, not '' @
          quoted (type_name v))))"

fun py_to_float :: "py_lib \<Rightarrow> json \<Rightarrow> exn + json" where
  "py_to_float lib (JStr s) = pl_float_of_str lib s"
| "py_to_float lib v =
     (if is_num v then sbind (as_float v) (\<lambda>f. Inr (JFloat f))
      else Inl (TypeError (''float() argument must be a string or a real number, not '' @ quoted (type_name v))))"

fun py_abs :: "json \<Rightarrow> exn + json" where
  "py_abs (JFloat f) = Inr (JFloat (if float_sign f then neg_float f else f))"
| "py_abs v =
     (case as_int v of
        Some i \<Rightarrow> Inr (JInt \<bar>i\<bar>)
      | None \<Rightarrow> Inl (TypeError (''bad operand type for abs(): '' @ quoted (type_name v))))"

text \<open>\<open>min\<close> and \<open>max\<close>: the first of the extreme items, of several arguments or of one iterable.\<close>

fun extreme :: "string \<Rightarrow> cmpop \<Rightarrow> json \<Rightarrow> json list \<Rightarrow> exn + json" where
  "extreme opname op best [] = Inr best"
| "extreme opname op best (v # vs) =
     sbind (py_ordering opname op v best) (\<lambda>better. extreme opname op (if better then v else best) vs)"

fun iter_items :: "json \<Rightarrow> json list option" where
  "iter_items (JList xs) = Some xs"
| "iter_items (JStr s) = Some (map (\<lambda>c. JStr [c]) s)"
| "iter_items (JDict d) = Some (map (\<lambda>p. JStr (fst p)) d)"
| "iter_items v = None"

definition py_extreme :: "string \<Rightarrow> string \<Rightarrow> cmpop \<Rightarrow> json list \<Rightarrow> exn + json" where
  "py_extreme f opname op args =
     (case args of
        [] \<Rightarrow> Inl (TypeError (f @ '' expected at least 1 argument, got 0''))
      | [v] \<Rightarrow> (case iter_items v of
            None \<Rightarrow> Inl (TypeError (quoted (type_name v) @ '' object is not iterable''))
          | Some [] \<Rightarrow> Inl (ValueError (f @ ''() iterable argument is empty''))
          | Some (x # xs) \<Rightarrow> extreme opname op x xs)
      | x # xs \<Rightarrow> extreme opname op x xs)"

definition allowed_names :: "string list" where
  "allowed_names = [''len'', ''str'', ''int'', ''float'', ''bool'', ''round'', ''abs'', ''min'', ''max'', ''lower'', ''upper'', ''strip'']"

text \<open>\<open>_ALLOWED_FUNCTIONS\<close> applied; \<open>str\<close>, \<open>int\<close>, \<open>float\<close> and \<open>bool\<close> also take no argument.\<close>

definition call_function :: "py_lib \<Rightarrow> string \<Rightarrow> json list \<Rightarrow> exn + json" where
  "call_function lib f args =
     (if f = ''round'' then pl_round lib args
      else if f = ''min'' then py_extreme ''min'' ''<'' CLt args
      else if f = ''max'' then py_extreme ''max'' ''>'' CGt args
      else (case args of
          [v] \<Rightarrow>
            if f = ''len'' then py_len v
            else if f = ''str'' then Inr (JStr (py_str v))
            else if f = ''int'' then py_to_int v
            else if f = ''float'' then py_to_float lib v
            else if f = ''bool'' then Inr (JBool (truthy v))
            else if f = ''abs'' then py_abs v
            else if f = ''lower'' then Inr (JStr (lower_str (py_str v)))
            else if f = ''upper'' then Inr (JStr (pl_upper lib (py_str v)))
            else Inr (JStr (strip_ws (py_str v)))
        | [] \<Rightarrow>
            if f = ''str'' then Inr (JStr []) else if f = ''int'' then Inr (JInt 0)
            else if f = ''float'' then Inr (JFloat (FNum False 0 0)) else if f = ''bool'' then Inr (JBool False)
            else Inl (arity_error f args)
        | _ \<Rightarrow> Inl (arity_error f args)))"

section \<open>Evaluation\<close>

definition unhashable :: "json \<Rightarrow> exn" where
  "unhashable v = TypeError (''unhashable type: '' @ quoted (type_name v))"

fun py_subscript :: "json \<Rightarrow> json \<Rightarrow> exn + json" where
  "py_subscript (JDict d) i =
     (case i of
        JStr k \<Rightarrow> (case dict_get d k of Some v \<Rightarrow> Inr v | None \<Rightarrow> Inl (KeyError k))
      | JList xs \<Rightarrow> Inl (unhashable i)
      | JDict e \<Rightarrow> Inl (unhashable i)
      | _ \<Rightarrow> Inl (OtherException ''KeyError'' (py_repr i)))"
| "py_subscript (JList xs) i =
     (case as_int i of
        Some n \<Rightarrow> (case py_index xs n of Some v \<Rightarrow> Inr v | None \<Rightarrow> Inl (IndexError ''list index out of range''))
      | None \<Rightarrow> Inl (TypeError (''list indices must be integers or slices, not '' @ type_name i)))"
| "py_subscript (JStr s) i =
     (case as_int i of
        Some n \<Rightarrow> (case py_index s n of Some c \<Rightarrow> Inr (JStr [c]) | None \<Rightarrow> Inl (IndexError ''string index out of range''))
      | None \<Rightarrow> Inl (TypeError (''string indices must be integers, not '' @ quoted (type_name i))))"
| "py_subscript v i = Inl (TypeError (quoted (type_name v) @ '' object is not subscriptable''))"

definition subscript_expr :: "json \<Rightarrow> json \<Rightarrow> exn + json" where
  "subscript_expr base i =
     (case py_subscript base i of
        Inr v \<Rightarrow> Inr v
      | Inl e \<Rightarrow> Inl (ExpressionError (''subscript failed: '' @ exn_str e)))"

definition attribute_expr :: "json \<Rightarrow> string \<Rightarrow> exn + json" where
  "attribute_expr base attr =
     (case base of
        JDict d \<Rightarrow> Inr (case dict_get d attr of Some v \<Rightarrow> v | None \<Rightarrow> JNull)
      | _ \<Rightarrow> Inl (ExpressionError (''attribute access '' @ quoted (CHR ''.'' # attr) @ '' is only allowed on objects (dicts)'')))"

fun unary_expr :: "un_op \<Rightarrow> json \<Rightarrow> exn + json" where
  "unary_expr OUSub v =
     (case v of
        JFloat f \<Rightarrow> Inr (JFloat (neg_float f))
      | _ \<Rightarrow> (case as_int v of
          Some i \<Rightarrow> Inr (JInt (- i))
        | None \<Rightarrow> Inl (TypeError (''bad operand type for unary -: '' @ quoted (type_name v)))))"
| "unary_expr OUAdd v =
     (case v of
        JFloat f \<Rightarrow> Inr v
      | _ \<Rightarrow> (case as_int v of
          Some i \<Rightarrow> Inr (JInt i)
        | None \<Rightarrow> Inl (TypeError (''bad operand type for unary +: '' @ quoted (type_name v)))))"
| "unary_expr ONot v = Inr (JBool (\<not> truthy v))"
| "unary_expr (OUnOther n) v = Inl (ExpressionError (''operator '' @ n @ '' is not allowed''))"

definition not_allowed_call :: exn where
  "not_allowed_call = ExpressionError (''only these functions are allowed: '' @ join_with '', '' (sort allowed_names))"

definition bin_op_name :: "bin_op \<Rightarrow> string" where
  "bin_op_name op = (case op of OBinOther n \<Rightarrow> n | _ \<Rightarrow> [])"

definition cmp_op_name :: "cmp_op \<Rightarrow> string" where
  "cmp_op_name op = (case op of OCmpOther n \<Rightarrow> n | _ \<Rightarrow> [])"

fun evaluate :: "py_lib \<Rightarrow> record_t \<Rightarrow> expr \<Rightarrow> exn + json"
  and eval_bool :: "py_lib \<Rightarrow> record_t \<Rightarrow> bool_op \<Rightarrow> json \<Rightarrow> expr list \<Rightarrow> exn + json"
  and eval_compare :: "py_lib \<Rightarrow> record_t \<Rightarrow> json \<Rightarrow> (cmp_op \<times> expr) list \<Rightarrow> exn + json"
  and eval_list :: "py_lib \<Rightarrow> record_t \<Rightarrow> expr list \<Rightarrow> exn + json list" where
  "evaluate lib r (EConst v) = Inr v"
| "evaluate lib r (EBadConst t) = Inl (ExpressionError (''literal '' @ t @ '' is not allowed''))"
| "evaluate lib r (EName x) = Inr (case dict_get r x of Some v \<Rightarrow> v | None \<Rightarrow> JNull)"
| "evaluate lib r (EAttr e a) = sbind (evaluate lib r e) (\<lambda>b. attribute_expr b a)"
| "evaluate lib r (ESubscript e i) =
     sbind (evaluate lib r e) (\<lambda>b. sbind (evaluate lib r i) (subscript_expr b))"
| "evaluate lib r (EBin op a b) =
     (case binop_handler lib op of
        None \<Rightarrow> Inl (ExpressionError (''operator '' @ bin_op_name op @ '' is not allowed''))
      | Some h \<Rightarrow> sbind (evaluate lib r a) (\<lambda>x. sbind (evaluate lib r b) (h x)))"
| "evaluate lib r (EUn op a) = sbind (evaluate lib r a) (unary_expr op)"
| "evaluate lib r (EBool op es) = eval_bool lib r op (JBool (op = OAnd)) es"
| "evaluate lib r (ECompare e cs) = sbind (evaluate lib r e) (\<lambda>left. eval_compare lib r left cs)"
| "evaluate lib r (EIf t a b) =
     sbind (evaluate lib r t) (\<lambda>c. if truthy c then evaluate lib r a else evaluate lib r b)"
| "evaluate lib r (ECall f args keywords) =
     (case f of
        None \<Rightarrow> Inl not_allowed_call
      | Some f \<Rightarrow>
          if f \<notin> set allowed_names then Inl not_allowed_call
          else if keywords then Inl (ExpressionError ''keyword arguments are not allowed'')
          else sbind (eval_list lib r args) (call_function lib f))"
| "evaluate lib r (EList es) = sbind (eval_list lib r es) (\<lambda>vs. Inr (JList vs))"
| "evaluate lib r (EOther n) = Inl (ExpressionError (''expression element '' @ n @ '' is not allowed''))"
| "eval_bool lib r op acc [] = Inr acc"
| "eval_bool lib r op acc (e # es) =
     sbind (evaluate lib r e) (\<lambda>v. if truthy v = (op = OOr) then Inr v else eval_bool lib r op v es)"
| "eval_compare lib r left [] = Inr (JBool True)"
| "eval_compare lib r left ((op, e) # cs) =
     (case cmpop_handler op of
        None \<Rightarrow> Inl (ExpressionError (''comparison '' @ cmp_op_name op @ '' is not allowed''))
      | Some h \<Rightarrow> sbind (evaluate lib r e)
          (\<lambda>right. sbind (h left right) (\<lambda>ok. if ok then eval_compare lib r right cs else Inr (JBool False))))"
| "eval_list lib r [] = Inr []"
| "eval_list lib r (e # es) = sbind (evaluate lib r e) (\<lambda>v. sbind (eval_list lib r es) (\<lambda>vs. Inr (v # vs)))"

text \<open>\<open>compile_expression\<close>: the parsed tree, or the \<open>ExpressionError\<close> of a syntax error.\<close>

definition compile_expression :: "py_lib \<Rightarrow> string \<Rightarrow> exn + expr" where
  "compile_expression lib src =
     (case pl_parse lib src of
        Inl m \<Rightarrow> Inl (ExpressionError (''invalid expression '' @ repr_str src @ '': '' @ m))
      | Inr e \<Rightarrow> Inr e)"

section \<open>What an expression reads\<close>

fun names :: "expr \<Rightarrow> string set" where
  "names (EName x) = {x}"
| "names (EAttr e a) = names e"
| "names (ESubscript e i) = names e \<union> names i"
| "names (EBin op a b) = names a \<union> names b"
| "names (EUn op a) = names a"
| "names (EBool op es) = \<Union> (set (map names es))"
| "names (ECompare e cs) = names e \<union> \<Union> (set (map (\<lambda>c. names (snd c)) cs))"
| "names (EIf t a b) = names t \<union> names a \<union> names b"
| "names (ECall f args kw) = \<Union> (set (map names args))"
| "names (EList es) = \<Union> (set (map names es))"
| "names e = {}"

lemma evaluate_frame_all:
  "(\<And>x. x \<in> names e \<Longrightarrow> dict_get r x = dict_get r' x) \<Longrightarrow> evaluate lib r e = evaluate lib r' e"
  "(\<And>x. x \<in> \<Union> (set (map names es)) \<Longrightarrow> dict_get r x = dict_get r' x) \<Longrightarrow> eval_bool lib r op acc es = eval_bool lib r' op acc es"
  "(\<And>x. x \<in> \<Union> (set (map (\<lambda>c. names (snd c)) cs)) \<Longrightarrow> dict_get r x = dict_get r' x) \<Longrightarrow>
     eval_compare lib r left cs = eval_compare lib r' left cs"
  "(\<And>x. x \<in> \<Union> (set (map names es2)) \<Longrightarrow> dict_get r x = dict_get r' x) \<Longrightarrow> eval_list lib r es2 = eval_list lib r' es2"
proof (induction lib r e and lib r op acc es and lib r left cs and lib r es2
    rule: evaluate_eval_bool_eval_compare_eval_list.induct)
  case (5 lib r e i)
  then have "evaluate lib r e = evaluate lib r' e" by simp
  with 5 show ?case by (cases "evaluate lib r' e") auto
next
  case (6 lib r op a b)
  show ?case
  proof (cases "binop_handler lib op")
    case (Some h)
    with 6 have "evaluate lib r a = evaluate lib r' a" by simp
    with 6 Some show ?thesis by (cases "evaluate lib r' a") auto
  qed simp
next
  case (9 lib r e cs)
  then have "evaluate lib r e = evaluate lib r' e" by simp
  with 9 show ?case by (cases "evaluate lib r' e") auto
next
  case (10 lib r t a b)
  then have "evaluate lib r t = evaluate lib r' t" by simp
  with 10 show ?case by (cases "evaluate lib r' t") auto
next
  case (15 lib r op acc e es)
  then have "evaluate lib r e = evaluate lib r' e" by simp
  with 15 show ?case by (cases "evaluate lib r' e") auto
next
  case (17 lib r left op e cs)
  show ?case
  proof (cases "cmpop_handler op")
    case (Some h)
    with 17 have e: "evaluate lib r e = evaluate lib r' e" by simp
    show ?thesis
    proof (cases "evaluate lib r' e")
      case (Inr v)
      with 17 Some e show ?thesis by (cases "h left v") auto
    qed (simp add: Some e)
  qed simp
next
  case (19 lib r e es)
  then have "evaluate lib r e = evaluate lib r' e" by simp
  with 19 show ?case by (cases "evaluate lib r' e") auto
next
  case (11 lib r f args kw)
  then show ?case by (cases f) auto
qed auto

text \<open>
  C20. A computed field depends only on the fields its expression names. Whatever the expression, two
  records that agree on the top-level names it mentions give the same value or the same error, so an
  expression cannot observe any other field, nor anything outside the record.
\<close>

theorem evaluate_frame:
  assumes "\<forall>x \<in> names e. dict_get r x = dict_get r' x"
  shows "evaluate lib r e = evaluate lib r' e"
  using assms by (intro evaluate_frame_all) blast

definition demo_lib :: py_lib where
  "demo_lib = \<lparr>pl_parse = (\<lambda>s. Inl ''invalid syntax''), pl_search = (\<lambda>p s. Inr (substring p s)),
     pl_float_op = (\<lambda>op a b. Inr (JFloat FNan)), pl_format = (\<lambda>s v. Inr (JStr s)),
     pl_float_of_str = (\<lambda>s. Inl (ValueError s)), pl_round = (\<lambda>args. Inr JNull), pl_upper = (\<lambda>s. s)\<rparr>"

theorem evaluate_frame_witness:
  "evaluate demo_lib [(''a'', JInt 3)] (EBin OMult (EName ''a'') (EConst (JInt 2))) = Inr (JInt 6) \<and>
   evaluate demo_lib [(''b'', JInt 9), (''a'', JInt 3)] (EBin OMult (EName ''a'') (EConst (JInt 2))) = Inr (JInt 6)"
proof -
  have "evaluate demo_lib [(''a'', JInt 3)] (EBin OMult (EName ''a'') (EConst (JInt 2))) =
    evaluate demo_lib [(''b'', JInt 9), (''a'', JInt 3)] (EBin OMult (EName ''a'') (EConst (JInt 2)))"
    by (rule evaluate_frame) simp
  moreover have "evaluate demo_lib [(''a'', JInt 3)] (EBin OMult (EName ''a'') (EConst (JInt 2))) = Inr (JInt 6)"
    by code_simp
  ultimately show ?thesis by simp
qed

end
