(* ===== verification/Http_Client.thy ===== *)
theory Http_Client
  imports Ssrf Expression
begin

text \<open>
  \<open>etl_core/http_client.py\<close>: authentication, the rate limiter, the classification of failures, and the retry
  loop around one logical request.

  The network is a parameter: \<open>net k\<close> is what the client gives for the \<open>k\<close>-th request of the node, a response
  or an exception. An exception is an object with the answers to the \<open>isinstance\<close> questions the code asks, and
  with its \<open>__cause__\<close> and \<open>__context__\<close>, which are addresses into a store of exceptions, so that chains may be
  cyclic. Times are Python floats, and waiting is recorded as an event.
\<close>

section \<open>Configuration\<close>

datatype auth_type = ABearer | AApiKey | ABasic
datatype auth_location = LHeader | LQuery

record auth_config =
  au_type :: auth_type
  au_secret_ref :: string
  au_name :: string
  au_location :: auth_location
  au_username :: "string option"

record retry_config =
  rt_max :: nat
  rt_backoff :: pyfloat

definition default_retry :: retry_config where
  "default_retry = \<lparr>rt_max = 0, rt_backoff = FNum False 1 (- 1)\<rparr>"

datatype page_type = PCursor | POffset | PPage

record pagination_config =
  pg_type :: page_type
  pg_items_path :: "string option"
  pg_cursor_path :: "string option"
  pg_cursor_param :: "string option"
  pg_offset_param :: string
  pg_limit_param :: "string option"
  pg_limit :: "nat option"
  pg_page_param :: string
  pg_start_page :: int
  pg_page_size :: "nat option"
  pg_max_pages :: nat

definition non_empty :: "string option \<Rightarrow> bool" where
  "non_empty s \<longleftrightarrow> (case s of None \<Rightarrow> False | Some t \<Rightarrow> t \<noteq> [])"

definition pagination_validators :: "pagination_config \<Rightarrow> config_errors + pagination_config" where
  "pagination_validators pg =
     (if pg_type pg = PCursor \<and> \<not> (non_empty (pg_cursor_path pg) \<and> non_empty (pg_cursor_param pg))
      then Inl [([], ''Value error, cursor pagination requires cursor_path and cursor_param'')]
      else Inr pg)"

section \<open>Authentication\<close>

definition apply_auth :: "auth_config \<Rightarrow> string \<Rightarrow> string dict \<times> string dict" where
  "apply_auth auth secret =
     (case au_type auth of
        ABearer \<Rightarrow> ([(''Authorization'', ''Bearer '' @ secret)], [])
      | AApiKey \<Rightarrow>
          (case au_location auth of
             LHeader \<Rightarrow> ([(au_name auth, secret)], [])
           | LQuery \<Rightarrow> ([], [(au_name auth, secret)]))
      | ABasic \<Rightarrow>
          (let userpass = (case au_username auth of Some u \<Rightarrow> u @ '':'' @ secret | None \<Rightarrow> secret)
           in ([(''Authorization'', ''Basic '' @ b64encode (utf8 userpass))], [])))"

section \<open>The rate limiter\<close>

record rate_limiter =
  rl_interval :: pyfloat
  rl_next_slot :: pyfloat

definition new_limiter :: "pyfloat \<Rightarrow> exn + rate_limiter" where
  "new_limiter rps = sbind (float_div (FNum False 1 0) rps) (\<lambda>i. Inr \<lparr>rl_interval = i, rl_next_slot = FNum False 0 0\<rparr>)"

text \<open>\<open>max(a, b)\<close> keeps the first unless the second is greater.\<close>

definition float_max :: "pyfloat \<Rightarrow> pyfloat \<Rightarrow> pyfloat" where
  "float_max a b = (if ext_lt (ext_of_float a) (ext_of_float b) then b else a)"

text \<open>The critical section of \<open>acquire\<close> at clock value \<open>now\<close>: the slot it takes; the caller then waits until the slot.\<close>

definition take_slot :: "pyfloat \<Rightarrow> rate_limiter \<Rightarrow> pyfloat \<times> rate_limiter" where
  "take_slot now rl =
     (let slot = float_max now (rl_next_slot rl)
      in (slot, rl\<lparr>rl_next_slot := float_add slot (rl_interval rl)\<rparr>))"

definition acquire_delay :: "pyfloat \<Rightarrow> pyfloat \<Rightarrow> pyfloat option" where
  "acquire_delay now slot =
     (let delay = float_add slot (neg_float now)
      in if ext_lt (EFin 0) (ext_of_float delay) then Some delay else None)"

text \<open>Concurrent callers pass the lock one after the other; \<open>nows\<close> are the clock values they read.\<close>

fun take_slots :: "pyfloat list \<Rightarrow> rate_limiter \<Rightarrow> pyfloat list" where
  "take_slots [] rl = []"
| "take_slots (now # nows) rl = (case take_slot now rl of (slot, rl') \<Rightarrow> slot # take_slots nows rl')"

text \<open>\<open>RunContext.rate_limiter\<close>: one limiter per node and run.\<close>

definition limiter_of :: "string \<Rightarrow> pyfloat \<Rightarrow> rate_limiter dict \<Rightarrow> exn + (rate_limiter \<times> rate_limiter dict)" where
  "limiter_of node_id rps rls =
     (case dict_get rls node_id of
        Some rl \<Rightarrow> Inr (rl, rls)
      | None \<Rightarrow> sbind (new_limiter rps) (\<lambda>rl. Inr (rl, dict_set node_id rl rls)))"

section \<open>Classification\<close>

record exc_obj =
  eo_name :: string
  eo_text :: string
  eo_timeout :: bool
  eo_gaierror :: bool
  eo_ssl :: bool
  eo_transport :: bool
  eo_http_or_os :: bool
  eo_ssrf :: bool
  eo_cause :: "nat option"
  eo_context :: "nat option"

type_synonym exc_store = "(nat \<times> exc_obj) list"

definition next_cause :: "exc_obj \<Rightarrow> nat option" where
  "next_cause x = (if eo_cause x \<noteq> None then eo_cause x else eo_context x)"

lemma unseen_less:
  assumes "dict_get store i = Some x" and "i \<notin> set seen"
  shows "card (fst ` set store - set (i # seen)) < card (fst ` set store - set seen)"
proof (rule psubset_card_mono)
  have "i \<in> fst ` set store" using map_of_SomeD [OF assms(1)] by force
  with assms(2) show "fst ` set store - set (i # seen) \<subset> fst ` set store - set seen" by auto
qed simp

text \<open>The walk along the chain of causes, which stops at an exception it has seen.\<close>

function walk_causes :: "exc_store \<Rightarrow> nat list \<Rightarrow> nat option \<Rightarrow> error_category option" where
  "walk_causes store seen None = None"
| "walk_causes store seen (Some i) =
     (if i \<in> set seen then None
      else case dict_get store i of
          None \<Rightarrow> None
        | Some x \<Rightarrow>
            if eo_gaierror x then Some DNS
            else if eo_ssl x then Some TLS
            else walk_causes store (i # seen) (next_cause x))"
  by pat_completeness auto
termination
  by (relation "measure (\<lambda>(store, seen, i). card (fst ` set store - set seen))") (auto dest: unseen_less)

definition categorize_exception :: "exc_store \<Rightarrow> nat \<Rightarrow> exc_obj \<Rightarrow> error_category" where
  "categorize_exception store i x =
     (if eo_timeout x then TIMEOUT
      else case walk_causes store [] (Some i) of
          Some c \<Rightarrow> c
        | None \<Rightarrow> if eo_transport x \<or> eo_http_or_os x then NETWORK else UNKNOWN)"

definition RETRYABLE_STATUS_MIN :: int where "RETRYABLE_STATUS_MIN = 500"
definition RATE_LIMIT_STATUS :: int where "RATE_LIMIT_STATUS = 429"

definition categorize_status :: "int \<Rightarrow> error_category" where
  "categorize_status status =
     (if status = 401 \<or> status = 403 then AUTH
      else if status = RATE_LIMIT_STATUS then RATE_LIMIT else HTTP_STATUS)"

definition is_retryable_status :: "int \<Rightarrow> bool" where
  "is_retryable_status status \<longleftrightarrow> status = RATE_LIMIT_STATUS \<or> RETRYABLE_STATUS_MIN \<le> status"

section \<open>One logical request\<close>

record response =
  re_status :: int
  re_reason :: string
  re_retry_after :: "string option"
  re_empty :: bool
  re_json :: "string + json"

datatype net_result = Raised nat | Responded response

record request_failure =
  rf_category :: error_category
  rf_message :: string
  rf_http_status :: "int option"
  rf_attempts :: nat

datatype http_event = Acquire | Request nat | OnRetry nat string | Sleep pyfloat

definition retry_after_seconds :: "(string \<Rightarrow> pyfloat option) \<Rightarrow> response \<Rightarrow> pyfloat option" where
  "retry_after_seconds float_of r =
     (case re_retry_after r of
        None \<Rightarrow> None
      | Some v \<Rightarrow> map_option (\<lambda>f. float_max (FNum False 0 0) f) (float_of v))"

definition backoff_delay :: "retry_config \<Rightarrow> nat \<Rightarrow> pyfloat" where
  "backoff_delay retry attempts = float_mult (rt_backoff retry) (to_float (2 ^ (attempts - 1)))"

definition status_message :: "response \<Rightarrow> string" where
  "status_message r = strip_ws (''HTTP '' @ int_str (re_status r) @ '' '' @ re_reason r)"

text \<open>What the loop does with the outcome of one attempt: end, or wait and try again.\<close>

datatype verdict = Fail request_failure | Success response | Again string pyfloat

definition judge_exception :: "exc_store \<Rightarrow> retry_config \<Rightarrow> nat \<Rightarrow> nat \<Rightarrow> exc_obj \<Rightarrow> verdict" where
  "judge_exception store retry attempts i x =
     (if eo_ssrf x then
        Fail \<lparr>rf_category = CONFIG, rf_message = eo_text x, rf_http_status = None, rf_attempts = attempts\<rparr>
      else if attempts \<le> rt_max retry \<and> eo_transport x then
        Again (eo_name x @ '': '' @ eo_text x) (backoff_delay retry attempts)
      else
        Fail \<lparr>rf_category = categorize_exception store i x,
              rf_message = ''request failed: '' @ eo_name x @ '': '' @ eo_text x,
              rf_http_status = None, rf_attempts = attempts\<rparr>)"

definition judge_response :: "(string \<Rightarrow> pyfloat option) \<Rightarrow> retry_config \<Rightarrow> bool \<Rightarrow> nat \<Rightarrow> response \<Rightarrow> verdict" where
  "judge_response float_of retry raise_for_status attempts r =
     (let status = re_status r
      in if 400 \<le> status \<and> is_retryable_status status \<and> attempts \<le> rt_max retry then
           (let delay = backoff_delay retry attempts
            in Again (''HTTP '' @ int_str status)
                 (case retry_after_seconds float_of r of
                    Some ra \<Rightarrow> float_max delay ra
                  | None \<Rightarrow> delay))
         else if raise_for_status \<and> 400 \<le> status then
           Fail \<lparr>rf_category = categorize_status status, rf_message = status_message r,
                 rf_http_status = Some status, rf_attempts = attempts\<rparr>
         else Success r)"

record http_env =
  hv_store :: exc_store
  hv_float_of :: "string \<Rightarrow> pyfloat option"
  hv_net :: "nat \<Rightarrow> net_result"

definition judge :: "http_env \<Rightarrow> retry_config \<Rightarrow> bool \<Rightarrow> nat \<Rightarrow> net_result \<Rightarrow> verdict" where
  "judge env retry raise_for_status attempts res =
     (case res of
        Raised i \<Rightarrow>
          (case dict_get (hv_store env) i of
             Some x \<Rightarrow> judge_exception (hv_store env) retry attempts i x
           | None \<Rightarrow> Fail \<lparr>rf_category = UNKNOWN, rf_message = ''request failed: '', rf_http_status = None,
                         rf_attempts = attempts\<rparr>)
      | Responded r \<Rightarrow> judge_response (hv_float_of env) retry raise_for_status attempts r)"

lemma judge_again: "judge env retry rs attempts res = Again why delay \<Longrightarrow> attempts \<le> rt_max retry"
  by (auto simp: judge_def judge_exception_def judge_response_def Let_def
      split: net_result.splits option.splits if_splits)

text \<open>\<open>sent\<close> is the number of requests the node sent before; \<open>attempts\<close> counts this call's.\<close>

function retry_loop :: "http_env \<Rightarrow> retry_config \<Rightarrow> bool \<Rightarrow> bool \<Rightarrow> nat \<Rightarrow> nat \<Rightarrow>
    (request_failure + (response \<times> nat)) \<times> http_event list" where
  "retry_loop env retry limited raise_for_status sent attempts0 =
     (let attempts = Suc attempts0;
          start = (if limited then [Acquire] else []) @ [Request (sent + attempts0)]
      in case judge env retry raise_for_status attempts (hv_net env (sent + attempts0)) of
          Fail f \<Rightarrow> (Inl f, start)
        | Success r \<Rightarrow> (Inr (r, attempts), start)
        | Again why delay \<Rightarrow>
            (case retry_loop env retry limited raise_for_status sent attempts of
               (res, evs) \<Rightarrow> (res, start @ [OnRetry attempts why, Sleep delay] @ evs)))"
  by pat_completeness auto
termination
  by (relation "measure (\<lambda>(env, retry, limited, rs, sent, attempts0). Suc (rt_max retry) - attempts0)")
    (auto dest: judge_again)

declare retry_loop.simps [simp del]

definition request_with_retry :: "http_env \<Rightarrow> retry_config \<Rightarrow> bool \<Rightarrow> bool \<Rightarrow> nat \<Rightarrow>
    (request_failure + (response \<times> nat)) \<times> http_event list" where
  "request_with_retry env retry limited raise_for_status sent =
     retry_loop env retry limited raise_for_status sent 0"

section \<open>The retry loop\<close>

text \<open>The outcomes worth another attempt, and the requests of a trace.\<close>

definition retryable :: "http_env \<Rightarrow> net_result \<Rightarrow> bool" where
  "retryable env res \<longleftrightarrow>
     (case res of
        Raised i \<Rightarrow> (case dict_get (hv_store env) i of None \<Rightarrow> False | Some x \<Rightarrow> eo_transport x \<and> \<not> eo_ssrf x)
      | Responded r \<Rightarrow> 400 \<le> re_status r \<and> is_retryable_status (re_status r))"

fun requests_of :: "http_event list \<Rightarrow> nat list" where
  "requests_of [] = []"
| "requests_of (Request k # evs) = k # requests_of evs"
| "requests_of (ev # evs) = requests_of evs"

fun sleeps_of :: "http_event list \<Rightarrow> pyfloat list" where
  "sleeps_of [] = []"
| "sleeps_of (Sleep d # evs) = d # sleeps_of evs"
| "sleeps_of (ev # evs) = sleeps_of evs"

lemma requests_of_append [simp]: "requests_of (xs @ ys) = requests_of xs @ requests_of ys"
  by (induction xs rule: requests_of.induct) simp_all

lemma sleeps_of_append [simp]: "sleeps_of (xs @ ys) = sleeps_of xs @ sleeps_of ys"
  by (induction xs rule: sleeps_of.induct) simp_all

lemma judge_cases:
  obtains (fail) f where "judge env retry rs n res = Fail f" "rf_attempts f = n" "\<not> retryable env res \<or> rt_max retry < n"
  | (ok) r where "judge env retry rs n res = Success r" "res = Responded r" "\<not> retryable env res \<or> rt_max retry < n"
      "rs \<Longrightarrow> re_status r < 400"
  | (again) why delay where "judge env retry rs n res = Again why delay" "retryable env res" "n \<le> rt_max retry"
      "\<not> ext_lt (ext_of_float delay) (ext_of_float (backoff_delay retry n))"
proof -
  have asym: "\<not> ext_lt a b" if "ext_lt b a" for a b
    using that by (cases a; cases b) simp_all
  have irrefl: "\<not> ext_lt a a" for a by (cases a) simp_all
  note d = judge_def judge_exception_def judge_response_def retryable_def Let_def float_max_def
  show thesis
  proof (cases "judge env retry rs n res")
    case (Fail f)
    then show thesis
      by (intro fail) (auto simp: d split: net_result.splits option.splits if_splits)
  next
    case (Success r)
    then show thesis
      by (intro ok) (auto simp: d split: net_result.splits option.splits if_splits)
  next
    case (Again why delay)
    then show thesis
      using asym irrefl by (intro again) (auto simp: d split: net_result.splits option.splits if_splits)
  qed
qed

text \<open>What the loop promises from \<open>m\<close> attempts on, \<open>n\<close> being the number of the last one.\<close>

definition retry_spec :: "http_env \<Rightarrow> retry_config \<Rightarrow> bool \<Rightarrow> nat \<Rightarrow> nat \<Rightarrow> nat \<Rightarrow>
    request_failure + (response \<times> nat) \<Rightarrow> http_event list \<Rightarrow> bool" where
  "retry_spec env retry rs sent m n res evs \<longleftrightarrow>
     m < n \<and> n \<le> max (Suc m) (Suc (rt_max retry)) \<and>
     requests_of evs = map (\<lambda>k. sent + k) [m..<n] \<and>
     (\<forall>k. m \<le> k \<and> k < n - 1 \<longrightarrow> retryable env (hv_net env (sent + k))) \<and>
     (retryable env (hv_net env (sent + (n - 1))) \<longrightarrow> rt_max retry < n) \<and>
     list_all2 (\<lambda>d k. \<not> ext_lt (ext_of_float d) (ext_of_float (backoff_delay retry (Suc k)))) (sleeps_of evs) [m..<n - 1] \<and>
     (case res of
        Inl f \<Rightarrow> rf_attempts f = n
      | Inr (r, a) \<Rightarrow> a = n \<and> hv_net env (sent + (n - 1)) = Responded r \<and> (rs \<longrightarrow> re_status r < 400))"

lemma retry_loop_spec:
  "\<exists>n. retry_spec env retry rs sent m n (fst (retry_loop env retry lm rs sent m)) (snd (retry_loop env retry lm rs sent m))"
proof (induction env retry lm rs sent m rule: retry_loop.induct)
  case (1 env retry lm rs sent m)
  note unfold = retry_loop.simps [of env retry lm rs sent m] Let_def
  show ?case
  proof (cases rule: judge_cases [of env retry rs "Suc m" "hv_net env (sent + m)"])
    case (fail f)
    then have "retry_spec env retry rs sent m (Suc m) (fst (retry_loop env retry lm rs sent m)) (snd (retry_loop env retry lm rs sent m))"
      by (auto simp: unfold retry_spec_def)
    then show ?thesis ..
  next
    case (ok r)
    then have "retry_spec env retry rs sent m (Suc m) (fst (retry_loop env retry lm rs sent m)) (snd (retry_loop env retry lm rs sent m))"
      by (auto simp: unfold retry_spec_def)
    then show ?thesis ..
  next
    case (again why delay)
    obtain res evs where rec: "retry_loop env retry lm rs sent (Suc m) = (res, evs)" by fastforce
    from "1.IH" [OF refl refl again(1)] obtain n where n: "retry_spec env retry rs sent (Suc m) n res evs"
      by (auto simp: rec)
    have "Suc m < n" using n by (simp add: retry_spec_def)
    then have "m < n - 1" by linarith
    then have upt: "[m..<n] = m # [Suc m..<n]" "[m..<n - 1] = m # [Suc m..<n - 1]" by (simp_all add: upt_conv_Cons)
    have "retryable env (hv_net env (sent + k))" if "m \<le> k" "k < n - 1" for k
      using n again(2) that unfolding retry_spec_def by (cases "k = m") auto
    then have "retry_spec env retry rs sent m n res
        ((if lm then [Acquire] else []) @ [Request (sent + m), OnRetry (Suc m) why, Sleep delay] @ evs)"
      using n again(3,4) unfolding retry_spec_def upt by simp
    then show ?thesis using again(1) rec by (auto simp: unfold intro!: exI [of _ n])
  qed
qed


section \<open>Causes\<close>

text \<open>The chain of causes as the program could follow it for ever.\<close>

fun nth_cause :: "exc_store \<Rightarrow> nat \<Rightarrow> nat \<Rightarrow> nat option" where
  "nth_cause store i 0 = Some i"
| "nth_cause store i (Suc n) =
     (case nth_cause store i n of
        None \<Rightarrow> None
      | Some j \<Rightarrow> (case dict_get store j of None \<Rightarrow> None | Some x \<Rightarrow> next_cause x))"

definition cause_at :: "exc_store \<Rightarrow> nat \<Rightarrow> nat \<Rightarrow> exc_obj option" where
  "cause_at store i n = (case nth_cause store i n of None \<Rightarrow> None | Some j \<Rightarrow> dict_get store j)"

definition telling :: "exc_obj \<Rightarrow> error_category option" where
  "telling x = (if eo_gaierror x then Some DNS else if eo_ssl x then Some TLS else None)"

definition tells_at :: "exc_store \<Rightarrow> nat \<Rightarrow> nat \<Rightarrow> error_category option" where
  "tells_at store i n = (case cause_at store i n of None \<Rightarrow> None | Some x \<Rightarrow> telling x)"

lemma nth_cause_again: "nth_cause store i a = nth_cause store i b \<Longrightarrow> nth_cause store i (a + k) = nth_cause store i (b + k)"
  by (induction k) simp_all

lemma nth_cause_None: "nth_cause store i n = None \<Longrightarrow> nth_cause store i (n + k) = None"
  by (induction k) simp_all

text \<open>Once an exception comes again, nothing new follows.\<close>

lemma nth_cause_cycle:
  assumes "m < n" and "nth_cause store i m = nth_cause store i n"
  shows "\<exists>k' < n. nth_cause store i k' = nth_cause store i (n + k)"
proof (induction k)
  case 0
  then show ?case using assms by auto
next
  case (Suc k)
  then obtain k' where k': "k' < n" "nth_cause store i k' = nth_cause store i (n + k)" by blast
  then have eq: "nth_cause store i (Suc k') = nth_cause store i (n + Suc k)" by simp
  show ?case
  proof (cases "Suc k' = n")
    case True
    with assms eq show ?thesis by metis
  next
    case False
    with k'(1) eq show ?thesis by (intro exI [of _ "Suc k'"]) auto
  qed
qed

definition first_told :: "exc_store \<Rightarrow> nat \<Rightarrow> nat \<Rightarrow> error_category option \<Rightarrow> bool" where
  "first_told store i n r \<longleftrightarrow>
     (case r of
        None \<Rightarrow> \<forall>k. tells_at store i (n + k) = None
      | Some c \<Rightarrow> \<exists>k. tells_at store i (n + k) = Some c \<and> (\<forall>l < k. tells_at store i (n + l) = None))"

lemma first_told_Suc:
  assumes "tells_at store i n = None" and "first_told store i (Suc n) r"
  shows "first_told store i n r"
proof (cases r)
  case None
  have "tells_at store i (n + k) = None" for k
    using assms None by (cases k) (auto simp: first_told_def)
  with None show ?thesis by (simp add: first_told_def)
next
  case (Some c)
  then obtain k where k: "tells_at store i (Suc n + k) = Some c" "\<forall>l < k. tells_at store i (Suc n + l) = None"
    using assms(2) by (auto simp: first_told_def)
  have "tells_at store i (n + l) = None" if "l < Suc k" for l
    using assms(1) k(2) that by (cases l) auto
  with k(1) Some show ?thesis by (auto simp: first_told_def intro!: exI [of _ "Suc k"])
qed

lemma walk_causes_first:
  assumes "set seen = {j. \<exists>m < n. nth_cause store i m = Some j}" and "\<forall>m < n. tells_at store i m = None"
    and "cur = nth_cause store i n"
  shows "first_told store i n (walk_causes store seen cur)"
  using assms
proof (induction store seen cur arbitrary: n rule: walk_causes.induct)
  case (1 store seen)
  then have "nth_cause store i (n + k) = None" for k using nth_cause_None [of store i n k] by simp
  then show ?case by (simp add: first_told_def tells_at_def cause_at_def)
next
  case (2 store seen j)
  show ?case
  proof (cases "j \<in> set seen")
    case True
    then obtain m where m: "m < n" "nth_cause store i m = nth_cause store i n" using "2.prems"(1,3) by auto
    have "tells_at store i (n + k) = None" for k
    proof -
      obtain k' where "k' < n" "nth_cause store i k' = nth_cause store i (n + k)" using nth_cause_cycle [OF m] by blast
      with "2.prems"(2) show ?thesis by (metis tells_at_def cause_at_def)
    qed
    with True show ?thesis by (simp add: first_told_def)
  next
    case new: False
    show ?thesis
    proof (cases "dict_get store j")
      case None
      have cur: "nth_cause store i n = Some j" using "2.prems"(3) by simp
      then have "nth_cause store i (Suc n) = None" using None by simp
      then have "nth_cause store i (Suc n + k) = None" for k by (rule nth_cause_None)
      then have "tells_at store i (n + k) = None" for k
        using None cur by (cases k) (simp_all add: tells_at_def cause_at_def del: nth_cause.simps)
      with None new show ?thesis by (simp add: first_told_def)
    next
      case (Some x)
      have here: "tells_at store i n = telling x" using Some by (simp add: tells_at_def cause_at_def flip: "2.prems"(3))
      show ?thesis
      proof (cases "telling x")
        case None
        then have x: "\<not> eo_gaierror x" "\<not> eo_ssl x" by (auto simp: telling_def split: if_splits)
        have "first_told store i (Suc n) (walk_causes store (j # seen) (next_cause x))"
        proof (rule "2.IH" [OF new Some x])
          show "set (j # seen) = {j. \<exists>m < Suc n. nth_cause store i m = Some j}"
            using "2.prems"(1,3) by (auto simp: less_Suc_eq)
          show "\<forall>m < Suc n. tells_at store i m = None" using "2.prems"(2) here None by (simp add: less_Suc_eq)
          show "next_cause x = nth_cause store i (Suc n)" using Some by (simp flip: "2.prems"(3))
        qed
        with None here have "first_told store i n (walk_causes store (j # seen) (next_cause x))"
          by (simp add: first_told_Suc)
        with new Some x show ?thesis by simp
      next
        case (Some c)
        with here new \<open>dict_get store j = Some x\<close> show ?thesis
          by (auto simp: first_told_def telling_def intro!: exI [of _ 0] split: if_splits)
      qed
    qed
  qed
qed

text \<open>
  C26. The classification of a failed request looks at the whole chain of causes and always ends, even when
  the chain is cyclic: a timeout is a timeout; otherwise the first exception along the chain that is a
  resolver or a TLS error decides, no matter how deep it lies; otherwise transport and system errors are
  network errors, and everything else is unknown.
\<close>

theorem categorize_exception_chain:
  "\<exists>told. first_told store i 0 told \<and>
     categorize_exception store i x =
       (if eo_timeout x then TIMEOUT
        else (case told of Some c \<Rightarrow> c | None \<Rightarrow> if eo_transport x \<or> eo_http_or_os x then NETWORK else UNKNOWN))"
proof -
  have "first_told store i 0 (walk_causes store [] (Some i))" by (rule walk_causes_first) simp_all
  then show ?thesis by (auto simp: categorize_exception_def)
qed

end
