(* ===== verification/Rate_Limiter.thy ===== *)
theory Rate_Limiter
  imports Http_Client
begin

text \<open>
  The rate limiter of \<open>etl_core/http_client.py\<close> under floating-point arithmetic: an error bound for the
  rounding of \<^const>\<open>to_float\<close>, and the spacing of the slots that follows from it.
\<close>

section \<open>Floating-point error\<close>

lemma pow2_powi: "pow2 e = 2 powi e"
  by (simp add: pow2_def power_int_def inverse_eq_divide power_one_over)

lemma bit_len_bounds: "0 < n \<Longrightarrow> 0 < bit_len n \<and> 2 ^ (bit_len n - 1) \<le> n \<and> n < 2 ^ bit_len n"
proof (induction n rule: bit_len.induct)
  case (1 n)
  show ?case
  proof (cases "n div 2 = 0")
    case True
    with "1.prems" have "n = 1" by auto
    moreover have "bit_len 1 = 1" by code_simp
    ultimately show ?thesis by simp
  next
    case False
    with "1.IH" "1.prems" have IH: "0 < bit_len (n div 2)" "2 ^ (bit_len (n div 2) - 1) \<le> n div 2" "n div 2 < 2 ^ bit_len (n div 2)"
      by auto
    obtain k where k: "bit_len (n div 2) = Suc k" using IH(1) by (cases "bit_len (n div 2)") auto
    with IH "1.prems" show ?thesis by (auto simp: bit_len.simps [of n])
  qed
qed

lemma pow2_flog2_le:
  assumes "0 < q"
  shows "pow2 (flog2 q) \<le> q"
proof -
  obtain a b where ab: "quotient_of q = (a, b)" by fastforce
  have q: "q = of_int a / of_int b" and b: "0 < b" using quotient_of_div [OF ab] quotient_of_denom_pos [OF ab] by auto
  have a: "0 < a" using assms q b by (simp add: zero_less_divide_iff)
  define ka kb where k: "ka = bit_len (nat a)" "kb = bit_len (nat b)"
  have A: "0 < ka" "2 ^ (ka - 1) \<le> nat a" and B: "nat b < 2 ^ kb"
    using bit_len_bounds [of "nat a"] bit_len_bounds [of "nat b"] a b by (auto simp: k)
  have A': "(2 :: rat) ^ (ka - 1) \<le> of_int a"
  proof -
    have "int (2 ^ (ka - 1)) \<le> a" using A(2) a by linarith
    then have "(of_int (int (2 ^ (ka - 1))) :: rat) \<le> of_int a" by (simp only: of_int_le_iff)
    then show ?thesis by simp
  qed
  have B': "of_int b \<le> (2 :: rat) ^ kb"
  proof -
    have "b \<le> int (2 ^ kb)" using B b by linarith
    then have "(of_int b :: rat) \<le> of_int (int (2 ^ kb))" by (simp only: of_int_le_iff)
    then show ?thesis by simp
  qed
  have e: "int ka - int kb - 1 = int (ka - 1) - int kb" using A(1) by simp
  have "pow2 (int ka - int kb - 1) = 2 powi int (ka - 1) / 2 powi int kb"
    unfolding e pow2_powi by (rule power_int_diff) simp
  also have "\<dots> = 2 ^ (ka - 1) / 2 ^ kb" by (simp only: power_int_of_nat)
  also have "\<dots> \<le> of_int a / of_int b" using A' B' a b by (intro frac_le) auto
  finally have "pow2 (int ka - int kb - 1) \<le> q" using q by simp
  then show ?thesis by (simp add: flog2_def ab k Let_def)
qed

lemma round_half_even_error: "q - 1 / 2 \<le> of_int (round_half_even q)" "of_int (round_half_even q) \<le> q + 1 / 2"
  by (auto simp: round_half_even_def Let_def) linarith+


text \<open>Below \<open>2 ^ 33\<close>, rounding loses less than a millionth.\<close>

definition eps :: rat where
  "eps = 1 / 2 ^ 20"

lemma to_float_error:
  assumes "0 \<le> q" and "q < 2 ^ 33"
  shows "\<exists>v. ext_of_float (to_float q) = EFin v \<and> q - eps \<le> v"
proof (cases "q = 0")
  case False
  then have q: "0 < q" using assms(1) by simp
  define e where "e = max (flog2 q - 52) (- 1074)"
  define m where "m = round_half_even (q / pow2 e)"
  have pos: "0 < pow2 e" by (simp add: pow2_powi)
  have "pow2 (flog2 q) < 2 ^ 33" using pow2_flog2_le [OF q] assms(2) by simp
  then have "(2 :: rat) powi flog2 q < 2 powi 33" by (simp add: pow2_powi)
  then have "flog2 q < 33" by (metis linorder_not_le power_int_increasing one_le_numeral)
  then have "e \<le> - 20" by (simp add: e_def)
  then have "pow2 e \<le> 2 powi (- 20)" unfolding pow2_powi by (intro power_int_increasing) simp_all
  then have small: "pow2 e \<le> eps" by (simp add: eps_def power_int_def power_one_over inverse_eq_divide)
  have "(q / pow2 e - 1 / 2) * pow2 e \<le> of_int m * pow2 e"
    using round_half_even_error(1) [of "q / pow2 e"] pos by (intro mult_right_mono) (simp_all add: m_def)
  then have low: "q - pow2 e / 2 \<le> of_int m * pow2 e" using pos by (simp add: left_diff_distrib)
  have "of_int m * pow2 e \<le> (q / pow2 e + 1 / 2) * pow2 e"
    using round_half_even_error(2) [of "q / pow2 e"] pos by (intro mult_right_mono) (simp_all add: m_def)
  then have high: "of_int m * pow2 e \<le> q + pow2 e / 2" using pos by (simp add: distrib_right)
  have m0: "0 \<le> m"
  proof -
    have "0 \<le> q / pow2 e" using q pos by simp
    then have "- (1 / 2) \<le> (of_int m :: rat)" using round_half_even_error(1) [of "q / pow2 e"] by (simp add: m_def)
    then have "- 1 < (of_int m :: rat)" by simp
    then show ?thesis by (simp only: of_int_less_iff [symmetric, of "- 1" m, where 'a = rat] of_int_minus of_int_1)
  qed
  have "of_int m * pow2 e < 2 ^ 1024"
  proof -
    have "q + pow2 e / 2 < 2 ^ 33 + 1" using assms(2) small by (simp add: eps_def)
    also have "\<dots> \<le> (2 :: rat) ^ 1024" by simp
    finally show ?thesis using high by simp
  qed
  then have "to_float q = FNum False (nat m) e"
    using q by (simp add: to_float_def Let_def e_def [symmetric] m_def [symmetric])
  with low small m0 pos show ?thesis by auto
qed (simp add: to_float_def eps_def)


section \<open>Spacing of the slots\<close>

definition fval :: "pyfloat \<Rightarrow> rat" where
  "fval f = (case ext_of_float f of EFin v \<Rightarrow> v | _ \<Rightarrow> 0)"

definition fin :: "pyfloat \<Rightarrow> bool" where
  "fin f \<longleftrightarrow> (\<exists>v. ext_of_float f = EFin v)"

lemma fin_fval: "fin f \<Longrightarrow> ext_of_float f = EFin (fval f)"
  by (auto simp: fin_def fval_def)

lemma float_add_error:
  assumes "fin a" "fin b" and "0 \<le> fval a" "0 \<le> fval b" "fval a + fval b < 2 ^ 33"
  shows "fin (float_add a b)" "fval a + fval b - eps \<le> fval (float_add a b)"
proof -
  have "float_add a b = to_float (fval a + fval b)" using assms(1,2) by (simp add: float_add_def fin_fval)
  with to_float_error [of "fval a + fval b"] assms(3-5)
  show "fin (float_add a b)" "fval a + fval b - eps \<le> fval (float_add a b)"
    by (auto simp: fin_def fval_def)
qed

lemma float_max_ge: "fin (float_max a b) \<Longrightarrow> fin b \<Longrightarrow> fval b \<le> fval (float_max a b)"
  by (auto simp: float_max_def fin_fval not_less split: if_splits)

text \<open>The slots stay below a time at which the clock is still exact enough.\<close>

definition in_time :: "rate_limiter \<Rightarrow> pyfloat list \<Rightarrow> bool" where
  "in_time rl slots \<longleftrightarrow> fin (rl_interval rl) \<and> 0 \<le> fval (rl_interval rl) \<and>
     (\<forall>s \<in> set slots. fin s \<and> 0 \<le> fval s \<and> fval s + fval (rl_interval rl) < 2 ^ 33)"

lemma take_slots_next:
  assumes "in_time rl (s # take_slots nows (rl\<lparr>rl_next_slot := float_add s (rl_interval rl)\<rparr>))" and "nows = now # rest"
  shows "fval s + (fval (rl_interval rl) - eps) \<le>
    fval (hd (take_slots nows (rl\<lparr>rl_next_slot := float_add s (rl_interval rl)\<rparr>)))"
proof -
  let ?next = "float_add s (rl_interval rl)"
  have s: "fin s" "0 \<le> fval s" "fin (rl_interval rl)" "0 \<le> fval (rl_interval rl)" "fval s + fval (rl_interval rl) < 2 ^ 33"
    using assms(1) by (auto simp: in_time_def)
  have "fin (float_max now ?next)" using assms by (auto simp: in_time_def take_slot_def Let_def)
  from float_max_ge [OF this float_add_error(1) [OF s(1,3,2,4,5)]] float_add_error(2) [OF s(1,3,2,4,5)]
  show ?thesis by (simp add: assms(2) take_slot_def Let_def)
qed

lemma take_slots_spacing:
  assumes "in_time rl (take_slots nows rl)"
  shows "successively (\<lambda>a b. fval a + (fval (rl_interval rl) - eps) \<le> fval b) (take_slots nows rl)"
  using assms
proof (induction nows rl rule: take_slots.induct)
  case (2 now nows rl)
  define s where "s = float_max now (rl_next_slot rl)"
  define rl' where "rl' = rl\<lparr>rl_next_slot := float_add s (rl_interval rl)\<rparr>"
  have step: "take_slot now rl = (s, rl')" by (simp add: take_slot_def Let_def s_def rl'_def)
  then have slots: "take_slots (now # nows) rl = s # take_slots nows rl'" by simp
  have i: "rl_interval rl' = rl_interval rl" by (simp add: rl'_def)
  have "in_time rl' (take_slots nows rl')" using "2.prems" unfolding slots by (simp add: in_time_def i)
  with "2.IH" [OF step [symmetric]] have IH: "successively (\<lambda>a b. fval a + (fval (rl_interval rl) - eps) \<le> fval b) (take_slots nows rl')"
    by (simp add: i)
  show ?case
  proof (cases nows)
    case (Cons n ns)
    with take_slots_next [of rl s nows n ns] "2.prems" [unfolded slots] IH show ?thesis
      unfolding slots by (simp add: rl'_def successively_Cons)
  qed (simp add: step)
qed simp

lemma successively_sum:
  assumes "successively (\<lambda>a b. f a + d \<le> (f b :: rat)) xs" and "i \<le> j" "j < length xs"
  shows "f (xs ! i) + of_nat (j - i) * d \<le> f (xs ! j)"
  using assms(2,3)
proof (induction rule: dec_induct)
  case (step j)
  have "f (xs ! j) + d \<le> f (xs ! Suc j)" using assms(1) step.prems by (simp add: successively_conv_nth)
  with step show ?case by (simp add: Suc_diff_le algebra_simps)
qed simp

text \<open>
  C27. The limiter keeps the rate in spite of rounding. However many callers compete and whenever they come,
  the slots it gives out are spaced: \<open>n\<close> further slots lie at least \<open>n\<close> intervals later, up to a loss of
  \<open>2 ^ -20\<close> seconds per slot through floating-point rounding, for clock values below \<open>2 ^ 33\<close> seconds.
\<close>

theorem rate_limiter_spacing:
  assumes "in_time rl (take_slots nows rl)" and "i \<le> j" and "j < length (take_slots nows rl)"
  shows "fval (take_slots nows rl ! i) + of_nat (j - i) * (fval (rl_interval rl) - eps) \<le> fval (take_slots nows rl ! j)"
  using successively_sum [OF take_slots_spacing [OF assms(1)] assms(2,3)] .

text \<open>A number with a mantissa of at most 53 bits is not rounded.\<close>

lemma to_float_exact:
  assumes q: "q = of_nat m * pow2 e" and m: "0 < m" "m < 2 ^ 53" and e: "- 1074 \<le> e" "e \<le> 900"
  shows "ext_of_float (to_float q) = EFin q"
proof -
  define E where "E = max (flog2 q - 52) (- 1074)"
  have pos: "0 < pow2 k" for k by (simp add: pow2_powi)
  have q0: "0 < q" using q m(1) pos by simp
  have "(of_nat m :: rat) < 2 ^ 53" using m(2) by (metis of_nat_less_iff of_nat_numeral of_nat_power)
  then have q53: "q < 2 powi (53 + e)" using pos [of e] unfolding q pow2_powi by (simp add: power_int_add)
  have "(2 :: rat) powi flog2 q < 2 powi (53 + e)" using pow2_flog2_le [OF q0] q53 by (simp add: pow2_powi)
  then have "flog2 q < 53 + e" by (metis linorder_not_le power_int_increasing one_le_numeral)
  then have "E \<le> e" using e(1) by (simp add: E_def)
  then have "q / pow2 E = of_nat m * 2 ^ nat (e - E)"
    unfolding q pow2_powi using power_int_diff [of "2 :: rat" e E] by (simp add: power_int_of_nat [symmetric])
  then have mant: "q / pow2 E = of_int (int m * 2 ^ nat (e - E))" by simp
  have round: "round_half_even (of_int k) = k" for k by (simp add: round_half_even_def Let_def)
  have whole: "of_int (int m * 2 ^ nat (e - E)) * pow2 E = q" using mant pos [of E] by (metis nonzero_divide_eq_eq less_irrefl)
  have "(2 :: rat) powi (53 + e) \<le> 2 powi 953" using e(2) by (intro power_int_increasing) simp_all
  also have "\<dots> = 2 ^ 953" using power_int_of_nat [of "2 :: rat" 953] by simp
  also have "\<dots> < (2 :: rat) ^ 1024" by (rule power_strict_increasing) simp_all
  finally have "q < 2 ^ 1024" using q53 by simp
  then have "to_float q = FNum False (nat (int m * 2 ^ nat (e - E))) E"
    using q0 mant whole by (simp add: to_float_def Let_def E_def [symmetric] round del: of_int_mult of_int_power of_nat_mult)
  with whole show ?thesis by simp
qed

lemma to_float_half: "0 < m \<Longrightarrow> m < 2 ^ 53 \<Longrightarrow> ext_of_float (to_float (of_nat m / 2)) = EFin (of_nat m / 2)"
  by (rule to_float_exact [of _ m "- 1"]) (simp_all add: pow2_def)

text \<open>Two requests per second, three callers at the same moment and one much later.\<close>

definition demo_limiter :: rate_limiter where
  "demo_limiter = \<lparr>rl_interval = FNum False 1 (- 1), rl_next_slot = FNum False 0 0\<rparr>"

definition demo_nows :: "pyfloat list" where
  "demo_nows = [FNum False 10 0, FNum False 10 0, FNum False 10 0, FNum False 99 0]"

lemma demo_slots:
  "map ext_of_float (take_slots demo_nows demo_limiter) = [EFin 10, EFin (21 / 2), EFin 11, EFin 99]"
  using to_float_half [of 21] to_float_half [of 22] to_float_half [of 23]
  by (simp add: demo_nows_def demo_limiter_def take_slot_def Let_def float_max_def float_add_def pow2_def)

theorem rate_limiter_spacing_witness:
  "map fval (take_slots demo_nows demo_limiter) = [10, 21 / 2, 11, 99] \<and>
   10 + 2 * (1 / 2 - eps) \<le> fval (take_slots demo_nows demo_limiter ! 2)"
proof -
  have len: "length (take_slots demo_nows demo_limiter) = 4"
    using arg_cong [OF demo_slots, of length] by simp
  have vals: "map fval (take_slots demo_nows demo_limiter) = [10, 21 / 2, 11, 99]" "fval (rl_interval demo_limiter) = 1 / 2"
    using demo_slots by (auto simp: fval_def map_eq_Cons_conv demo_limiter_def pow2_def)
  have "fin (rl_interval demo_limiter)" by (simp add: fin_def demo_limiter_def)
  with demo_slots vals(2) have "in_time demo_limiter (take_slots demo_nows demo_limiter)"
    by (auto simp: in_time_def fin_def fval_def map_eq_Cons_conv)
  from rate_limiter_spacing [OF this, of 0 2] len vals show ?thesis
    by (auto simp: map_eq_Cons_conv)
qed

end
