(* ===== verification/Iterator_Node.thy ===== *)
theory Iterator_Node
  imports Run_Context
begin

text \<open>
  \<open>etl_core/nodes/iterator.py\<close>: the value set of an iterator and its standalone run. The parsed
  configuration is a record; the field types and literals are pydantic's, the validators below are the
  module's own.
\<close>

datatype iter_mode = MArray | MRange | MFromUpstream

record range_spec =
  rs_start :: int
  rs_end :: int
  rs_step :: int

record iterator_config =
  ic_mode :: iter_mode
  ic_array :: json
  ic_range :: "range_spec option"
  ic_field :: "string option"
  ic_fan_in :: string
  ic_max_concurrency :: "nat option"

text \<open>\<open>_step_not_zero\<close> and \<open>_check_mode_fields\<close>, which pydantic runs on the parsed fields in this order.\<close>

definition step_not_zero :: "iterator_config \<Rightarrow> config_errors" where
  "step_not_zero cfg =
     (case ic_range cfg of
        Some r \<Rightarrow> if rs_step r = 0 then [([''range'', ''step''], ''Value error, step must not be 0'')] else []
      | None \<Rightarrow> [])"

definition check_mode_fields :: "iterator_config \<Rightarrow> config_errors" where
  "check_mode_fields cfg =
     (if ic_mode cfg = MArray \<and> ic_array cfg = JNull
      then [([], ''Value error, array mode requires an '' @ repr_str ''array'' @ '' value'')]
      else if ic_mode cfg = MRange \<and> ic_range cfg = None
      then [([], ''Value error, range mode requires a '' @ repr_str ''range'' @ '' value'')]
      else [])"

definition iterator_validators :: "iterator_config \<Rightarrow> config_errors + iterator_config" where
  "iterator_validators cfg =
     (if step_not_zero cfg \<noteq> [] then Inl (step_not_zero cfg)
      else if check_mode_fields cfg \<noteq> [] then Inl (check_mode_fields cfg) else Inr cfg)"

definition iterator_required_ports :: "iterator_config \<Rightarrow> string list" where
  "iterator_required_ports cfg = (if ic_mode cfg = MFromUpstream then [''in''] else [])"

text \<open>\<open>list(range(start, end, step))\<close>, with the length CPython computes.\<close>

definition range_length :: "int \<Rightarrow> int \<Rightarrow> int \<Rightarrow> nat" where
  "range_length a b s =
     (if s > 0 \<and> a < b then nat ((b - a - 1) div s + 1)
      else if s < 0 \<and> b < a then nat ((a - b - 1) div (- s) + 1) else 0)"

definition py_range :: "int \<Rightarrow> int \<Rightarrow> int \<Rightarrow> int list" where
  "py_range a b s = map (\<lambda>k. a + int k * s) [0..<range_length a b s]"

definition not_a_list_msg :: "json \<Rightarrow> string" where
  "not_a_list_msg v =
     ''iterator '' @ repr_str ''array'' @ '' must be (or resolve to) a list, got '' @ type_name v"

definition missing_field_msg :: "string \<Rightarrow> nat \<Rightarrow> string" where
  "missing_field_msg f i = ''field '' @ repr_str f @ '' missing from upstream record '' @ nat_str i"

fun extract_field :: "node_ctx \<Rightarrow> string \<Rightarrow> nat \<Rightarrow> records \<Rightarrow> exn + json list" where
  "extract_field ctx f i [] = Inr []"
| "extract_field ctx f i (r # rs) =
     sbind (get_path_opt (JDict r) (split_path f))
       (\<lambda>v. case v of
          None \<Rightarrow> Inl (ctx_err ctx VALIDATION (missing_field_msg f i))
        | Some v \<Rightarrow> sbind (extract_field ctx f (Suc i) rs) (\<lambda>vs. Inr (v # vs)))"

definition input_streams :: "node_inputs \<Rightarrow> records list" where
  "input_streams inputs = (case dict_get inputs ''in'' of None \<Rightarrow> [] | Some ss \<Rightarrow> ss)"

definition iterator_get_values :: "iterator_config \<Rightarrow> node_inputs \<Rightarrow> node_ctx \<Rightarrow> exn + json list" where
  "iterator_get_values cfg inputs ctx =
     (case ic_mode cfg of
        MArray \<Rightarrow>
          (case ic_array cfg of
             JList xs \<Rightarrow> Inr xs
           | v \<Rightarrow> Inl (ctx_err ctx CONFIG (not_a_list_msg v)))
      | MRange \<Rightarrow>
          (case ic_range cfg of
             Some r \<Rightarrow> Inr (map JInt (py_range (rs_start r) (rs_end r) (rs_step r)))
           | None \<Rightarrow> Inl (OtherException ''AssertionError'' []))
      | MFromUpstream \<Rightarrow>
          (case input_streams inputs of
             [] \<Rightarrow> Inl (ctx_err ctx VALIDATION ''from_upstream iterator has no connected input'')
           | rs # _ \<Rightarrow>
               (case ic_field cfg of
                  None \<Rightarrow> Inr (map JDict rs)
                | Some f \<Rightarrow> extract_field ctx f 0 rs)))"

definition iterator_run :: "iterator_config \<Rightarrow> node_inputs \<Rightarrow> node_ctx \<Rightarrow> exn + node_outputs" where
  "iterator_run cfg inputs ctx =
     sbind (iterator_get_values cfg inputs ctx)
       (\<lambda>vs. Inr [(''out'', map (\<lambda>(i, v). [(''value'', v), (''index'', JInt (int i))]) (enumerate 0 vs))])"

section \<open>Ranges\<close>

text \<open>The elements of a range: the arithmetic progression from the start, up to but excluding the end.\<close>

definition in_range :: "int \<Rightarrow> int \<Rightarrow> int \<Rightarrow> nat \<Rightarrow> bool" where
  "in_range a b s k \<longleftrightarrow> (if s > 0 then a + int k * s < b else a + int k * s > b)"

lemma range_length_pos:
  assumes "s > 0"
  shows "k < range_length a b s \<longleftrightarrow> a + int k * s < b"
proof (cases "a < b")
  case True
  have "int k < (b - a - 1) div s + 1 \<longleftrightarrow> int k \<le> (b - a - 1) div s" by simp
  also have "\<dots> \<longleftrightarrow> int k * s \<le> b - a - 1" using assms by (rule le_int_div_iff)
  finally show ?thesis using assms True by (auto simp: range_length_def)
next
  case False
  moreover have "0 \<le> int k * s" using assms by simp
  ultimately have "\<not> a + int k * s < b" by linarith
  with False assms show ?thesis by (simp add: range_length_def)
qed

lemma range_length_neg: "range_length a b s = range_length (- a) (- b) (- s)"
  by (simp add: range_length_def)

lemma range_length_iff: "s \<noteq> 0 \<Longrightarrow> k < range_length a b s \<longleftrightarrow> in_range a b s k"
  using range_length_pos [of s k a b] range_length_pos [of "- s" k "- a" "- b"] range_length_neg [of a b s]
  by (auto simp: in_range_def)

lemma range_validated:
  assumes "iterator_validators cfg = Inr cfg'" and "ic_mode cfg = MRange"
  obtains r where "ic_range cfg = Some r" and "rs_step r \<noteq> 0" and "cfg' = cfg"
proof -
  have v: "step_not_zero cfg = []" "check_mode_fields cfg = []" "cfg' = cfg"
    using assms(1) by (auto simp: iterator_validators_def split: if_splits)
  obtain r where r: "ic_range cfg = Some r"
    using v(2) assms(2) by (cases "ic_range cfg") (simp_all add: check_mode_fields_def)
  with v(1) have "rs_step r \<noteq> 0" by (cases "rs_step r = 0") (simp_all add: step_not_zero_def)
  with r v(3) that show thesis by blast
qed

text \<open>
  C17. The values of a range iterator are exactly the integers \<open>start\<close>, \<open>start + step\<close>, ... that stay below
  the end (above it for a negative step), in this order, for every start, end and non-zero step; a step of
  zero never gets past validation.
\<close>

theorem iterator_range_values:
  assumes "iterator_validators cfg = Inr cfg'" and "ic_mode cfg = MRange"
  shows "\<exists>r n. ic_range cfg = Some r \<and> rs_step r \<noteq> 0 \<and>
    iterator_get_values cfg' inputs ctx = Inr (map (\<lambda>k. JInt (rs_start r + int k * rs_step r)) [0..<n]) \<and>
    (\<forall>k. k < n \<longleftrightarrow> in_range (rs_start r) (rs_end r) (rs_step r) k)"
proof -
  obtain r where r: "ic_range cfg = Some r" "rs_step r \<noteq> 0" "cfg' = cfg"
    by (rule range_validated [OF assms])
  have "iterator_get_values cfg' inputs ctx = Inr (map (\<lambda>k. JInt (rs_start r + int k * rs_step r))
      [0..<range_length (rs_start r) (rs_end r) (rs_step r)])"
    using assms(2) r(1,3) by (simp add: iterator_get_values_def py_range_def)
  with r(1,2) range_length_iff [OF r(2)] show ?thesis by blast
qed

definition demo_range :: iterator_config where
  "demo_range = \<lparr>ic_mode = MRange, ic_array = JNull,
     ic_range = Some \<lparr>rs_start = 10, rs_end = 1, rs_step = - 4\<rparr>, ic_field = None, ic_fan_in = ''concat'',
     ic_max_concurrency = None\<rparr>"

theorem iterator_range_values_witness:
  "iterator_validators demo_range = Inr demo_range \<and>
   iterator_get_values demo_range [] demo_ctx = Inr [JInt 10, JInt 6, JInt 2]"
proof -
  have v: "iterator_validators demo_range = Inr demo_range" "ic_mode demo_range = MRange" by code_simp+
  obtain n where n: "iterator_get_values demo_range [] demo_ctx = Inr (map (\<lambda>k. JInt (10 + int k * (- 4))) [0..<n])"
    "\<forall>k. k < n \<longleftrightarrow> in_range 10 1 (- 4) k"
    using iterator_range_values [OF v, of "[]" demo_ctx] by (auto simp: demo_range_def)
  have "n = 3" using n(2) [rule_format, of 2] n(2) [rule_format, of 3] by (simp add: in_range_def)
  with n(1) v show ?thesis by (simp add: upt_rec)
qed

lemma extract_field_Inl:
  "extract_field ctx f i rs = Inl e \<Longrightarrow> (\<exists>ne. e = NodeExecutionError ne) \<or>
     (\<exists>s \<in> set (split_path f). bad_index s) \<and> (\<exists>m. e = ValueError m)"
proof (induction ctx f i rs rule: extract_field.induct)
  case (2 ctx f i r rs)
  then show ?case
    by (auto simp: sbind_eq_Inl ctx_error_def split: option.splits dest!: get_path_opt_Inl)
qed simp

end
