(* ===== verification/Merge_Node.thy ===== *)
theory Merge_Node
  imports Iterator_Node "HOL-Library.Multiset"
begin

text \<open>
  \<open>etl_core/nodes/merge.py\<close>: concatenation, union and hash join of record streams. The join index is an
  association list in insertion order whose keys are compared by Python equality. Join keys are tuples of
  scalars (containers are replaced by their JSON text), so they always hash; a not-a-number in a key
  matches nothing.
\<close>

datatype merge_strategy = SConcat | SUnion | SJoin
datatype join_how = HInner | HLeft | HOuter

record merge_config =
  mc_strategy :: merge_strategy
  mc_keys :: "string list option"
  mc_how :: join_how
  mc_suffix :: string

definition join_keys :: "merge_config \<Rightarrow> string list" where
  "join_keys cfg = (case mc_keys cfg of None \<Rightarrow> [] | Some ks \<Rightarrow> ks)"

text \<open>\<open>_check_join_fields\<close>\<close>

definition merge_validators :: "merge_config \<Rightarrow> config_errors + merge_config" where
  "merge_validators cfg =
     (if mc_strategy cfg = SJoin \<and> join_keys cfg = []
      then Inl [([], ''Value error, join requires non-empty '' @ repr_str ''keys'')] else Inr cfg)"

definition merge_check_spec :: "merge_config \<Rightarrow> nat dict \<Rightarrow> string list" where
  "merge_check_spec cfg counts =
     (let count = (case dict_get counts ''in'' of None \<Rightarrow> 0 | Some k \<Rightarrow> k)
      in if mc_strategy cfg = SJoin
         then (if count \<noteq> 2 then [''join merge requires exactly 2 inputs, found '' @ nat_str count] else [])
         else (if count < 2 then [''merge requires at least 2 inputs, found '' @ nat_str count] else []))"

definition canonical :: "record_t \<Rightarrow> string" where
  "canonical r = json_dumps True (JDict r)"

section \<open>Join keys\<close>

definition key_part :: "json \<Rightarrow> json" where
  "key_part v =
     (case v of JDict d \<Rightarrow> JStr (canonical d) | JList xs \<Rightarrow> JStr (json_dumps False v) | _ \<Rightarrow> v)"

fun key_of :: "record_t \<Rightarrow> string list \<Rightarrow> exn + json list option" where
  "key_of r [] = Inr (Some [])"
| "key_of r (k # ks) =
     sbind (get_path_opt (JDict r) (split_path k))
       (\<lambda>v. case v of
          None \<Rightarrow> Inr None
        | Some v \<Rightarrow> sbind (key_of r ks) (\<lambda>rest. Inr (map_option (Cons (key_part v)) rest)))"

definition key_eq :: "json list \<Rightarrow> json list \<Rightarrow> bool" where
  "key_eq a b \<longleftrightarrow> list_all2 py_eq a b"

type_synonym join_index = "(json list \<times> records) list"

fun index_add :: "json list \<Rightarrow> record_t \<Rightarrow> join_index \<Rightarrow> join_index" where
  "index_add k r [] = [(k, [r])]"
| "index_add k r ((k', rs) # ix) = (if key_eq k k' then (k', rs @ [r]) # ix else (k', rs) # index_add k r ix)"

fun index_get :: "json list \<Rightarrow> join_index \<Rightarrow> records" where
  "index_get k [] = []"
| "index_get k ((k', rs) # ix) = (if key_eq k k' then rs else index_get k ix)"

fun build_index :: "string list \<Rightarrow> records \<Rightarrow> join_index \<Rightarrow> records \<Rightarrow> exn + join_index \<times> records" where
  "build_index keys [] ix keyless = Inr (ix, keyless)"
| "build_index keys (r # rs) ix keyless =
     sbind (key_of r keys)
       (\<lambda>k. case k of
          None \<Rightarrow> build_index keys rs ix (keyless @ [r])
        | Some k \<Rightarrow> build_index keys rs (index_add k r ix) keyless)"

definition combine_records :: "merge_config \<Rightarrow> record_t \<Rightarrow> record_t \<Rightarrow> record_t" where
  "combine_records cfg l r =
     foldl (\<lambda>acc (f, v).
        if f \<in> set (join_keys cfg) then acc
        else if dict_has acc f then dict_set (f @ mc_suffix cfg) v acc
        else dict_set f v acc) l r"

text \<open>The loop over the left records: the keys it matched, and the output.\<close>

fun probe :: "merge_config \<Rightarrow> join_index \<Rightarrow> records \<Rightarrow> json list list \<Rightarrow> records \<Rightarrow> exn + json list list \<times> records" where
  "probe cfg ix [] matched out = Inr (matched, out)"
| "probe cfg ix (l # ls) matched out =
     sbind (key_of l (join_keys cfg))
       (\<lambda>k. let ms = (case k of None \<Rightarrow> [] | Some k \<Rightarrow> index_get k ix)
            in if ms \<noteq> [] then
                 probe cfg ix ls (the k # matched) (out @ map (combine_records cfg l) ms)
               else probe cfg ix ls matched (if mc_how cfg = HInner then out else out @ [l]))"

definition join_records :: "merge_config \<Rightarrow> records \<Rightarrow> records \<Rightarrow> exn + records" where
  "join_records cfg left right =
     sbind (build_index (join_keys cfg) right [] [])
       (\<lambda>(ix, keyless). sbind (probe cfg ix left [] [])
          (\<lambda>(matched, out). Inr
             (if mc_how cfg = HOuter
              then out @ concat (map snd (filter (\<lambda>e. \<not> list_ex (\<lambda>m. key_eq m (fst e)) matched) ix)) @ keyless
              else out)))"

definition merge_join :: "merge_config \<Rightarrow> records list \<Rightarrow> node_ctx \<Rightarrow> exn + records" where
  "merge_join cfg streams ctx =
     (case streams of
        [left, right] \<Rightarrow> join_records cfg left right
      | _ \<Rightarrow> Inl (ctx_err ctx VALIDATION (''join requires exactly 2 inputs, got '' @ nat_str (length streams))))"

fun union_records :: "string list \<Rightarrow> records \<Rightarrow> records" where
  "union_records seen [] = []"
| "union_records seen (r # rs) =
     (if canonical r \<in> set seen then union_records seen rs
      else r # union_records (canonical r # seen) rs)"

definition merge_run :: "merge_config \<Rightarrow> node_inputs \<Rightarrow> node_ctx \<Rightarrow> node_outputs logged" where
  "merge_run cfg inputs ctx =
     (let streams = input_streams inputs;
          merged = (case mc_strategy cfg of
              SConcat \<Rightarrow> Inr (concat streams)
            | SUnion \<Rightarrow> Inr (union_records [] (concat streams))
            | SJoin \<Rightarrow> merge_join cfg streams ctx)
      in (case merged of
            Inl e \<Rightarrow> (Inl e, [])
          | Inr rs \<Rightarrow> (Inr [(''out'', rs)],
              [ctx_log ctx LInfo (''merged '' @ nat_str (length streams) @ '' input(s) into '' @
                nat_str (length rs) @ '' record(s)'') None])))"

section \<open>Union\<close>

lemma union_records_spec:
  "distinct (map canonical (union_records seen rs)) \<and>
   set (map canonical (union_records seen rs)) = set (map canonical rs) - set seen \<and>
   subseq (union_records seen rs) rs"
proof (induction seen rs rule: union_records.induct)
  case (2 seen r rs)
  then show ?case by (cases "canonical r \<in> set seen") auto
qed simp

section \<open>The hash join is a nested-loop join\<close>

fun scalar :: "json \<Rightarrow> bool" where
  "scalar (JList xs) = False"
| "scalar (JDict d) = False"
| "scalar v = True"

lemma py_eq_scalar_sym: "scalar a \<Longrightarrow> scalar b \<Longrightarrow> py_eq a b \<longleftrightarrow> py_eq b a"
  by (cases a; cases b) (auto simp: ext_eq_sym)

lemma py_eq_num: "num_ext a = Some x \<Longrightarrow> py_eq a b \<longleftrightarrow> (\<exists>y. num_ext b = Some y \<and> ext_eq x y)"
  by (cases a) (auto split: option.splits)

lemma py_eq_scalar_trans: "scalar a \<Longrightarrow> scalar b \<Longrightarrow> scalar c \<Longrightarrow> py_eq a b \<Longrightarrow> py_eq b c \<Longrightarrow> py_eq a c"
proof (cases "num_ext a")
  case None
  assume "scalar a" "py_eq a b" "py_eq b c"
  with None show ?thesis by (cases a) auto
next
  case (Some x)
  assume "py_eq a b" "py_eq b c"
  with Some obtain y z where "num_ext b = Some y" "ext_eq x y" "num_ext c = Some z" "ext_eq y z"
    by (auto simp: py_eq_num)
  with Some show ?thesis by (auto simp: py_eq_num intro: ext_eq_trans)
qed

definition scalars :: "json list \<Rightarrow> bool" where
  "scalars k \<longleftrightarrow> list_all scalar k"

lemma key_eq_sym: "scalars a \<Longrightarrow> scalars b \<Longrightarrow> key_eq a b \<longleftrightarrow> key_eq b a"
  unfolding key_eq_def scalars_def
  by (auto simp: list_all2_conv_all_nth list_all_length py_eq_scalar_sym)

lemma key_eq_trans: "scalars a \<Longrightarrow> scalars b \<Longrightarrow> scalars c \<Longrightarrow> key_eq a b \<Longrightarrow> key_eq b c \<Longrightarrow> key_eq a c"
  unfolding key_eq_def scalars_def list_all2_conv_all_nth list_all_length
  by (auto intro: py_eq_scalar_trans)

lemma key_of_scalars: "key_of r ks = Inr (Some k) \<Longrightarrow> scalars k"
proof (induction r ks arbitrary: k rule: key_of.induct)
  case (2 r f fs)
  have "scalar (key_part v)" for v by (cases v) (simp_all add: key_part_def)
  with 2 show ?case by (auto simp: sbind_eq_Inr scalars_def split: option.splits)
qed (simp add: scalars_def)

text \<open>The key of a record whose key computation does not raise.\<close>

definition rec_key :: "string list \<Rightarrow> record_t \<Rightarrow> json list option" where
  "rec_key keys r = (case key_of r keys of Inr k \<Rightarrow> k | Inl _ \<Rightarrow> None)"

definition matches :: "string list \<Rightarrow> record_t \<Rightarrow> record_t \<Rightarrow> bool" where
  "matches keys l r \<longleftrightarrow>
     (case (rec_key keys l, rec_key keys r) of (Some a, Some b) \<Rightarrow> key_eq a b | _ \<Rightarrow> False)"

text \<open>The reference: every left record against every right record, then the right records nobody matched.\<close>

definition nested_join :: "merge_config \<Rightarrow> records \<Rightarrow> records \<Rightarrow> records" where
  "nested_join cfg left right =
     concat (map (\<lambda>l. let ms = filter (matches (join_keys cfg) l) right
                     in if ms \<noteq> [] then map (combine_records cfg l) ms
                        else if mc_how cfg = HInner then [] else [l]) left)
     @ (if mc_how cfg = HOuter
        then filter (\<lambda>r. \<not> list_ex (\<lambda>l. matches (join_keys cfg) l r) left) right else [])"

text \<open>The index over the right records seen so far, and the ones without a key.\<close>

definition index_inv :: "string list \<Rightarrow> records \<Rightarrow> join_index \<Rightarrow> records \<Rightarrow> bool" where
  "index_inv keys seen ix keyless \<longleftrightarrow>
     (\<forall>k. scalars k \<longrightarrow> index_get k ix = filter (\<lambda>r. \<exists>b. rec_key keys r = Some b \<and> key_eq k b) seen) \<and>
     (\<forall>e \<in> set ix. scalars (fst e)) \<and>
     mset (concat (map snd ix)) + mset keyless = mset seen \<and>
     keyless = filter (\<lambda>r. rec_key keys r = None) seen \<and>
     (\<forall>e \<in> set ix. \<forall>r \<in> set (snd e). \<exists>b. rec_key keys r = Some b \<and>
        (\<forall>k. scalars k \<longrightarrow> key_eq k (fst e) \<longleftrightarrow> key_eq k b))"

lemma index_add_get:
  assumes "scalars k" and "scalars j" and "\<forall>e \<in> set ix. scalars (fst e)"
  shows "index_get j (index_add k r ix) = index_get j ix @ (if key_eq j k then [r] else [])"
  using assms(3)
proof (induction ix)
  case (Cons e ix)
  obtain k' rs where e: "e = (k', rs)" by (cases e)
  with Cons have "scalars k'" by simp
  with assms(1,2) have "key_eq k k' \<Longrightarrow> key_eq j k' \<longleftrightarrow> key_eq j k"
    using key_eq_trans key_eq_sym by blast
  moreover have "key_eq j k' \<Longrightarrow> \<not> key_eq k k' \<Longrightarrow> \<not> key_eq j k"
    using assms(1,2) \<open>scalars k'\<close> key_eq_trans key_eq_sym by blast
  ultimately show ?case using Cons e by auto
qed simp

lemma index_add_mset: "mset (concat (map snd (index_add k r ix))) = mset (concat (map snd ix)) + {#r#}"
  by (induction ix) auto

lemma index_add_keys: "e \<in> set (index_add k r ix) \<Longrightarrow> fst e = k \<or> fst e \<in> fst ` set ix"
  by (induction ix) (auto split: if_splits)

text \<open>An entry of the extended index is old, new, or an old one that grew by a record with an equal key.\<close>

lemma index_add_entry:
  "e \<in> set (index_add k r ix) \<Longrightarrow> e \<in> set ix \<or> e = (k, [r]) \<or> (\<exists>rs. (fst e, rs) \<in> set ix \<and> snd e = rs @ [r] \<and> key_eq k (fst e))"
  by (induction ix) (auto split: if_splits)

lemma index_inv_add:
  assumes inv: "index_inv keys seen ix keyless" and k: "rec_key keys r = Some k" "scalars k"
  shows "index_inv keys (seen @ [r]) (index_add k r ix) keyless"
proof -
  have sc: "\<forall>e \<in> set ix. scalars (fst e)" using inv by (simp add: index_inv_def)
  have entry: "\<exists>b. rec_key keys x = Some b \<and> (\<forall>j. scalars j \<longrightarrow> key_eq j (fst e) \<longleftrightarrow> key_eq j b)"
    if e: "e \<in> set (index_add k r ix)" and x: "x \<in> set (snd e)" for e x
    using index_add_entry [OF e]
  proof (elim disjE exE conjE)
    assume "e \<in> set ix"
    then show ?thesis using inv x by (auto simp: index_inv_def)
  next
    assume "e = (k, [r])"
    then show ?thesis using x k by auto
  next
    fix rs assume rs: "(fst e, rs) \<in> set ix" "snd e = rs @ [r]" "key_eq k (fst e)"
    then have "scalars (fst e)" using sc by force
    with rs(3) k(2) have "key_eq j (fst e) \<longleftrightarrow> key_eq j k" if "scalars j" for j
      using that key_eq_trans key_eq_sym by blast
    moreover have "\<exists>b. rec_key keys x = Some b \<and> (\<forall>j. scalars j \<longrightarrow> key_eq j (fst e) \<longleftrightarrow> key_eq j b)"
      if "x \<in> set rs" using inv rs(1) that by (force simp: index_inv_def)
    ultimately show ?thesis using x rs(2) k(1) by auto
  qed
  show ?thesis
    unfolding index_inv_def
  proof (intro conjI)
    show "\<forall>j. scalars j \<longrightarrow> index_get j (index_add k r ix) =
        filter (\<lambda>r. \<exists>b. rec_key keys r = Some b \<and> key_eq j b) (seen @ [r])"
      using inv k by (simp add: index_add_get [OF k(2) _ sc] index_inv_def)
    show "\<forall>e \<in> set (index_add k r ix). scalars (fst e)" using sc k(2) index_add_keys by fastforce
    show "mset (concat (map snd (index_add k r ix))) + mset keyless = mset (seen @ [r])"
    proof -
      have "mset (concat (map snd ix)) + mset keyless = mset seen"
        using inv unfolding index_inv_def by blast
      then have "mset (concat (map snd ix)) + {#r#} + mset keyless = mset seen + {#r#}"
        by (metis union_assoc union_commute)
      then show ?thesis unfolding index_add_mset mset_append by simp
    qed
    show "keyless = filter (\<lambda>r. rec_key keys r = None) (seen @ [r])" using inv k by (simp add: index_inv_def)
    show "\<forall>e \<in> set (index_add k r ix). \<forall>x \<in> set (snd e). \<exists>b. rec_key keys x = Some b \<and>
        (\<forall>j. scalars j \<longrightarrow> key_eq j (fst e) \<longleftrightarrow> key_eq j b)" using entry by blast
  qed
qed

lemma build_index_inv:
  "build_index keys rs ix keyless = Inr (ix', keyless') \<Longrightarrow> index_inv keys seen ix keyless \<Longrightarrow>
     index_inv keys (seen @ rs) ix' keyless'"
proof (induction keys rs ix keyless arbitrary: seen rule: build_index.induct)
  case (2 keys r rs ix keyless)
  from "2.prems"(1) obtain k where k: "key_of r keys = Inr k" by (auto simp: sbind_eq_Inr)
  show ?case
  proof (cases k)
    case None
    have "index_inv keys (seen @ [r]) ix (keyless @ [r])"
      using "2.prems"(2) k None by (auto simp: index_inv_def rec_key_def)
    with "2.IH"(1) [OF k None] "2.prems"(1) k None show ?thesis by fastforce
  next
    case (Some b)
    have "index_inv keys (seen @ [r]) (index_add b r ix) keyless"
      using "2.prems"(2) k Some by (intro index_inv_add) (auto simp: rec_key_def key_of_scalars)
    with "2.IH"(2) [OF k Some] "2.prems"(1) k Some show ?thesis by fastforce
  qed
qed simp

lemma index_get_matches:
  assumes "index_inv keys right ix keyless" and "key_of l keys = Inr (Some k)"
  shows "index_get k ix = filter (matches keys l) right"
proof -
  have "index_get k ix = filter (\<lambda>r. \<exists>b. rec_key keys r = Some b \<and> key_eq k b) right"
    using assms key_of_scalars by (auto simp: index_inv_def)
  also have "\<dots> = filter (matches keys l) right"
    using assms(2) by (intro filter_cong refl) (auto simp: matches_def rec_key_def [of keys l] split: option.splits)
  finally show ?thesis .
qed

lemma probe_spec:
  assumes "probe cfg ix left matched out = Inr (matched', out')" and inv: "index_inv (join_keys cfg) right ix keyless"
  shows "out' = out @ concat (map (\<lambda>l. let ms = filter (matches (join_keys cfg) l) right
      in if ms \<noteq> [] then map (combine_records cfg l) ms else if mc_how cfg = HInner then [] else [l]) left) \<and>
    set matched' = set matched \<union> {k. \<exists>l \<in> set left. rec_key (join_keys cfg) l = Some k \<and>
      filter (matches (join_keys cfg) l) right \<noteq> []}"
  using assms(1)
proof (induction left arbitrary: matched out)
  case (Cons l left)
  then obtain k where k: "key_of l (join_keys cfg) = Inr k" by (auto simp: sbind_eq_Inr)
  have ms: "(case k of None \<Rightarrow> [] | Some k \<Rightarrow> index_get k ix) = filter (matches (join_keys cfg) l) right"
  proof (cases k)
    case None
    with k show ?thesis by (simp add: matches_def rec_key_def)
  next
    case (Some b)
    with k index_get_matches [OF inv, of l b] show ?thesis by simp
  qed
  have rk: "rec_key (join_keys cfg) l = k" using k by (simp add: rec_key_def)
  show ?case
  proof (cases "filter (matches (join_keys cfg) l) right = []")
    case True
    have "probe cfg ix left matched (if mc_how cfg = HInner then out else out @ [l]) = Inr (matched', out')"
      using Cons.prems unfolding probe.simps k sbind_simps ms Let_def True by simp
    from Cons.IH [OF this] True show ?thesis by auto
  next
    case False
    then obtain b where b: "k = Some b" using ms by (cases k) auto
    have "probe cfg ix left (b # matched) (out @ map (combine_records cfg l) (filter (matches (join_keys cfg) l) right))
        = Inr (matched', out')"
      using Cons.prems False b unfolding probe.simps k sbind_simps ms Let_def by simp
    from Cons.IH [OF this] False b rk show ?thesis by (auto simp: Let_def)
  qed
qed simp

lemma mset_concat_filter:
  assumes "\<And>e r. e \<in> set ix \<Longrightarrow> r \<in> set (snd e) \<Longrightarrow> P e \<longleftrightarrow> Q r"
  shows "mset (concat (map snd (filter P ix))) = filter_mset Q (mset (concat (map snd ix)))"
  using assms
proof (induction ix)
  case (Cons e ix)
  have "filter_mset Q (mset (snd e)) = (if P e then mset (snd e) else {#})"
    using Cons.prems [of e] by (cases "P e") (auto simp: filter_mset_eq_conv filter_empty_conv simp flip: mset_filter)
  with Cons show ?case by auto
qed simp

lemma unmatched_right:
  assumes inv: "index_inv keys right ix keyless"
    and matched: "set matched = {k. \<exists>l \<in> set left. rec_key keys l = Some k \<and> filter (matches keys l) right \<noteq> []}"
    and sc: "\<And>l k. l \<in> set left \<Longrightarrow> rec_key keys l = Some k \<Longrightarrow> scalars k"
  shows "mset (concat (map snd (filter (\<lambda>e. \<not> list_ex (\<lambda>m. key_eq m (fst e)) matched) ix)) @ keyless) =
    mset (filter (\<lambda>r. \<not> list_ex (\<lambda>l. matches keys l r) left) right)"
proof -
  let ?Q = "\<lambda>r. \<not> list_ex (\<lambda>l. matches keys l r) left"
  have parts: "mset (concat (map snd ix)) + mset keyless = mset right" and kl: "keyless = filter (\<lambda>r. rec_key keys r = None) right"
    and ent: "\<And>e r. e \<in> set ix \<Longrightarrow> r \<in> set (snd e) \<Longrightarrow> \<exists>b. rec_key keys r = Some b \<and>
        (\<forall>k. scalars k \<longrightarrow> key_eq k (fst e) \<longleftrightarrow> key_eq k b)"
    using inv by (auto simp: index_inv_def)
  have PQ: "\<not> list_ex (\<lambda>m. key_eq m (fst e)) matched \<longleftrightarrow> ?Q r" if e: "e \<in> set ix" "r \<in> set (snd e)" for e r
  proof -
    obtain b where b: "rec_key keys r = Some b" "\<And>k. scalars k \<Longrightarrow> key_eq k (fst e) \<longleftrightarrow> key_eq k b"
      using ent [OF e] by blast
    have "r \<in># mset right" using e parts by (metis UN_I in_multiset_in_set set_concat set_map union_iff imageI)
    then have r: "r \<in> set right" by simp
    have "list_ex (\<lambda>m. key_eq m (fst e)) matched \<longleftrightarrow> (\<exists>k \<in> set matched. key_eq k (fst e))" by (simp add: list_ex_iff)
    also have "\<dots> \<longleftrightarrow> (\<exists>l \<in> set left. matches keys l r)"
    proof
      assume "\<exists>k \<in> set matched. key_eq k (fst e)"
      then obtain k l where "l \<in> set left" "rec_key keys l = Some k" "key_eq k (fst e)" using matched by auto
      with b sc show "\<exists>l \<in> set left. matches keys l r" by (auto simp: matches_def intro!: bexI [of _ l])
    next
      assume "\<exists>l \<in> set left. matches keys l r"
      then obtain l where l: "l \<in> set left" "matches keys l r" by blast
      then obtain k where k: "rec_key keys l = Some k" "key_eq k b" using b(1) by (auto simp: matches_def split: option.splits)
      have "filter (matches keys l) right \<noteq> []" using r l(2) by (auto simp: filter_empty_conv)
      with k l(1) matched have "k \<in> set matched" by blast
      moreover have "key_eq k (fst e)" using b(2) sc [OF l(1) k(1)] k(2) by blast
      ultimately show "\<exists>k \<in> set matched. key_eq k (fst e)" by blast
    qed
    finally show ?thesis by (simp add: list_ex_iff)
  qed
  have "?Q r" if "r \<in> set keyless" for r using that unfolding kl by (auto simp: list_ex_iff matches_def split: option.splits)
  then have keyless: "filter_mset ?Q (mset keyless) = mset keyless" by (simp add: filter_mset_eq_conv)
  have "mset (concat (map snd (filter (\<lambda>e. \<not> list_ex (\<lambda>m. key_eq m (fst e)) matched) ix)) @ keyless) =
      filter_mset ?Q (mset (concat (map snd ix))) + filter_mset ?Q (mset keyless)"
    unfolding mset_append keyless using mset_concat_filter [OF PQ] by simp
  also have "\<dots> = filter_mset ?Q (mset right)" unfolding parts [symmetric] by simp
  finally show ?thesis by simp
qed

lemma join_records_spec:
  assumes "join_records cfg left right = Inr out"
  shows "mset out = mset (nested_join cfg left right) \<and> (mc_how cfg \<noteq> HOuter \<longrightarrow> out = nested_join cfg left right)"
proof -
  obtain ix keyless where b: "build_index (join_keys cfg) right [] [] = Inr (ix, keyless)"
    using assms by (auto simp: join_records_def sbind_eq_Inr)
  then obtain matched out' where p: "probe cfg ix left [] [] = Inr (matched, out')"
    using assms by (auto simp: join_records_def sbind_eq_Inr)
  have inv: "index_inv (join_keys cfg) right ix keyless"
  proof -
    have "index_inv (join_keys cfg) [] [] []" by (simp add: index_inv_def)
    from build_index_inv [OF b this] show ?thesis by simp
  qed
  note sp = probe_spec [OF p inv]
  have sc: "scalars k" if "rec_key (join_keys cfg) l = Some k" for l k
    using that key_of_scalars by (auto simp: rec_key_def split: sum.splits)
  have out: "out = (if mc_how cfg = HOuter
      then out' @ concat (map snd (filter (\<lambda>e. \<not> list_ex (\<lambda>m. key_eq m (fst e)) matched) ix)) @ keyless else out')"
    using assms b p by (simp add: join_records_def)
  show ?thesis
  proof (cases "mc_how cfg = HOuter")
    case True
    have "mset (concat (map snd (filter (\<lambda>e. \<not> list_ex (\<lambda>m. key_eq m (fst e)) matched) ix)) @ keyless) =
        mset (filter (\<lambda>r. \<not> list_ex (\<lambda>l. matches (join_keys cfg) l r) left) right)"
      using sp sc by (intro unmatched_right [OF inv]) auto
    with True out sp show ?thesis by (simp add: nested_join_def)
  next
    case False
    with out sp show ?thesis by (simp add: nested_join_def)
  qed
qed

section \<open>Properties\<close>

text \<open>
  C18. The hash join computes the relational join. For any two streams, keys, suffix and join kind, if no
  key path is malformed, the output is the one of the nested-loop reference: every left record combined
  with each right record of equal key, unmatched left records kept by left and outer joins, unmatched
  right records kept by outer joins. Inner and left joins also agree with the reference in order; the
  unmatched right records of an outer join may come grouped by key.
\<close>

theorem merge_join_relational:
  assumes "merge_join cfg [left, right] ctx = Inr out"
  shows "mset out = mset (nested_join cfg left right) \<and> (mc_how cfg = HOuter \<or> out = nested_join cfg left right)"
  using join_records_spec [of cfg left right out] assms by (auto simp: merge_join_def)

definition demo_join :: "join_how \<Rightarrow> merge_config" where
  "demo_join how = \<lparr>mc_strategy = SJoin, mc_keys = Some [''id''], mc_how = how, mc_suffix = ''_right''\<rparr>"

theorem merge_join_relational_witness:
  "nested_join (demo_join HLeft) [[(''id'', JInt 1), (''a'', JInt 5)], [(''id'', JInt 2)]]
     [[(''id'', JFloat (FNum False 1 0)), (''a'', JInt 7)]] =
   [[(''id'', JInt 1), (''a'', JInt 5), (''a_right'', JInt 7)], [(''id'', JInt 2)]]"
proof -
  have "merge_join (demo_join HLeft) [[[(''id'', JInt 1), (''a'', JInt 5)], [(''id'', JInt 2)]],
      [[(''id'', JFloat (FNum False 1 0)), (''a'', JInt 7)]]] demo_ctx =
    Inr [[(''id'', JInt 1), (''a'', JInt 5), (''a_right'', JInt 7)], [(''id'', JInt 2)]]"
    by code_simp
  from merge_join_relational [OF this] show ?thesis by (simp add: demo_join_def)
qed


end
