(* ===== verification/Transform_Node.thy ===== *)
theory Transform_Node
  imports Expression Iterator_Node
begin

text \<open>
  \<open>etl_core/nodes/transform.py\<close>: predicates, and the operations select, rename, filter and computed applied
  in order to a stream of records.
\<close>

section \<open>Predicates\<close>

datatype cond_op =
    CEq | CNe | CGtOp | CGte | CLtOp | CLte | CIn | CNotIn | CContains | CRegex | CExists | CNotExists

datatype predicate =
    Condition string cond_op json
  | AllOf "predicate list"
  | AnyOf "predicate list"
  | NotOf predicate

text \<open>A comparison inside \<open>_compare\<close>: a \<open>TypeError\<close> counts as false, any other exception goes on.\<close>

definition catch_type_error :: "exn + bool \<Rightarrow> exn + bool" where
  "catch_type_error r = (case r of Inl (TypeError m) \<Rightarrow> Inr False | _ \<Rightarrow> r)"

fun compare_values :: "py_lib \<Rightarrow> cond_op \<Rightarrow> json \<Rightarrow> json \<Rightarrow> exn + bool" where
  "compare_values lib CEq left right = Inr (py_eq left right)"
| "compare_values lib CNe left right = Inr (\<not> py_eq left right)"
| "compare_values lib CGtOp left right = catch_type_error (py_ordering ''>'' CGt left right)"
| "compare_values lib CGte left right = catch_type_error (py_ordering ''>='' CGe left right)"
| "compare_values lib CLtOp left right = catch_type_error (py_ordering ''<'' CLt left right)"
| "compare_values lib CLte left right = catch_type_error (py_ordering ''<='' CLe left right)"
| "compare_values lib CIn left right = catch_type_error (py_in left right)"
| "compare_values lib CNotIn left right = catch_type_error (sbind (py_in left right) (\<lambda>b. Inr (\<not> b)))"
| "compare_values lib CContains left right = catch_type_error (py_in right left)"
| "compare_values lib CRegex left right = catch_type_error (pl_search lib (py_str right) (py_str left))"
| "compare_values lib CExists left right = Inl (ValueError (''unknown condition op '' @ repr_str ''exists''))"
| "compare_values lib CNotExists left right = Inl (ValueError (''unknown condition op '' @ repr_str ''not_exists''))"

definition eval_condition :: "py_lib \<Rightarrow> string \<Rightarrow> cond_op \<Rightarrow> json \<Rightarrow> record_t \<Rightarrow> exn + bool" where
  "eval_condition lib field op arg r =
     sbind (get_path_opt (JDict r) (split_path field))
       (\<lambda>v. case v of
          None \<Rightarrow> Inr (op = CNotExists)
        | Some v \<Rightarrow>
            if op = CExists then Inr True else if op = CNotExists then Inr False
            else compare_values lib op v arg)"

text \<open>\<open>all\<close> and \<open>any\<close> over a generator: they stop at the first item that decides.\<close>

fun eval_predicate :: "py_lib \<Rightarrow> record_t \<Rightarrow> predicate \<Rightarrow> exn + bool"
  and eval_all :: "py_lib \<Rightarrow> record_t \<Rightarrow> predicate list \<Rightarrow> exn + bool"
  and eval_any :: "py_lib \<Rightarrow> record_t \<Rightarrow> predicate list \<Rightarrow> exn + bool" where
  "eval_predicate lib r (Condition field op arg) = eval_condition lib field op arg r"
| "eval_predicate lib r (AllOf ps) = eval_all lib r ps"
| "eval_predicate lib r (AnyOf ps) = eval_any lib r ps"
| "eval_predicate lib r (NotOf p) = sbind (eval_predicate lib r p) (\<lambda>b. Inr (\<not> b))"
| "eval_all lib r [] = Inr True"
| "eval_all lib r (p # ps) = sbind (eval_predicate lib r p) (\<lambda>b. if b then eval_all lib r ps else Inr False)"
| "eval_any lib r [] = Inr False"
| "eval_any lib r (p # ps) = sbind (eval_predicate lib r p) (\<lambda>b. if b then Inr True else eval_any lib r ps)"

section \<open>Operations\<close>

datatype transform_op =
    SelectOp "string list"
  | RenameOp "string dict"
  | FilterOp predicate
  | ComputedOp string string

fun project :: "string list \<Rightarrow> record_t \<Rightarrow> record_t \<Rightarrow> exn + record_t" where
  "project [] r acc = Inr acc"
| "project (f # fs) r acc =
     sbind (get_path_opt (JDict r) (split_path f))
       (\<lambda>v. project fs r (case v of None \<Rightarrow> acc | Some v \<Rightarrow> dict_set f v acc))"

definition rename_record :: "string dict \<Rightarrow> record_t \<Rightarrow> record_t" where
  "rename_record mapping r =
     dict_of (map (\<lambda>(k, v). ((case dict_get mapping k of Some k' \<Rightarrow> k' | None \<Rightarrow> k), v)) r)"

fun filter_records :: "py_lib \<Rightarrow> predicate \<Rightarrow> records \<Rightarrow> exn + records" where
  "filter_records lib p [] = Inr []"
| "filter_records lib p (r # rs) =
     sbind (eval_predicate lib r p)
       (\<lambda>keep. sbind (filter_records lib p rs) (\<lambda>out. Inr (if keep then r # out else out)))"

definition computed_details :: "string \<Rightarrow> nat \<Rightarrow> json dict option" where
  "computed_details src i = Some [(''expression'', JStr src), (''record_index'', JInt (int i))]"

definition computed_error :: "node_ctx \<Rightarrow> string \<Rightarrow> string \<Rightarrow> nat \<Rightarrow> exn \<Rightarrow> exn" where
  "computed_error ctx target src i e =
     (case e of
        ExpressionError m \<Rightarrow>
          ctx_error ctx TRANSFORM (''computed field '' @ repr_str target @ '' failed: '' @ m)
            None None 1 (computed_details src i)
      | _ \<Rightarrow>
          ctx_error ctx TRANSFORM (''computed field '' @ repr_str target @ '' failed on record '' @ nat_str i @
              '': '' @ exn_type e @ '': '' @ exn_str e)
            None None 1 (computed_details src i))"

fun compute_records :: "py_lib \<Rightarrow> node_ctx \<Rightarrow> string \<Rightarrow> string \<Rightarrow> expr \<Rightarrow> nat \<Rightarrow> records \<Rightarrow> exn + records" where
  "compute_records lib ctx target src e i [] = Inr []"
| "compute_records lib ctx target src e i (r # rs) =
     (case evaluate lib r e of
        Inl x \<Rightarrow> Inl (computed_error ctx target src i x)
      | Inr v \<Rightarrow> sbind (compute_records lib ctx target src e (Suc i) rs) (\<lambda>out. Inr (dict_set target v r # out)))"

fun apply_op :: "py_lib \<Rightarrow> node_ctx \<Rightarrow> transform_op \<Rightarrow> records \<Rightarrow> exn + records" where
  "apply_op lib ctx (SelectOp flds) rs = mapM (\<lambda>r. project flds r []) rs"
| "apply_op lib ctx (RenameOp mapping) rs = Inr (map (rename_record mapping) rs)"
| "apply_op lib ctx (FilterOp p) rs = filter_records lib p rs"
| "apply_op lib ctx (ComputedOp target src) rs =
     (case compile_expression lib src of
        Inl e \<Rightarrow> Inl (ctx_err ctx CONFIG (exn_str e))
      | Inr e \<Rightarrow> compute_records lib ctx target src e 0 rs)"

fun apply_ops :: "py_lib \<Rightarrow> node_ctx \<Rightarrow> transform_op list \<Rightarrow> records \<Rightarrow> exn + records" where
  "apply_ops lib ctx [] rs = Inr rs"
| "apply_ops lib ctx (op # ops) rs = sbind (apply_op lib ctx op rs) (apply_ops lib ctx ops)"

text \<open>\<open>inputs["in"][0]\<close> raises when the port has no stream.\<close>

definition transform_run :: "py_lib \<Rightarrow> transform_op list \<Rightarrow> node_inputs \<Rightarrow> node_ctx \<Rightarrow> node_outputs logged" where
  "transform_run lib ops inputs ctx =
     (case dict_get inputs ''in'' of
        None \<Rightarrow> (Inl (KeyError ''in''), [])
      | Some [] \<Rightarrow> (Inl (IndexError ''list index out of range''), [])
      | Some (rs # _) \<Rightarrow>
          (case apply_ops lib ctx ops rs of
             Inl e \<Rightarrow> (Inl e, [])
           | Inr out \<Rightarrow> (Inr [(''out'', out)],
               [ctx_log ctx LInfo (''transformed to '' @ nat_str (length out) @ '' record(s)'') None])))"

section \<open>Predicates obey the laws of logic\<close>

lemma eval_any_not: "eval_any lib r (map NotOf ps) = sbind (eval_all lib r ps) (\<lambda>b. Inr (\<not> b))"
proof (induction ps)
  case (Cons p ps)
  then show ?case by (cases "eval_predicate lib r p") auto
qed simp

lemma eval_all_not: "eval_all lib r (map NotOf ps) = sbind (eval_any lib r ps) (\<lambda>b. Inr (\<not> b))"
proof (induction ps)
  case (Cons p ps)
  then show ?case by (cases "eval_predicate lib r p") auto
qed simp

section \<open>Operations on records\<close>

lemma project_get:
  "project fs r acc = Inr out \<Longrightarrow> dict_get out k =
     (if k \<in> set fs then (case get_path_opt (JDict r) (split_path k) of Inr (Some v) \<Rightarrow> Some v | _ \<Rightarrow> dict_get acc k)
      else dict_get acc k)"
proof (induction fs arbitrary: acc)
  case (Cons f fs)
  then obtain v where v: "get_path_opt (JDict r) (split_path f) = Inr v" by (auto simp: sbind_eq_Inr)
  with Cons.prems have "project fs r (case v of None \<Rightarrow> acc | Some v \<Rightarrow> dict_set f v acc) = Inr out" by simp
  from Cons.IH [OF this] v show ?case by (cases v) (auto split: sum.splits option.splits)
qed simp

lemma filter_records_subseq: "filter_records lib p rs = Inr out \<Longrightarrow> subseq out rs"
  by (induction rs arbitrary: out) (auto simp: sbind_eq_Inr split: if_splits)

lemma filter_records_exact:
  "filter_records lib p rs = Inr out \<Longrightarrow> out = filter (\<lambda>r. eval_predicate lib r p = Inr True) rs"
  by (induction rs arbitrary: out) (auto simp: sbind_eq_Inr split: if_splits)

lemma compute_records_exact:
  "compute_records lib ctx target src e i rs = Inr out \<Longrightarrow>
     \<exists>vs. length vs = length rs \<and> out = map (\<lambda>(r, v). dict_set target v r) (zip rs vs) \<and>
       (\<forall>k < length rs. evaluate lib (rs ! k) e = Inr (vs ! k))"
proof (induction rs arbitrary: i out)
  case (Cons r rs)
  then obtain v out' where v: "evaluate lib r e = Inr v" "out = dict_set target v r # out'"
    "compute_records lib ctx target src e (Suc i) rs = Inr out'"
    by (auto simp: sbind_eq_Inr split: sum.splits)
  from Cons.IH [OF v(3)] obtain vs where "length vs = length rs"
    "out' = map (\<lambda>(r, v). dict_set target v r) (zip rs vs)" "\<forall>k < length rs. evaluate lib (rs ! k) e = Inr (vs ! k)"
    by blast
  with v show ?case by (intro exI [of _ "v # vs"]) (auto simp: nth_Cons split: nat.splits)
qed simp

text \<open>
  Negation distributes over groups: on every record, \<open>not all\<close> is \<open>any not\<close> and \<open>not any\<close> is \<open>all not\<close>,
  with the same value, the same short-circuit and, for a predicate that raises, the same exception.
\<close>

lemma predicate_de_morgan:
  "eval_predicate lib r (NotOf (AllOf ps)) = eval_predicate lib r (AnyOf (map NotOf ps)) \<and>
   eval_predicate lib r (NotOf (AnyOf ps)) = eval_predicate lib r (AllOf (map NotOf ps))"
  by (simp add: eval_any_not eval_all_not)

text \<open>What one operation does to a stream: which records it keeps, and every field of each record.\<close>

definition op_result :: "py_lib \<Rightarrow> transform_op \<Rightarrow> records \<Rightarrow> records \<Rightarrow> bool" where
  "op_result lib op rs out =
     (case op of
        SelectOp fs \<Rightarrow> length out = length rs \<and>
          (\<forall>i < length rs. \<forall>k. dict_get (out ! i) k =
             (if k \<in> set fs then (case get_path (JDict (rs ! i)) (split_path k) of Inr v \<Rightarrow> Some v | Inl _ \<Rightarrow> None) else None))
      | RenameOp m \<Rightarrow> out = map (rename_record m) rs
      | FilterOp p \<Rightarrow> out = filter (\<lambda>r. eval_predicate lib r p = Inr True) rs
      | ComputedOp t src \<Rightarrow> length out = length rs \<and>
          (\<forall>i < length rs. \<exists>e v. pl_parse lib src = Inr e \<and> evaluate lib (rs ! i) e = Inr v \<and>
             (\<forall>k. dict_get (out ! i) k = (if k = t then Some v else dict_get (rs ! i) k))))"

lemma get_path_opt_case:
  "get_path_opt v ss = Inr w \<Longrightarrow>
     (case get_path v ss of Inr x \<Rightarrow> Some x | Inl _ \<Rightarrow> None) = w"
  using get_path_opt_Some [of v ss] by (cases w) (auto split: sum.splits)

lemma project_total: "project fs r acc = Inr out \<Longrightarrow> f \<in> set fs \<Longrightarrow> \<exists>w. get_path_opt (JDict r) (split_path f) = Inr w"
  by (induction fs arbitrary: acc) (auto simp: sbind_eq_Inr)



end
