(* ===== verification/Api_Source.thy ===== *)
theory Api_Source
  imports Http_Client
begin

text \<open>
  \<open>etl_core/nodes/api_source.py\<close>: the URL with its placeholders filled in, the guard, authentication, and the
  pagination loop around the requests.

  Outside the source: the resolver, the network (the \<open>k\<close>-th request of a node run gives a response or an
  exception, possibly depending on what was requested), the decoding of query strings, httpx's merging of
  parameters into a URL and \<open>float\<close> of a text, all fields of \<open>api_world\<close>. The limiter and the semaphore
  only delay requests and leave no trace here.
\<close>

section \<open>Configuration\<close>

record api_config =
  ac_method :: string
  ac_url :: string
  ac_path_params :: "json dict"
  ac_query_params :: "json dict"
  ac_headers :: "json dict"
  ac_body :: json
  ac_auth :: "auth_config option"
  ac_pagination :: "pagination_config option"
  ac_retry :: retry_config
  ac_rate_limit :: "pyfloat option"
  ac_items_path :: "string option"

definition api_validators :: "api_config \<Rightarrow> config_errors + api_config" where
  "api_validators cfg =
     (case ac_pagination cfg of
        None \<Rightarrow> Inr cfg
      | Some pg \<Rightarrow>
          (case pagination_validators pg of
             Inl errs \<Rightarrow> Inl (map (\<lambda>(loc, m). (''pagination'' # loc, m)) errs)
           | Inr pg \<Rightarrow> Inr cfg))"

record http_request =
  hr_url :: string
  hr_headers :: "string dict"
  hr_params :: "json dict"

record api_world =
  aw_dns :: resolver
  aw_net :: "http_request \<Rightarrow> nat \<Rightarrow> net_result"
  aw_store :: exc_store
  aw_float_of :: "string \<Rightarrow> pyfloat option"
  aw_decode :: "nat list \<Rightarrow> string"
  aw_merge :: "string \<Rightarrow> string dict \<Rightarrow> string"

section \<open>Placeholders\<close>

text \<open>
  \<open>string.Formatter().parse\<close>, one step: the literal text, the field (name, format specification,
  conversion) if one follows, and the rest of the text.
\<close>

definition is_brace :: "char \<Rightarrow> bool" where
  "is_brace c \<longleftrightarrow> c = CHR ''{'' \<or> c = CHR ''}''"

text \<open>The field name ends at a closing brace, a colon or an exclamation mark outside square brackets.\<close>

fun scan_name :: "bool \<Rightarrow> string \<Rightarrow> string \<Rightarrow> exn + (string \<times> char option \<times> string)" where
  "scan_name br acc [] = Inr (rev acc, None, [])"
| "scan_name br acc (c # s) =
     (if br then scan_name (c \<noteq> CHR '']'') (c # acc) s
      else if c = CHR ''{'' then Inl (ValueError (''unexpected '' @ repr_str ''{'' @ '' in field name''))
      else if c = CHR ''['' then scan_name True (c # acc) s
      else if c = CHR ''}'' \<or> c = CHR '':'' \<or> c = CHR ''!'' then Inr (rev acc, Some c, s)
      else scan_name False (c # acc) s)"

fun scan_spec :: "nat \<Rightarrow> string \<Rightarrow> string \<Rightarrow> exn + (string \<times> string)" where
  "scan_spec depth acc [] = Inl (ValueError (''unmatched '' @ repr_str ''{'' @ '' in format spec''))"
| "scan_spec depth acc (c # s) =
     (if c = CHR ''{'' then scan_spec (Suc depth) (c # acc) s
      else if c = CHR ''}'' then
        (if depth \<le> 1 then Inr (rev acc, s) else scan_spec (depth - 1) (c # acc) s)
      else scan_spec depth (c # acc) s)"

type_synonym format_field = "string \<times> string \<times> char option"

definition parse_field :: "string \<Rightarrow> exn + (format_field \<times> string)" where
  "parse_field s =
     sbind (scan_name False [] s) (\<lambda>(name, stop, rest).
       case stop of
         None \<Rightarrow> Inl (ValueError (''expected '' @ repr_str ''}'' @ '' before end of string''))
       | Some c \<Rightarrow>
           if c = CHR ''}'' then Inr ((name, [], None), rest)
           else if c = CHR '':'' then sbind (scan_spec 1 [] rest) (\<lambda>(fmt, rest'). Inr ((name, fmt, None), rest'))
           else (case rest of
               [] \<Rightarrow> Inl (ValueError ''end of string while looking for conversion specifier'')
             | conv # rest1 \<Rightarrow>
                 (case rest1 of
                    [] \<Rightarrow> Inl (ValueError (''unmatched '' @ repr_str ''{'' @ '' in format spec''))
                  | d # rest2 \<Rightarrow>
                      if d = CHR ''}'' then Inr ((name, [], Some conv), rest2)
                      else if d \<noteq> CHR '':'' then Inl (ValueError (''expected '' @ repr_str '':'' @ '' after conversion specifier''))
                      else sbind (scan_spec 1 [] rest2) (\<lambda>(fmt, rest'). Inr ((name, fmt, Some conv), rest')))))"

definition next_markup :: "string \<Rightarrow> exn + (string \<times> format_field option \<times> string)" where
  "next_markup s =
     (let lit = takeWhile (\<lambda>c. \<not> is_brace c) s
      in case dropWhile (\<lambda>c. \<not> is_brace c) s of
          [] \<Rightarrow> Inr (lit, None, [])
        | c # rest \<Rightarrow>
            if rest \<noteq> [] \<and> hd rest = c then Inr (lit @ [c], None, tl rest)
            else if c = CHR ''}'' then Inl (ValueError (''Single '' @ repr_str ''}'' @ '' encountered in format string''))
            else if rest = [] then Inl (ValueError (''Single '' @ repr_str ''{'' @ '' encountered in format string''))
            else sbind (parse_field rest) (\<lambda>(fld, rest'). Inr (lit, Some fld, rest')))"

lemma scan_name_length: "scan_name br acc s = Inr (name, stop, rest) \<Longrightarrow> length rest \<le> length s"
  by (induction br acc s rule: scan_name.induct) (auto split: if_splits)

lemma scan_spec_length: "scan_spec depth acc s = Inr (fmt, rest) \<Longrightarrow> length rest \<le> length s"
  by (induction depth acc s rule: scan_spec.induct) (auto split: if_splits)

lemma parse_field_length:
  assumes "parse_field s = Inr (fld, rest)"
  shows "length rest \<le> length s"
proof -
  obtain name stop r1 where n: "scan_name False [] s = Inr (name, stop, r1)"
    using assms by (auto simp: parse_field_def sbind_eq_Inr)
  have "length rest \<le> length r1"
  proof (cases stop)
    case None
    with assms n show ?thesis by (simp add: parse_field_def)
  next
    case (Some c)
    consider "c = CHR ''}''" | "c = CHR '':''" | "c \<noteq> CHR ''}''" "c \<noteq> CHR '':''" by blast
    then show ?thesis
    proof cases
      case 3
      then show ?thesis
        using assms n Some
        by (cases r1; cases "tl r1") (auto simp: parse_field_def sbind_eq_Inr split: if_splits dest!: scan_spec_length)
    qed (use assms n Some in \<open>auto simp: parse_field_def sbind_eq_Inr dest!: scan_spec_length\<close>)
  qed
  with scan_name_length [OF n] show ?thesis by simp
qed

lemma next_markup_length:
  assumes "next_markup s = Inr (lit, fld, rest)" and "s \<noteq> []"
  shows "length rest < length s"
proof (cases "dropWhile (\<lambda>c. \<not> is_brace c) s")
  case Nil
  with assms show ?thesis by (simp add: next_markup_def Let_def)
next
  case (Cons c rest')
  have "length (dropWhile (\<lambda>c. \<not> is_brace c) s) \<le> length s" by (rule length_dropWhile_le)
  with Cons have "length rest' < length s" by simp
  moreover have "length rest \<le> length rest'"
    using assms(1) Cons
    by (auto simp: next_markup_def Let_def sbind_eq_Inr split: if_splits dest!: parse_field_length)
  ultimately show ?thesis by simp
qed

definition unsupported_msg :: "string \<Rightarrow> string" where
  "unsupported_msg url = ''unsupported URL placeholder in '' @ repr_str url @ ''; use named {param} placeholders''"

definition unmatched_msg :: "string \<Rightarrow> string" where
  "unmatched_msg name = ''URL placeholder {'' @ name @ ''} has no matching path_params entry''"

definition fill_field :: "string \<Rightarrow> json dict \<Rightarrow> node_ctx \<Rightarrow> format_field \<Rightarrow> exn + string" where
  "fill_field url params ctx fld =
     (case fld of
        (name, fmt, conv) \<Rightarrow>
          if name = [] \<or> fmt \<noteq> [] \<or> conv \<noteq> None then Inl (ctx_err ctx CONFIG (unsupported_msg url))
          else (case dict_get params name of
              None \<Rightarrow> Inl (ctx_err ctx CONFIG (unmatched_msg name))
            | Some v \<Rightarrow> Inr (quote (py_str v))))"

function format_from :: "string \<Rightarrow> json dict \<Rightarrow> node_ctx \<Rightarrow> string \<Rightarrow> exn + string" where
  "format_from url params ctx s =
     (if s = [] then Inr []
      else case next_markup s of
          Inl e \<Rightarrow> Inl e
        | Inr (lit, fld, rest) \<Rightarrow>
            sbind (case fld of None \<Rightarrow> Inr [] | Some f \<Rightarrow> fill_field url params ctx f) (\<lambda>v.
              sbind (format_from url params ctx rest) (\<lambda>out. Inr (lit @ v @ out))))"
  by pat_completeness auto
termination
  by (relation "measure (\<lambda>(url, params, ctx, s). length s)") (auto dest: next_markup_length)

declare format_from.simps [simp del]

definition format_url :: "string \<Rightarrow> json dict \<Rightarrow> node_ctx \<Rightarrow> exn + string" where
  "format_url url params ctx = format_from url params ctx url"

section \<open>Requests\<close>

definition to_records :: "json \<Rightarrow> string option \<Rightarrow> node_ctx \<Rightarrow> string \<Rightarrow> exn + records" where
  "to_records data items_path ctx summary =
     (if data = JNull then Inr []
      else sbind
        (case items_path of
           Some p \<Rightarrow>
             if p = [] then Inr data
             else sbind (get_path_opt data (split_path p)) (\<lambda>found.
               case found of
                 Some d \<Rightarrow> Inr d
               | None \<Rightarrow> Inl (ctx_error ctx VALIDATION (''items_path '' @ repr_str p @ '' not found in response'')
                   None (Some summary) 1 None))
         | None \<Rightarrow> Inr data)
        (\<lambda>d. Inr (map (\<lambda>item. case item of JDict r \<Rightarrow> r | _ \<Rightarrow> [(''value'', item)])
                  (case d of JList xs \<Rightarrow> xs | _ \<Rightarrow> [d]))))"

definition request_env :: "api_world \<Rightarrow> http_request \<Rightarrow> http_env" where
  "request_env w req = \<lparr>hv_store = aw_store w, hv_float_of = aw_float_of w, hv_net = aw_net w req\<rparr>"

definition retry_logs :: "node_ctx \<Rightarrow> http_event list \<Rightarrow> log_event list" where
  "retry_logs ctx evs =
     List.map_filter (\<lambda>ev. case ev of
        OnRetry k why \<Rightarrow> Some (ctx_log ctx LWarning (''attempt '' @ nat_str k @ '' failed ('' @ why @ ''); retrying'') None)
      | _ \<Rightarrow> None) evs"

text \<open>The exception, or the data and the summary; the requests sent so far; the log events.\<close>

type_synonym 'a api_result = "(exn + 'a) \<times> nat \<times> log_event list"

definition invalid_json_msg :: "string \<Rightarrow> string" where
  "invalid_json_msg m = ''response body is not valid JSON: '' @ m"

definition response_data :: "api_config \<Rightarrow> node_ctx \<Rightarrow> string \<Rightarrow> response \<Rightarrow> exn + json" where
  "response_data cfg ctx summary r =
     (if ac_method cfg = ''HEAD'' \<or> re_status r = 204 \<or> re_empty r then Inr JNull
      else case re_json r of
          Inr d \<Rightarrow> Inr d
        | Inl m \<Rightarrow> Inl (ctx_error ctx VALIDATION (invalid_json_msg m) (Some (re_status r)) (Some summary) 1 None))"

definition request_json :: "api_world \<Rightarrow> api_config \<Rightarrow> string \<Rightarrow> string dict \<Rightarrow> json dict \<Rightarrow> node_ctx \<Rightarrow> nat \<Rightarrow>
    (json \<times> string) api_result" where
  "request_json w cfg url headers params ctx sent =
     (let full_url = aw_merge w url (map (\<lambda>(k, v). (k, py_str v)) params);
          summary = request_summary (aw_decode w) (nc_redactor ctx) (ac_method cfg) full_url;
          req = \<lparr>hr_url = url, hr_headers = headers, hr_params = params\<rparr>
      in case request_with_retry (request_env w req) (ac_retry cfg) (ac_rate_limit cfg \<noteq> None) True sent of
          (res, evs) \<Rightarrow>
            (let sent' = sent + length (requests_of evs);
                 lg = retry_logs ctx evs
             in case res of
                 Inl f \<Rightarrow>
                   (Inl (ctx_error ctx (rf_category f) (rf_message f) (rf_http_status f) (Some summary) (rf_attempts f) None),
                    sent', lg)
               | Inr (r, attempts) \<Rightarrow>
                   (map_sum id (\<lambda>d. (d, summary)) (response_data cfg ctx summary r), sent',
                    lg @ [ctx_log ctx LDebug (summary @ '' -> HTTP '' @ int_str (re_status r) @
                      '' (attempt '' @ nat_str attempts @ '')'') None])))"

section \<open>Pagination\<close>

definition int_param :: "json dict \<Rightarrow> string \<Rightarrow> exn + int" where
  "int_param params k =
     (case dict_get params k of
        None \<Rightarrow> Inl (KeyError k)
      | Some v \<Rightarrow> sbind (py_to_int v) (\<lambda>i. case i of JInt n \<Rightarrow> Inr n | _ \<Rightarrow> Inr 0))"

text \<open>The parameters of the first page.\<close>

definition first_params :: "api_config \<Rightarrow> json dict \<Rightarrow> json dict" where
  "first_params cfg params =
     (case ac_pagination cfg of
        None \<Rightarrow> params
      | Some pg \<Rightarrow>
          (case pg_type pg of
             PCursor \<Rightarrow> params
           | POffset \<Rightarrow>
               (let params1 = dict_set (pg_offset_param pg) (JInt 0) params
                in case (pg_limit_param pg, pg_limit pg) of
                    (Some lp, Some l) \<Rightarrow> if lp \<noteq> [] \<and> l \<noteq> 0 then dict_set lp (JInt (int l)) params1 else params1
                  | _ \<Rightarrow> params1)
           | PPage \<Rightarrow> dict_set (pg_page_param pg) (JInt (pg_start_page pg)) params))"

text \<open>The parameters of the next page, or \<^const>\<open>None\<close> after the last one.\<close>

definition next_params :: "pagination_config \<Rightarrow> json \<Rightarrow> records \<Rightarrow> json dict \<Rightarrow> exn + json dict option" where
  "next_params pg data items params =
     (case pg_type pg of
        PCursor \<Rightarrow>
          sbind (get_path_opt data (split_path (case pg_cursor_path pg of Some p \<Rightarrow> p | None \<Rightarrow> []))) (\<lambda>found.
            let cursor = (case found of Some c \<Rightarrow> c | None \<Rightarrow> JNull)
            in if truthy cursor
               then Inr (Some (dict_set (case pg_cursor_param pg of Some p \<Rightarrow> p | None \<Rightarrow> []) cursor params))
               else Inr None)
      | POffset \<Rightarrow>
          if items = [] \<or> (case pg_limit pg of None \<Rightarrow> False | Some l \<Rightarrow> l \<noteq> 0 \<and> length items < l) then Inr None
          else sbind (int_param params (pg_offset_param pg)) (\<lambda>n.
            Inr (Some (dict_set (pg_offset_param pg) (JInt (n + int (length items))) params)))
      | PPage \<Rightarrow>
          if items = [] \<or> (case pg_page_size pg of None \<Rightarrow> False | Some l \<Rightarrow> l \<noteq> 0 \<and> length items < l) then Inr None
          else sbind (int_param params (pg_page_param pg)) (\<lambda>n.
            Inr (Some (dict_set (pg_page_param pg) (JInt (n + 1)) params))))"

definition page_items_path :: "api_config \<Rightarrow> string option" where
  "page_items_path cfg =
     (case ac_pagination cfg of
        None \<Rightarrow> ac_items_path cfg
      | Some pg \<Rightarrow> if non_empty (pg_items_path pg) then pg_items_path pg else ac_items_path cfg)"

definition truncated_msg :: "nat \<Rightarrow> string" where
  "truncated_msg n = ''pagination stopped at max_pages='' @ nat_str n @ ''; results may be truncated''"

function fetch_pages :: "api_world \<Rightarrow> api_config \<Rightarrow> string \<Rightarrow> string dict \<Rightarrow> node_ctx \<Rightarrow> nat \<Rightarrow> json dict \<Rightarrow> nat \<Rightarrow>
    records \<Rightarrow> (records \<times> nat) api_result" where
  "fetch_pages w cfg url headers ctx page_count params sent acc =
     (case request_json w cfg url headers params ctx sent of
        (Inl e, sent', lg) \<Rightarrow> (Inl e, sent', lg)
      | (Inr (data, summary), sent', lg) \<Rightarrow>
          (case to_records data (page_items_path cfg) ctx summary of
             Inl e \<Rightarrow> (Inl e, sent', lg)
           | Inr items \<Rightarrow>
               (case ac_pagination cfg of
                  None \<Rightarrow> (Inr (acc @ items, Suc page_count), sent', lg)
                | Some pg \<Rightarrow>
                    (case next_params pg data items params of
                       Inl e \<Rightarrow> (Inl e, sent', lg)
                     | Inr None \<Rightarrow> (Inr (acc @ items, Suc page_count), sent', lg)
                     | Inr (Some params') \<Rightarrow>
                         if pg_max_pages pg \<le> Suc page_count
                         then (Inr (acc @ items, Suc page_count), sent',
                               lg @ [ctx_log ctx LWarning (truncated_msg (pg_max_pages pg)) None])
                         else (case fetch_pages w cfg url headers ctx (Suc page_count) params' sent' (acc @ items) of
                             (res, sent'', lg') \<Rightarrow> (res, sent'', lg @ lg'))))))"
  by pat_completeness auto
termination
  by (relation "measure (\<lambda>(w, cfg, url, headers, ctx, page_count, params, sent, acc).
      (case ac_pagination cfg of None \<Rightarrow> 0 | Some pg \<Rightarrow> pg_max_pages pg) - page_count)") auto

declare fetch_pages.simps [simp del]

definition fetch_all :: "api_world \<Rightarrow> api_config \<Rightarrow> string \<Rightarrow> string dict \<Rightarrow> json dict \<Rightarrow> node_ctx \<Rightarrow> nat \<Rightarrow> records api_result" where
  "fetch_all w cfg url headers params ctx sent =
     (case fetch_pages w cfg url headers ctx 0 (first_params cfg params) sent [] of
        (Inl e, sent', lg) \<Rightarrow> (Inl e, sent', lg)
      | (Inr (recs, pages), sent', lg) \<Rightarrow>
          (Inr recs, sent',
           lg @ (if 1 < pages then [ctx_log ctx LDebug (''fetched '' @ nat_str pages @ '' page(s)'') None] else [])))"

section \<open>The node\<close>

definition dns_failed_msg :: "string \<Rightarrow> string \<Rightarrow> string" where
  "dns_failed_msg host m = ''DNS resolution failed for host '' @ host @ '': '' @ m"

definition host_repr :: "string \<Rightarrow> string" where
  "host_repr url =
     (case urlsplit url of
        Inr parts \<Rightarrow> (case url_hostname parts of Some h \<Rightarrow> repr_str h | None \<Rightarrow> ''None'')
      | Inl e \<Rightarrow> ''None'')"

text \<open>The guard, with its errors reported as those of the node; \<open>socket.gaierror\<close> is the resolver's.\<close>

definition guard_url :: "api_world \<Rightarrow> string \<Rightarrow> string \<Rightarrow> node_ctx \<Rightarrow> exn + unit" where
  "guard_url w url summary ctx =
     (case ensure_url_allowed (aw_dns w) url (eo_ssrf_policy (rc_options (nc_run ctx))) of
        Inr u \<Rightarrow> Inr u
      | Inl (SSRFBlockedError m) \<Rightarrow> Inl (ctx_error ctx CONFIG m None (Some summary) 1 None)
      | Inl (OtherException t m) \<Rightarrow>
          if t = ''gaierror''
          then Inl (ctx_error ctx DNS (dns_failed_msg (host_repr url) m) None (Some summary) 1 None)
          else Inl (OtherException t m)
      | Inl e \<Rightarrow> Inl e)"

definition auth_parts :: "api_config \<Rightarrow> node_ctx \<Rightarrow> exn + (string dict \<times> string dict)" where
  "auth_parts cfg ctx =
     (case ac_auth cfg of
        None \<Rightarrow> Inr ([], [])
      | Some auth \<Rightarrow> sbind (get_secret ctx (au_secret_ref auth)) (\<lambda>secret. Inr (apply_auth auth secret)))"

definition api_run :: "api_world \<Rightarrow> api_config \<Rightarrow> node_inputs \<Rightarrow> node_ctx \<Rightarrow> node_outputs logged" where
  "api_run w cfg inputs ctx =
     (case format_url (ac_url cfg) (ac_path_params cfg) ctx of
        Inl e \<Rightarrow> (Inl e, [])
      | Inr url \<Rightarrow>
          (let summary = request_summary (aw_decode w) (nc_redactor ctx) (ac_method cfg) url
           in case guard_url w url summary ctx of
               Inl e \<Rightarrow> (Inl e, [])
             | Inr u \<Rightarrow>
                 (case auth_parts cfg ctx of
                    Inl e \<Rightarrow> (Inl e, [])
                  | Inr (auth_headers, auth_params) \<Rightarrow>
                      (let headers = dict_update (dict_of (map (\<lambda>(k, v). (k, py_str v)) (ac_headers cfg))) auth_headers;
                           params = dict_update (ac_query_params cfg) (map (\<lambda>(k, v). (k, JStr v)) auth_params)
                       in case fetch_all w cfg url headers params ctx 0 of
                           (Inl e, sent, lg) \<Rightarrow> (Inl e, lg)
                         | (Inr recs, sent, lg) \<Rightarrow>
                             (Inr [(''out'', recs)],
                              lg @ [ctx_log ctx LInfo (''fetched '' @ nat_str (length recs) @ '' record(s)'') None])))))"

section \<open>Placeholders cannot change the structure of a URL\<close>

text \<open>The characters that delimit the parts of a URL.\<close>

definition reserved :: "char \<Rightarrow> bool" where
  "reserved c \<longleftrightarrow> c \<in> set '':/?#[]@!$&*+,;=''"

lemma quote_not_reserved: "filter reserved (quote s) = []"
proof -
  have hex: "\<not> reserved (hex_upper n)" if "n < 16" for n
    using that by (auto simp: hex_upper_def reserved_def char_of_eq char_code_def)
  have plain: "\<not> reserved (char_of n)" if "unreserved n" for n
  proof -
    have "\<not> unreserved (of_char c)" if "reserved c" for c using that by (auto simp: reserved_def unreserved_def)
    with unreserved_char(1) [OF that] that show ?thesis by fastforce
  qed
  have "\<not> reserved CHR ''%''" by code_simp
  with hex plain have "\<not> reserved c" if "c \<in> set (quote_byte n)" "n < 256" for c n
    using that by (auto simp: quote_byte_def split: if_splits)
  with utf8_bytes show ?thesis by (auto simp: quote_def filter_empty_conv)
qed

lemma format_from_structure:
  "format_from url p ctx s = Inr out \<Longrightarrow> format_from url p' ctx s = Inr out' \<Longrightarrow> filter reserved out = filter reserved out'"
proof (induction url p ctx s arbitrary: out out' rule: format_from.induct)
  case (1 url p ctx s)
  show ?case
  proof (cases "s = []")
    case True
    with "1.prems" show ?thesis by (simp add: format_from.simps)
  next
    case False
    note unfold = format_from.simps [of url _ ctx s]
    obtain lit fld rest where m: "next_markup s = Inr (lit, fld, rest)"
      using "1.prems"(1) False by (cases "next_markup s") (auto simp: unfold)
    define fill where "fill q = (case fld of None \<Rightarrow> Inr [] | Some f \<Rightarrow> fill_field url q ctx f)" for q
    have plain: "filter reserved v = []" if "fill q = Inr v" for q v
      using that quote_not_reserved by (auto simp: fill_def fill_field_def split: option.splits prod.splits if_splits)
    obtain v o1 where v: "fill p = Inr v" "format_from url p ctx rest = Inr o1" "out = lit @ v @ o1"
      using "1.prems"(1) False m by (auto simp: unfold fill_def sbind_eq_Inr)
    obtain v' o1' where v': "fill p' = Inr v'" "format_from url p' ctx rest = Inr o1'" "out' = lit @ v' @ o1'"
      using "1.prems"(2) False m by (auto simp: unfold fill_def sbind_eq_Inr)
    have "filter reserved o1 = filter reserved o1'"
      using "1.IH" [OF False m refl refl _ v(2) v'(2)] v(1) by (simp add: fill_def)
    with v v' show ?thesis by (simp add: plain)
  qed
qed

text \<open>
  C28. Values of path parameters cannot inject structure into a URL: for one template, the delimiters of the
  resulting URL and their order are the same whatever the parameters are, so a value adds no path segment,
  query, fragment, user or port.
\<close>

theorem format_url_no_injection:
  assumes "format_url url params ctx = Inr out" and "format_url url params' ctx = Inr out'"
  shows "filter reserved out = filter reserved out'"
  using assms unfolding format_url_def by (rule format_from_structure)

theorem format_url_no_injection_witness:
  "format_url ''http://h/u/{id}'' [(''id'', JStr ''../a?x=1'')] demo_ctx = Inr ''http://h/u/..%2Fa%3Fx%3D1'' \<and>
   filter reserved ''http://h/u/..%2Fa%3Fx%3D1'' = filter reserved ''http://h/u/7''"
proof -
  have "format_url ''http://h/u/{id}'' [(''id'', JStr ''../a?x=1'')] demo_ctx = Inr ''http://h/u/..%2Fa%3Fx%3D1''"
    "format_url ''http://h/u/{id}'' [(''id'', JInt 7)] demo_ctx = Inr ''http://h/u/7''" by code_simp+
  with format_url_no_injection [OF this] show ?thesis by simp
qed

section \<open>The number of requests\<close>

lemma request_json_sent:
  "fst (snd (request_json w cfg url headers params ctx sent)) \<le> sent + Suc (rt_max (ac_retry cfg))"
proof -
  let ?env = "request_env w \<lparr>hr_url = url, hr_headers = headers, hr_params = params\<rparr>"
  obtain res evs where r: "request_with_retry ?env (ac_retry cfg) (ac_rate_limit cfg \<noteq> None) True sent = (res, evs)"
    by fastforce
  obtain n where "retry_spec ?env (ac_retry cfg) True sent 0 n res evs"
    using retry_loop_spec [of ?env "ac_retry cfg" True sent 0 "ac_rate_limit cfg \<noteq> None"] r
    by (auto simp: request_with_retry_def)
  then have "length (requests_of evs) \<le> Suc (rt_max (ac_retry cfg))" by (simp add: retry_spec_def)
  with r show ?thesis by (auto simp: request_json_def Let_def split: sum.splits)
qed

definition page_cap :: "api_config \<Rightarrow> nat" where
  "page_cap cfg = (case ac_pagination cfg of None \<Rightarrow> 1 | Some pg \<Rightarrow> max 1 (pg_max_pages pg))"

lemma fetch_pages_sent:
  assumes "page_count < page_cap cfg"
  shows "fst (snd (fetch_pages w cfg url headers ctx page_count params sent acc)) \<le>
    sent + (page_cap cfg - page_count) * Suc (rt_max (ac_retry cfg))"
  using assms
proof (induction w cfg url headers ctx page_count params sent acc rule: fetch_pages.induct)
  case (1 w cfg url headers ctx page_count params sent acc)
  define R where "R = Suc (rt_max (ac_retry cfg))"
  note unfold = fetch_pages.simps [of w cfg url headers ctx page_count params sent acc]
  obtain res sent' lg where r: "request_json w cfg url headers params ctx sent = (res, sent', lg)"
    by (metis prod_cases3)
  have one: "sent' \<le> sent + R" using request_json_sent [of w cfg url headers params ctx sent] r by (simp add: R_def)
  also have "\<dots> \<le> sent + (page_cap cfg - page_count) * R"
    using "1.prems" by (cases "page_cap cfg - page_count") auto
  finally have here: "sent' \<le> sent + (page_cap cfg - page_count) * R" .
  show ?case
  proof (cases "\<exists>data summary items pg params'. res = Inr (data, summary) \<and> to_records data (page_items_path cfg) ctx summary = Inr items \<and>
      ac_pagination cfg = Some pg \<and> next_params pg data items params = Inr (Some params') \<and> Suc page_count < pg_max_pages pg")
    case True
    then obtain data summary items pg params' where next_page: "res = Inr (data, summary)"
      "to_records data (page_items_path cfg) ctx summary = Inr items" "ac_pagination cfg = Some pg"
      "next_params pg data items params = Inr (Some params')" "Suc page_count < pg_max_pages pg" by blast
    have cap: "Suc page_count < page_cap cfg" using next_page(3,5) by (simp add: page_cap_def)
    have "fst (snd (fetch_pages w cfg url headers ctx (Suc page_count) params' sent' (acc @ items))) \<le>
        sent' + (page_cap cfg - Suc page_count) * R"
      unfolding R_def
      by (rule "1.IH" [OF r [symmetric] next_page(1) refl refl next_page(2-4) refl])
        (use next_page(5) cap in auto)
    also have "\<dots> \<le> sent + R + (page_cap cfg - Suc page_count) * R" using one by simp
    also have "\<dots> = sent + (page_cap cfg - page_count) * R"
    proof -
      have "page_cap cfg - page_count = Suc (page_cap cfg - Suc page_count)" using cap by simp
      then show ?thesis by simp
    qed
    finally show ?thesis
      using r next_page unfolding R_def by (auto simp: unfold not_le split: prod.splits)
  next
    case False
    with r here show ?thesis
      unfolding R_def
      by (auto simp: unfold not_le split: sum.splits option.splits prod.splits)
  qed
qed


section \<open>Offset pagination fetches everything once\<close>

text \<open>A server that answers a request with the window of its records that starts at the offset.\<close>

definition window :: "nat \<Rightarrow> records \<Rightarrow> nat \<Rightarrow> records" where
  "window l rows n = take l (drop n rows)"

definition serves :: "api_world \<Rightarrow> string \<Rightarrow> nat \<Rightarrow> records \<Rightarrow> bool" where
  "serves w offset_param l rows \<longleftrightarrow>
     (\<forall>req k n. dict_get (hr_params req) offset_param = Some (JInt (int n)) \<longrightarrow>
        (\<exists>r. aw_net w req k = Responded r \<and> re_status r = 200 \<and> \<not> re_empty r \<and>
           re_json r = Inr (records_json (window l rows n))))"

lemma request_with_retry_success:
  assumes "hv_net env sent = Responded r" and "re_status r = 200"
  shows "request_with_retry env retry lm rs sent = (Inr (r, 1), (if lm then [Acquire] else []) @ [Request sent])"
  using assms
  by (simp add: request_with_retry_def retry_loop.simps [of env retry lm rs sent 0] judge_def judge_response_def
      Let_def is_retryable_status_def RATE_LIMIT_STATUS_def RETRYABLE_STATUS_MIN_def)

lemma request_json_window:
  assumes "serves w (pg_offset_param pg) l rows" and "ac_method cfg \<noteq> ''HEAD''"
    and "dict_get params (pg_offset_param pg) = Some (JInt (int n))"
  shows "\<exists>summary sent' lg. request_json w cfg url headers params ctx sent =
    (Inr (records_json (window l rows n), summary), sent', lg)"
proof -
  obtain r where r: "aw_net w \<lparr>hr_url = url, hr_headers = headers, hr_params = params\<rparr> sent = Responded r"
    "re_status r = 200" "\<not> re_empty r" "re_json r = Inr (records_json (window l rows n))"
    using assms(1,3) unfolding serves_def by (metis http_request.select_convs(3))
  then show ?thesis
    using request_with_retry_success [of "request_env w \<lparr>hr_url = url, hr_headers = headers, hr_params = params\<rparr>" sent r] assms(2)
    by (simp add: request_json_def Let_def response_data_def request_env_def)
qed

lemma to_records_json: "to_records (records_json rs) None ctx summary = Inr rs"
  by (simp add: to_records_def records_json_def comp_def)

lemma fetch_pages_offset:
  assumes cfg: "ac_pagination cfg = Some pg" "pg_type pg = POffset" "pg_limit pg = Some l" "0 < l"
      "page_items_path cfg = None" "ac_method cfg \<noteq> ''HEAD''"
    and srv: "serves w (pg_offset_param pg) l rows" and cap: "length rows < pg_max_pages pg * l"
    and here: "page_count * l \<le> length rows" "acc = take (page_count * l) rows"
      "dict_get params (pg_offset_param pg) = Some (JInt (int (page_count * l)))"
  shows "\<exists>pages. fst (fetch_pages w cfg url headers ctx page_count params sent acc) = Inr (rows, pages)"
  using here
proof (induction "pg_max_pages pg - page_count" arbitrary: page_count params sent acc)
  case 0
  then have "pg_max_pages pg * l \<le> page_count * l" by simp
  with cap "0.prems"(1) show ?case by simp
next
  case (Suc d)
  let ?k = "page_count * l"
  obtain summary sent' lg where r: "request_json w cfg url headers params ctx sent =
      (Inr (records_json (window l rows ?k), summary), sent', lg)"
    using request_json_window [OF srv cfg(6) Suc.prems(3)] by blast
  have items: "acc @ window l rows ?k = take (?k + l) rows"
    by (simp add: window_def take_add Suc.prems(2))
  note unfold = fetch_pages.simps [of w cfg url headers ctx page_count params sent acc] r cfg(1,5) to_records_json
  show ?case
  proof (cases "length rows < ?k + l")
    case True
    then have "length (window l rows ?k) < l" using cfg(4) by (auto simp: window_def)
    then have "next_params pg (records_json (window l rows ?k)) (window l rows ?k) params = Inr None"
      by (simp add: next_params_def cfg)
    with True items show ?thesis by (simp add: unfold)
  next
    case False
    then have full: "length (window l rows ?k) = l" by (simp add: window_def)
    let ?params = "dict_set (pg_offset_param pg) (JInt (int (Suc page_count * l))) params"
    have nxt: "next_params pg (records_json (window l rows ?k)) (window l rows ?k) params = Inr (Some ?params)"
      using full cfg(4) Suc.prems(3) by (auto simp: next_params_def cfg(2,3) int_param_def algebra_simps)
    have "\<not> pg_max_pages pg \<le> Suc page_count"
    proof
      assume "pg_max_pages pg \<le> Suc page_count"
      then have "pg_max_pages pg * l \<le> Suc page_count * l" by (rule mult_le_mono1)
      with False cap show False by simp
    qed
    moreover have "\<exists>pages. fst (fetch_pages w cfg url headers ctx (Suc page_count) ?params sent' (take (?k + l) rows)) = Inr (rows, pages)"
    proof (rule Suc.hyps(1))
      show "d = pg_max_pages pg - Suc page_count" using Suc.hyps(2) by simp
    qed (use False in \<open>simp_all add: add.commute\<close>)
    ultimately show ?thesis by (auto simp: unfold nxt items split: prod.splits)
  qed
qed

text \<open>
  C30. Offset pagination fetches every record of the server exactly once and in order, if the page limit
  allows for it: against a server that answers with the window of its records starting at the offset, the
  result is the server's list of records.
\<close>

theorem offset_pagination_complete:
  assumes "ac_pagination cfg = Some pg" and "pg_type pg = POffset" and "pg_limit pg = Some l" and "0 < l"
    and "page_items_path cfg = None" and "ac_method cfg \<noteq> ''HEAD''" and "pg_limit_param pg \<noteq> Some (pg_offset_param pg)"
    and "serves w (pg_offset_param pg) l rows" and "length rows < pg_max_pages pg * l"
  shows "fst (fetch_all w cfg url headers params ctx sent) = Inr rows"
proof -
  have "dict_get (first_params cfg params) (pg_offset_param pg) = Some (JInt (int (0 * l)))"
    using assms(1-4,7) by (auto simp: first_params_def Let_def split: option.splits)
  from fetch_pages_offset [OF assms(1-6) assms(8,9) _ _ this, of "[]" url headers ctx sent] obtain pages where
    "fst (fetch_pages w cfg url headers ctx 0 (first_params cfg params) sent []) = Inr (rows, pages)" by auto
  then show ?thesis by (auto simp: fetch_all_def split: prod.splits sum.splits)
qed

text \<open>Five records, two per page.\<close>

definition demo_rows :: records where
  "demo_rows = map (\<lambda>i. [(''id'', JInt i)]) [1, 2, 3, 4, 5]"

definition demo_pages :: pagination_config where
  "demo_pages = \<lparr>pg_type = POffset, pg_items_path = None, pg_cursor_path = None, pg_cursor_param = None,
     pg_offset_param = ''offset'', pg_limit_param = Some ''limit'', pg_limit = Some 2, pg_page_param = ''page'',
     pg_start_page = 1, pg_page_size = None, pg_max_pages = 100\<rparr>"

definition demo_api :: api_config where
  "demo_api = \<lparr>ac_method = ''GET'', ac_url = ''http://8.8.8.8/rows'', ac_path_params = [], ac_query_params = [],
     ac_headers = [], ac_body = JNull, ac_auth = None, ac_pagination = Some demo_pages, ac_retry = default_retry,
     ac_rate_limit = None, ac_items_path = None\<rparr>"

definition demo_world :: api_world where
  "demo_world = \<lparr>aw_dns = (\<lambda>h p. Inr []),
     aw_net = (\<lambda>req k. Responded \<lparr>re_status = 200, re_reason = ''OK'', re_retry_after = None, re_empty = False,
        re_json = Inr (case dict_get (hr_params req) ''offset'' of
          Some (JInt n) \<Rightarrow> records_json (window 2 demo_rows (nat n)) | _ \<Rightarrow> JNull)\<rparr>),
     aw_store = [], aw_float_of = (\<lambda>s. None), aw_decode = latin_decode, aw_merge = (\<lambda>url ps. url)\<rparr>"

theorem offset_pagination_complete_witness:
  "fst (fetch_all demo_world demo_api ''http://8.8.8.8/rows'' [] [] demo_ctx 0) = Inr demo_rows \<and>
   length demo_rows = 5"
proof -
  have "fst (fetch_all demo_world demo_api ''http://8.8.8.8/rows'' [] [] demo_ctx 0) = Inr demo_rows"
    by (rule offset_pagination_complete [of _ demo_pages 2])
      (simp_all add: demo_api_def demo_pages_def page_items_path_def non_empty_def serves_def demo_world_def demo_rows_def)
  then show ?thesis by (simp add: demo_rows_def)
qed

end
