(* ===== verification/Graph.thy ===== *)
theory Graph
  imports Paths
begin

text \<open>
  \<open>etl_core/schema.py\<close> and the class \<open>_Graph\<close> of \<open>etl_core/engine.py\<close>: the pipeline document and its
  graph. \<open>topo_order\<close> is Kahn's algorithm with ties broken by declaration order; \<open>descendants\<close> and
  \<open>ancestors\<close> are the same stack-based search along outgoing and incoming edges. A Python set built by
  these searches is the list of its members in the order they were found.
\<close>

section \<open>The pipeline document\<close>

record node_spec =
  ns_id :: string
  ns_type :: string
  ns_config :: "json dict"

record edge_spec =
  es_from :: string
  es_from_port :: string
  es_to :: string
  es_to_port :: string

record pipeline_spec =
  ps_id :: string
  ps_nodes :: "node_spec list"
  ps_edges :: "edge_spec list"

record validation_issue =
  vi_node_id :: "string option"
  vi_message :: string

definition is_alpha_us :: "char \<Rightarrow> bool" where
  "is_alpha_us c \<longleftrightarrow> (let n = of_char c :: nat in (65 \<le> n \<and> n \<le> 90) \<or> (97 \<le> n \<and> n \<le> 122) \<or> n = 95)"

text \<open>\<open>NODE_ID_PATTERN\<close>\<close>

definition node_id_ok :: "string \<Rightarrow> bool" where
  "node_id_ok s \<longleftrightarrow> s \<noteq> [] \<and> is_alpha_us (hd s) \<and>
     list_all (\<lambda>c. is_alpha_us c \<or> is_ascii_digit c \<or> c = CHR ''-'') (tl s)"

section \<open>The graph\<close>

definition graph_nodes :: "pipeline_spec \<Rightarrow> (string \<times> node_spec) list" where
  "graph_nodes spec = dict_of (map (\<lambda>n. (ns_id n, n)) (ps_nodes spec))"

definition in_edges :: "pipeline_spec \<Rightarrow> string \<Rightarrow> edge_spec list" where
  "in_edges spec n = filter (\<lambda>e. es_to e = n) (ps_edges spec)"

definition out_edges :: "pipeline_spec \<Rightarrow> string \<Rightarrow> edge_spec list" where
  "out_edges spec n = filter (\<lambda>e. es_from e = n) (ps_edges spec)"

subsection \<open>Topological order\<close>

definition order_index :: "pipeline_spec \<Rightarrow> string \<Rightarrow> nat" where
  "order_index spec n =
     (case dict_get (dict_of (map (\<lambda>(i, m). (ns_id m, i)) (enumerate 0 (ps_nodes spec)))) n of
        Some i \<Rightarrow> i | None \<Rightarrow> 0)"

fun count_in_degree :: "(string \<times> node_spec) list \<Rightarrow> edge_spec list \<Rightarrow> int dict \<Rightarrow> int dict" where
  "count_in_degree nodes [] deg = deg"
| "count_in_degree nodes (e # es) deg =
     count_in_degree nodes es
       (case dict_get deg (es_to e) of
          Some d \<Rightarrow> if dict_has nodes (es_from e) then dict_set (es_to e) (d + 1) deg else deg
        | None \<Rightarrow> deg)"

text \<open>The inner loop: one decrement per outgoing edge, collecting the nodes that reach zero.\<close>

fun relax :: "edge_spec list \<Rightarrow> int dict \<Rightarrow> string list \<Rightarrow> int dict \<times> string list" where
  "relax [] deg newly_ready = (deg, newly_ready)"
| "relax (e # es) deg newly_ready =
     (case dict_get deg (es_to e) of
        None \<Rightarrow> relax es deg newly_ready
      | Some d \<Rightarrow> relax es (dict_set (es_to e) (d - 1) deg)
          (if d - 1 = 0 then newly_ready @ [es_to e] else newly_ready))"

definition pos_sum :: "int dict \<Rightarrow> nat" where
  "pos_sum deg = sum_list (map (nat \<circ> snd) deg)"

lemma pos_sum_set:
  "dict_get deg k = Some d \<Longrightarrow> pos_sum (dict_set k d' deg) + nat d = pos_sum deg + nat d'"
  by (induction deg) (auto simp: pos_sum_def split: if_splits)

lemma relax_measure: "relax es deg nr = (deg', nr') \<Longrightarrow> length nr' + pos_sum deg' \<le> length nr + pos_sum deg"
proof (induction es deg nr rule: relax.induct)
  case (2 e es deg nr)
  show ?case
  proof (cases "dict_get deg (es_to e)")
    case (Some d)
    with "2.IH"(2) [OF Some] "2.prems" pos_sum_set [OF Some, of "d - 1"] show ?thesis
      by (auto split: if_splits)
  qed (use 2 in simp)
qed simp

function kahn :: "(string \<Rightarrow> edge_spec list) \<Rightarrow> (string \<Rightarrow> nat) \<Rightarrow> string list \<Rightarrow> int dict \<Rightarrow>
    string list \<Rightarrow> string list" where
  "kahn out key [] deg order = order"
| "kahn out key (n # ready) deg order =
     (let r = relax (out n) deg []
      in kahn out key (sort_key key (ready @ sort_key key (snd r))) (fst r) (order @ [n]))"
  by pat_completeness auto
termination
proof (relation "measure (\<lambda>(out, key, ready, deg, order). length ready + pos_sum deg)")
  fix out :: "string \<Rightarrow> edge_spec list" and key :: "string \<Rightarrow> nat" and n ready deg order
    and r :: "int dict \<times> string list"
  assume "r = relax (out n) deg []"
  then have "length (snd r) + pos_sum (fst r) \<le> pos_sum deg"
    using relax_measure [of "out n" deg "[]" "fst r" "snd r"] by simp
  then show "((out, key, sort_key key (ready @ sort_key key (snd r)), fst r, order @ [n]), out, key, n # ready, deg, order)
     \<in> measure (\<lambda>(out, key, ready, deg, order). length ready + pos_sum deg)"
    by simp
qed simp

definition in_degree :: "pipeline_spec \<Rightarrow> int dict" where
  "in_degree spec =
     count_in_degree (graph_nodes spec) (ps_edges spec) (map (\<lambda>p. (fst p, 0)) (graph_nodes spec))"

definition topo_order :: "pipeline_spec \<Rightarrow> string list option" where
  "topo_order spec =
     (let deg = in_degree spec;
          ready = sort_key (order_index spec) (map fst (filter (\<lambda>p. snd p = 0) deg));
          order = kahn (out_edges spec) (order_index spec) ready deg []
      in if length order \<noteq> length (graph_nodes spec) then None else Some order)"

subsection \<open>Reachability\<close>

fun push_new :: "string list \<Rightarrow> string list \<Rightarrow> string list \<Rightarrow> string list \<times> string list" where
  "push_new [] stack found = (stack, found)"
| "push_new (t # ts) stack found =
     (if t \<in> set found then push_new ts stack found else push_new ts (t # stack) (found @ [t]))"

definition successors :: "(string \<times> string) list \<Rightarrow> string \<Rightarrow> string list" where
  "successors es n = map snd (filter (\<lambda>e. fst e = n) es)"

lemma push_new_found: "push_new ts stack found = (stack', found') \<Longrightarrow> set found' = set found \<union> set ts"
  by (induction ts stack found rule: push_new.induct) (auto split: if_splits)

lemma push_new_stack:
  "push_new ts stack found = (stack', found') \<Longrightarrow> set stack' = set stack \<union> (set ts - set found)"
  by (induction ts stack found rule: push_new.induct) (auto split: if_splits)

lemma push_new_old: "set ts \<subseteq> set found \<Longrightarrow> push_new ts stack found = (stack, found)"
  by (induction ts stack found rule: push_new.induct) auto

text \<open>The worklist loop, the top of the stack first.\<close>

function graph_search :: "(string \<times> string) list \<Rightarrow> string list \<Rightarrow> string list \<Rightarrow> string list" where
  "graph_search es [] found = found"
| "graph_search es (current # stack) found =
     (let r = push_new (successors es current) stack found in graph_search es (fst r) (snd r))"
  by pat_completeness auto
termination
proof (relation "measures [\<lambda>(es, stack, found). card (snd ` set es - set found), \<lambda>(es, stack, found). length stack]")
  fix es :: "(string \<times> string) list" and current stack found and r :: "string list \<times> string list"
  assume r: "r = push_new (successors es current) stack found"
  obtain stack' found' where r': "r = (stack', found')" by (cases r)
  have found: "set found' = set found \<union> set (successors es current)"
    using push_new_found [of "successors es current" stack found stack' found'] r r' by simp
  have sub: "set (successors es current) \<subseteq> snd ` set es" by (auto simp: successors_def)
  have less: "card (snd ` set es - set found') < card (snd ` set es - set found)"
    if "\<not> set (successors es current) \<subseteq> set found"
    using that found sub by (intro psubset_card_mono) auto
  have same: "stack' = stack \<and> found' = found" if "set (successors es current) \<subseteq> set found"
    using push_new_old [OF that, of stack] r r' by simp
  show "((es, fst r, snd r), es, current # stack, found) \<in> measures
      [\<lambda>(es, stack, found). card (snd ` set es - set found), \<lambda>(es, stack, found). length stack]"
    using less same r' by (cases "set (successors es current) \<subseteq> set found") auto
qed simp

lemma graph_search_Cons:
  "push_new (successors es current) stack found = (stack', found') \<Longrightarrow>
     graph_search es (current # stack) found = graph_search es stack' found'"
  by simp

declare graph_search.simps(2) [simp del]

definition descendants :: "pipeline_spec \<Rightarrow> string \<Rightarrow> string list" where
  "descendants spec n = graph_search (map (\<lambda>e. (es_from e, es_to e)) (ps_edges spec)) [n] []"

definition ancestors :: "pipeline_spec \<Rightarrow> string \<Rightarrow> string list" where
  "ancestors spec n = graph_search (map (\<lambda>e. (es_to e, es_from e)) (ps_edges spec)) [n] []"

section \<open>The search computes reachability\<close>

lemma set_successors: "set (successors es n) = set es `` {n}"
  by (force simp: successors_def)

lemma graph_search_sound:
  "set (graph_search es stack found) \<subseteq> set found \<union> (set es)\<^sup>+ `` set stack"
proof (induction es stack found rule: graph_search.induct)
  case (2 es current stack found)
  obtain stack' found' where r: "push_new (successors es current) stack found = (stack', found')"
    by (cases "push_new (successors es current) stack found")
  have f: "set found' = set found \<union> set es `` {current}"
    and s: "set stack' = set stack \<union> (set es `` {current} - set found)"
    using push_new_found [OF r] push_new_stack [OF r] by (simp_all add: set_successors)
  have "set (graph_search es stack' found') \<subseteq> set found' \<union> (set es)\<^sup>+ `` set stack'"
    using 2 r by simp
  also have "\<dots> \<subseteq> set found \<union> (set es)\<^sup>+ `` set (current # stack)"
    unfolding f s by (auto intro: trancl_into_trancl2)
  finally show ?case using graph_search_Cons [OF r] by simp
qed simp

definition search_inv :: "(string \<times> string) list \<Rightarrow> string set \<Rightarrow> string list \<Rightarrow> string list \<Rightarrow> bool" where
  "search_inv es start stack found \<longleftrightarrow>
     (\<forall>x \<in> start \<union> set found. x \<in> set stack \<or> set es `` {x} \<subseteq> set found)"

lemma graph_search_closed:
  "search_inv es start stack found \<Longrightarrow> search_inv es start [] (graph_search es stack found) \<and>
     set found \<subseteq> set (graph_search es stack found)"
proof (induction es stack found rule: graph_search.induct)
  case (2 es current stack found)
  obtain stack' found' where r: "push_new (successors es current) stack found = (stack', found')"
    by (cases "push_new (successors es current) stack found")
  have f: "set found' = set found \<union> set es `` {current}"
    and s: "set stack' = set stack \<union> (set es `` {current} - set found)"
    using push_new_found [OF r] push_new_stack [OF r] by (simp_all add: set_successors)
  have "search_inv es start stack' found'"
    using "2.prems" unfolding search_inv_def f s by auto
  with 2 r f show ?case by (auto simp: graph_search_Cons [OF r])
qed simp

lemma graph_search_trancl: "set (graph_search es [n] []) = (set es)\<^sup>+ `` {n}"
proof
  show "set (graph_search es [n] []) \<subseteq> (set es)\<^sup>+ `` {n}"
    using graph_search_sound [of es "[n]" "[]"] by simp
  have "search_inv es {n} [n] []" by (simp add: search_inv_def)
  then have inv: "search_inv es {n} [] (graph_search es [n] [])"
    using graph_search_closed by blast
  have "x \<in> set (graph_search es [n] [])" if "(n, x) \<in> (set es)\<^sup>+" for x
    using that
  proof (induction rule: trancl_induct)
    case (base y)
    with inv show ?case by (auto simp: search_inv_def)
  next
    case (step y z)
    with inv show ?case by (auto simp: search_inv_def)
  qed
  then show "(set es)\<^sup>+ `` {n} \<subseteq> set (graph_search es [n] [])" by auto
qed

text \<open>The edge relation of the document.\<close>

definition edge_rel :: "pipeline_spec \<Rightarrow> (string \<times> string) set" where
  "edge_rel spec = (\<lambda>e. (es_from e, es_to e)) ` set (ps_edges spec)"

lemma edge_relI: "e \<in> set (ps_edges spec) \<Longrightarrow> (es_from e, es_to e) \<in> edge_rel spec"
  by (simp add: edge_rel_def)

lemma set_descendants: "set (descendants spec n) = (edge_rel spec)\<^sup>+ `` {n}"
  by (simp add: descendants_def graph_search_trancl edge_rel_def)

lemma set_ancestors: "set (ancestors spec n) = {m. (m, n) \<in> (edge_rel spec)\<^sup>+}"
proof -
  have "(\<lambda>e. (es_to e, es_from e)) ` set (ps_edges spec) = (edge_rel spec)\<inverse>"
    by (force simp: edge_rel_def)
  then show ?thesis
    by (auto simp: ancestors_def graph_search_trancl trancl_converse)
qed

text \<open>
  C4. \<open>descendants\<close> returns exactly the nodes reachable by one or more edges, and \<open>ancestors\<close> is its
  converse: a node is a descendant of another if and only if that other is one of its ancestors. Both
  searches terminate on every document, also on one with cycles, duplicate edges or dangling endpoints.
\<close>

theorem descendants_ancestors:
  "set (descendants spec n) = (edge_rel spec)\<^sup>+ `` {n} \<and>
   (m \<in> set (descendants spec n) \<longleftrightarrow> n \<in> set (ancestors spec m))"
  by (simp add: set_descendants set_ancestors)

end
