(* ===== verification/Topo.thy ===== *)
theory Topo
  imports Graph
begin

text \<open>
  Correctness of \<open>_Graph.topo_order\<close>: the order it returns is a topological order of all nodes, and it
  returns none exactly for a cyclic graph. The proof keeps, for every node not yet emitted, the number of
  its incoming edges from nodes not yet emitted.
\<close>

section \<open>Counting edges\<close>

definition node_ids :: "pipeline_spec \<Rightarrow> string set" where
  "node_ids spec = fst ` set (graph_nodes spec)"

text \<open>The edges between declared nodes, the ones \<open>in_degree\<close> counts.\<close>

definition real_edges :: "pipeline_spec \<Rightarrow> edge_spec list" where
  "real_edges spec = filter (\<lambda>e. es_to e \<in> node_ids spec \<and> es_from e \<in> node_ids spec) (ps_edges spec)"

definition count_to :: "string \<Rightarrow> edge_spec list \<Rightarrow> nat" where
  "count_to v es = length (filter (\<lambda>e. es_to e = v) es)"

lemma count_to_simps [simp]:
  "count_to v [] = 0"
  "count_to v (e # es) = (if es_to e = v then Suc (count_to v es) else count_to v es)"
  by (simp_all add: count_to_def)

lemma count_to_0: "count_to v es = 0 \<longleftrightarrow> (\<forall>e \<in> set es. es_to e \<noteq> v)"
  by (simp add: count_to_def filter_empty_conv)

lemma count_to_split:
  "count_to v (filter P es) = count_to v (filter (\<lambda>e. P e \<and> Q e) es) + count_to v (filter (\<lambda>e. P e \<and> \<not> Q e) es)"
  by (induction es) auto

lemma node_ids_eq: "node_ids spec = ns_id ` set (ps_nodes spec)"
  by (simp add: node_ids_def graph_nodes_def set_dict_keys_of image_image)

lemma dict_get_count_in_degree:
  "dict_get (count_in_degree nodes es deg) v =
     map_option (\<lambda>d. d + int (count_to v (filter (\<lambda>e. es_from e \<in> fst ` set nodes) es))) (dict_get deg v)"
  by (induction nodes es deg rule: count_in_degree.induct) (auto simp: option.map_ident split: option.splits)

lemma dict_keys_count_in_degree: "map fst (count_in_degree nodes es deg) = map fst deg"
  by (induction nodes es deg rule: count_in_degree.induct)
    (auto simp: dict_keys_set dict_get_None_iff dest: dict_get_SomeD split: option.splits)

lemma wf_graph_nodes: "distinct (map fst (graph_nodes spec))"
  using wf_dict_of [of "map (\<lambda>n. (ns_id n, n)) (ps_nodes spec)"] by (simp add: graph_nodes_def wf_dict_def)

lemma card_node_ids: "card (node_ids spec) = length (graph_nodes spec)"
  unfolding node_ids_def using distinct_card [OF wf_graph_nodes [of spec]] by simp

lemma in_degree_keys: "map fst (in_degree spec) = map fst (graph_nodes spec)"
  by (simp add: in_degree_def dict_keys_count_in_degree comp_def)

lemma in_degree_get:
  "dict_get (in_degree spec) v =
     (if v \<in> node_ids spec then Some (int (count_to v (real_edges spec))) else None)"
proof (cases "v \<in> node_ids spec")
  case True
  have "dict_get (map (\<lambda>p. (fst p, 0 :: int)) (graph_nodes spec)) v = Some 0"
    using True by (auto simp: node_ids_def map_of_map_keys map_of_eq_Some_iff wf_graph_nodes comp_def image_iff)
  moreover have "count_to v (filter (\<lambda>e. es_from e \<in> node_ids spec) (ps_edges spec)) = count_to v (real_edges spec)"
    using True by (simp add: count_to_def real_edges_def) (metis (mono_tags, lifting))
  ultimately show ?thesis
    using True by (simp add: in_degree_def dict_get_count_in_degree flip: node_ids_def)
next
  case False
  then have "v \<notin> fst ` set (in_degree spec)"
    unfolding node_ids_def by (metis in_degree_keys list.set_map)
  with False show ?thesis by (simp add: map_of_eq_None_iff)
qed

section \<open>One round of relaxation\<close>

lemma relax_deg:
  "relax es deg nr = (deg', nr') \<Longrightarrow>
     dict_get deg' v = map_option (\<lambda>d. d - int (count_to v es)) (dict_get deg v)"
  by (induction es deg nr rule: relax.induct) (auto simp: option.map_ident split: option.splits if_splits)

lemma relax_newly:
  assumes "relax es deg nr = (deg', nr')"
    and "\<forall>v d. dict_get deg v = Some d \<longrightarrow> int (count_to v es) \<le> d"
    and "distinct nr" and "\<forall>v \<in> set nr. dict_get deg v = Some 0"
  shows "distinct nr' \<and> set nr' = set nr \<union> {v. count_to v es > 0 \<and> dict_get deg v = Some (int (count_to v es))}"
  using assms
proof (induction es deg nr rule: relax.induct)
  case (2 e es deg nr)
  show ?case
  proof (cases "dict_get deg (es_to e)")
    case None
    have "\<forall>v d. dict_get deg v = Some d \<longrightarrow> int (count_to v es) \<le> d"
      using "2.prems"(2) None by (metis count_to_simps(2) option.distinct(1))
    with 2 None show ?thesis by auto
  next
    case (Some d)
    let ?t = "es_to e" and ?deg = "dict_set (es_to e) (d - 1) deg"
    let ?nr = "if d - 1 = 0 then nr @ [?t] else nr"
    have d: "int (count_to ?t es) + 1 \<le> d" using "2.prems"(2) Some by fastforce
    have fresh: "?t \<notin> set nr" using "2.prems"(4) Some d by auto
    have run: "relax es ?deg ?nr = (deg', nr')" using "2.prems"(1) Some by simp
    have bound: "\<forall>v x. dict_get ?deg v = Some x \<longrightarrow> int (count_to v es) \<le> x"
      using "2.prems"(2) d by (auto split: if_splits)
    have dist: "distinct ?nr" using "2.prems"(3) fresh by simp
    have zero: "\<forall>v \<in> set ?nr. dict_get ?deg v = Some 0"
      using "2.prems"(4) fresh by auto
    have "distinct nr' \<and> set nr' = set ?nr \<union> {v. count_to v es > 0 \<and> dict_get ?deg v = Some (int (count_to v es))}"
      using "2.IH"(2) [OF Some run bound dist zero] .
    then show ?thesis using d Some fresh "2.prems"(4) by (auto split: if_splits)
  qed
qed simp

section \<open>The invariant of the main loop\<close>

text \<open>The incoming edges of a node from nodes that are not yet emitted.\<close>

definition pending :: "pipeline_spec \<Rightarrow> string list \<Rightarrow> string \<Rightarrow> nat" where
  "pending spec order v = count_to v (filter (\<lambda>e. es_from e \<notin> set order) (real_edges spec))"

definition respects_edges :: "edge_spec list \<Rightarrow> string list \<Rightarrow> bool" where
  "respects_edges es order \<longleftrightarrow>
     (\<forall>i < length order. \<forall>e \<in> set es. es_to e = order ! i \<longrightarrow> es_from e \<in> set (take i order))"

definition kahn_inv :: "pipeline_spec \<Rightarrow> string list \<Rightarrow> int dict \<Rightarrow> string list \<Rightarrow> bool" where
  "kahn_inv spec ready deg order \<longleftrightarrow>
     distinct (order @ ready) \<and> set (order @ ready) \<subseteq> node_ids spec \<and>
     (\<forall>v. dict_get deg v = (if v \<in> node_ids spec then Some (int (pending spec order v)) else None)) \<and>
     (\<forall>v \<in> node_ids spec. v \<notin> set order \<longrightarrow> (v \<in> set ready \<longleftrightarrow> pending spec order v = 0)) \<and>
     respects_edges (real_edges spec) order"

lemma respects_snoc:
  "respects_edges es (order @ [n]) \<longleftrightarrow> respects_edges es order \<and> (\<forall>e \<in> set es. es_to e = n \<longrightarrow> es_from e \<in> set order)"
  by (auto simp: respects_edges_def nth_append less_Suc_eq)

lemma pending_0: "pending spec order v = 0 \<longleftrightarrow> (\<forall>e \<in> set (real_edges spec). es_to e = v \<longrightarrow> es_from e \<in> set order)"
  by (auto simp: pending_def count_to_0)

lemma pending_snoc:
  assumes "n \<in> node_ids spec" and "n \<notin> set order" and "v \<in> node_ids spec"
  shows "pending spec order v = pending spec (order @ [n]) v + count_to v (out_edges spec n)"
proof -
  let ?out = "\<lambda>e. es_from e \<notin> set order"
  have "count_to v (filter ?out (real_edges spec)) =
      count_to v (filter (\<lambda>e. ?out e \<and> es_from e = n) (real_edges spec)) +
      count_to v (filter (\<lambda>e. ?out e \<and> es_from e \<noteq> n) (real_edges spec))"
    by (rule count_to_split)
  moreover have "filter (\<lambda>e. es_to e = v \<and> ?out e \<and> es_from e = n) (real_edges spec) =
      filter (\<lambda>e. es_to e = v \<and> es_from e = n) (ps_edges spec)"
    unfolding real_edges_def filter_filter using assms by (intro filter_cong) auto
  moreover have "(\<lambda>e. ?out e \<and> es_from e \<noteq> n) = (\<lambda>e. es_from e \<notin> set (order @ [n]))"
    by auto
  ultimately show ?thesis
    by (simp add: pending_def count_to_def out_edges_def conj_commute)
qed

lemma kahn_inv_step:
  assumes inv: "kahn_inv spec (n # ready) deg order"
    and rel: "relax (out_edges spec n) deg [] = (deg', nr)"
  shows "kahn_inv spec (sort_key key (ready @ sort_key key nr)) deg' (order @ [n])"
proof -
  let ?V = "node_ids spec" and ?out = "\<lambda>v. count_to v (out_edges spec n)"
  from inv have dist: "distinct (order @ n # ready)" and sub: "set (order @ n # ready) \<subseteq> ?V"
    and deg: "\<And>v. dict_get deg v = (if v \<in> ?V then Some (int (pending spec order v)) else None)"
    and rdy: "\<And>v. v \<in> ?V \<Longrightarrow> v \<notin> set order \<Longrightarrow> v \<in> set (n # ready) \<longleftrightarrow> pending spec order v = 0"
    and resp: "respects_edges (real_edges spec) order"
    unfolding kahn_inv_def by auto
  from dist sub have n: "n \<in> ?V" "n \<notin> set order" by auto
  note split = pending_snoc [OF n]
  have deg': "dict_get deg' v = (if v \<in> ?V then Some (int (pending spec (order @ [n]) v)) else None)" for v
    using relax_deg [OF rel, of v] deg [of v] split [of v] by auto
  have nr: "distinct nr \<and> set nr = {v \<in> ?V. 0 < ?out v \<and> pending spec (order @ [n]) v = 0}"
    using relax_newly [OF rel] deg split by (force split: if_splits)
  have n0: "pending spec order n = 0" using rdy [OF n] by simp
  have ready0: "pending spec order v = 0" if "v \<in> set ready" for v
    using that rdy [of v] dist sub by auto
  have fresh: "v \<notin> set (order @ n # ready)" if "v \<in> set nr" for v
  proof -
    from that nr have v: "v \<in> ?V" "0 < ?out v" by auto
    then have "pending spec order v \<noteq> 0" using split [of v] by simp
    moreover have "v \<notin> set order"
    proof
      assume "v \<in> set order"
      then obtain i where i: "i < length order" "order ! i = v" by (auto simp: in_set_conv_nth)
      from v(2) obtain e where e: "e \<in> set (ps_edges spec)" "es_from e = n" "es_to e = v"
        by (auto simp: count_to_def out_edges_def filter_empty_conv)
      then have "e \<in> set (real_edges spec)" using v(1) n(1) by (auto simp: real_edges_def)
      with resp i e have "n \<in> set (take i order)" by (auto simp: respects_edges_def)
      with n(2) show False by (meson in_set_takeD)
    qed
    ultimately show ?thesis using n0 ready0 by auto
  qed
  have "v \<in> set (ready @ nr) \<longleftrightarrow> pending spec (order @ [n]) v = 0"
    if "v \<in> ?V" and "v \<notin> set (order @ [n])" for v
  proof (cases "0 < ?out v")
    case True
    then show ?thesis using that nr split [OF that(1)] ready0 by fastforce
  next
    case False
    then have "pending spec (order @ [n]) v = pending spec order v" using split [OF that(1)] by simp
    then show ?thesis using that nr False rdy [of v] by auto
  qed
  moreover have "respects_edges (real_edges spec) (order @ [n])"
    using resp n0 by (simp add: respects_snoc pending_0)
  moreover have "set nr \<inter> set (order @ n # ready) = {}" using fresh by blast
  moreover have "distinct nr" "set nr \<subseteq> ?V" using nr by auto
  ultimately show ?thesis
    unfolding kahn_inv_def using dist sub deg' by auto
qed

lemma kahn_inv_final:
  "kahn_inv spec ready deg order \<Longrightarrow>
     \<exists>deg'. kahn_inv spec [] deg' (kahn (out_edges spec) key ready deg order)"
proof (induction "out_edges spec" key ready deg order rule: kahn.induct)
  case (2 key n ready deg order)
  obtain deg' nr where r: "relax (out_edges spec n) deg [] = (deg', nr)" by fastforce
  from kahn_inv_step [OF "2.prems" r, of key] "2.hyps" [OF refl] r show ?case by simp
qed auto

lemma kahn_inv_init:
  "kahn_inv spec (sort_key (order_index spec) (map fst (filter (\<lambda>p. snd p = 0) (in_degree spec))))
     (in_degree spec) []"
proof -
  let ?deg = "in_degree spec"
  have keys: "distinct (map fst ?deg)" "fst ` set ?deg = node_ids spec"
    using wf_graph_nodes [of spec] in_degree_keys [of spec] 
    by (simp_all add: node_ids_def) (metis list.set_map)
  have get: "dict_get ?deg v = (if v \<in> node_ids spec then Some (int (pending spec [] v)) else None)" for v
    by (simp add: in_degree_get pending_def)
  have "v \<in> fst ` {p \<in> set ?deg. snd p = 0} \<longleftrightarrow> pending spec [] v = 0" if "v \<in> node_ids spec" for v
  proof -
    have "(v, d) \<in> set ?deg \<longleftrightarrow> d = int (pending spec [] v)" for d
      using get [of v] that map_of_eq_Some_iff [OF keys(1), of v d] by auto
    moreover have "v \<in> fst ` {p \<in> set ?deg. snd p = 0} \<longleftrightarrow> (v, 0) \<in> set ?deg" by force
    ultimately show ?thesis by simp
  qed
  moreover have "distinct (map fst (filter (\<lambda>p. snd p = 0) ?deg))"
    using keys(1) by (rule distinct_map_filter)
  moreover have "fst ` {p \<in> set ?deg. snd p = 0} \<subseteq> node_ids spec" using keys(2) by auto
  ultimately show ?thesis
    using get by (simp add: kahn_inv_def respects_edges_def)
qed

section \<open>Correctness\<close>

text \<open>The edges between declared nodes, as a relation.\<close>

definition node_rel :: "pipeline_spec \<Rightarrow> (string \<times> string) set" where
  "node_rel spec = edge_rel spec \<inter> node_ids spec \<times> node_ids spec"

lemma node_rel_real_edges: "node_rel spec = (\<lambda>e. (es_from e, es_to e)) ` set (real_edges spec)"
  by (auto simp: node_rel_def edge_rel_def real_edges_def)

lemma finite_node_ids [simp]: "finite (node_ids spec)"
  by (simp add: node_ids_def)

lemma finite_node_rel [simp]: "finite (node_rel spec)"
  by (simp add: node_rel_real_edges)

text \<open>Every edge goes forward in the order.\<close>

definition topo_sorted :: "(string \<times> string) set \<Rightarrow> string list \<Rightarrow> bool" where
  "topo_sorted r order \<longleftrightarrow> distinct order \<and>
     (\<forall>i < length order. \<forall>u. (u, order ! i) \<in> r \<longrightarrow> u \<in> set (take i order))"

lemma respects_topo_sorted:
  "distinct order \<Longrightarrow> respects_edges (real_edges spec) order \<Longrightarrow> topo_sorted (node_rel spec) order"
  by (auto simp: topo_sorted_def respects_edges_def node_rel_real_edges)

lemma kahn_result:
  obtains order deg where "kahn_inv spec [] deg order"
    and "topo_order spec = (if length order \<noteq> length (graph_nodes spec) then None else Some order)"
  using kahn_inv_final [OF kahn_inv_init, of spec "order_index spec"]
  by (auto simp: topo_order_def Let_def)

lemma topo_order_Some:
  assumes "topo_order spec = Some order"
  shows "topo_sorted (node_rel spec) order" and "set order = node_ids spec"
proof -
  obtain order' deg where inv: "kahn_inv spec [] deg order'"
    and eq: "topo_order spec = (if length order' \<noteq> length (graph_nodes spec) then None else Some order')"
    by (rule kahn_result)
  with assms have order: "order' = order" and len: "length order = length (graph_nodes spec)"
    by (auto split: if_splits)
  from inv order have dist: "distinct order" and sub: "set order \<subseteq> node_ids spec"
    and resp: "respects_edges (real_edges spec) order"
    by (auto simp: kahn_inv_def)
  show "topo_sorted (node_rel spec) order" using dist resp by (rule respects_topo_sorted)
  have "card (set order) = card (node_ids spec)"
    using len dist by (simp add: card_node_ids distinct_card)
  with sub show "set order = node_ids spec" by (intro card_subset_eq) auto
qed

lemma topo_sorted_acyclic:
  assumes sorted: "topo_sorted r order" and field: "\<And>u v. (u, v) \<in> r \<Longrightarrow> v \<in> set order"
  shows "acyclic r"
proof -
  let ?pos = "the_inv_into {..<length order} ((!) order)"
  have pos: "?pos (order ! k) = k" if "k < length order" for k
    using sorted that by (intro the_inv_into_f_f inj_on_nth) (auto simp: topo_sorted_def)
  have "?pos u < ?pos v" if uv: "(u, v) \<in> r" for u v
  proof -
    from field [OF uv] obtain i where i: "i < length order" "order ! i = v"
      by (auto simp: in_set_conv_nth)
    with sorted uv have "u \<in> set (take i order)" by (auto simp: topo_sorted_def)
    then obtain j where j: "j < i" "order ! j = u" using i(1) by (auto simp: in_set_conv_nth)
    show ?thesis using pos [of i] pos [of j] i j by simp
  qed
  then have "r \<subseteq> measure ?pos" by auto
  then show ?thesis by (meson wf_acyclic wf_measure wf_subset)
qed

lemma topo_order_None:
  assumes "topo_order spec = None"
  shows "\<not> acyclic (node_rel spec)"
proof
  assume acyc: "acyclic (node_rel spec)"
  obtain order deg where inv: "kahn_inv spec [] deg order"
    and eq: "topo_order spec = (if length order \<noteq> length (graph_nodes spec) then None else Some order)"
    by (rule kahn_result)
  let ?R = "node_ids spec - set order"
  from inv have dist: "distinct order" and sub: "set order \<subseteq> node_ids spec"
    and wait: "\<And>v. v \<in> ?R \<Longrightarrow> pending spec order v \<noteq> 0"
    by (auto simp: kahn_inv_def)
  have "set order \<noteq> node_ids spec"
    using eq assms distinct_card [OF dist] card_node_ids [of spec] by (auto split: if_splits)
  with sub obtain x where "x \<in> ?R" by blast
  moreover have "wf (node_rel spec)" using acyc by (simp add: finite_acyclic_wf)
  ultimately obtain v where v: "v \<in> ?R" and least: "\<And>u. (u, v) \<in> node_rel spec \<Longrightarrow> u \<notin> ?R"
    by (meson wfE_min)
  from wait [OF v] obtain e where "e \<in> set (real_edges spec)" "es_to e = v" "es_from e \<notin> set order"
    by (auto simp: pending_0)
  then have "(es_from e, v) \<in> node_rel spec" and "es_from e \<in> ?R"
    by (auto simp: node_rel_real_edges real_edges_def)
  with least show False by blast
qed

lemma topo_order_Some_acyclic: "topo_order spec = Some order \<Longrightarrow> acyclic (node_rel spec)"
  using topo_order_Some [of spec order] by (intro topo_sorted_acyclic [of _ order]) (auto simp: node_rel_def)

lemma topo_order_None_iff: "topo_order spec = None \<longleftrightarrow> \<not> acyclic (node_rel spec)"
  using topo_order_None topo_order_Some_acyclic by (cases "topo_order spec") auto

text \<open>
  C5. \<open>topo_order\<close> is correct and complete for every document: it answers \<open>None\<close> exactly when the edges
  between declared nodes form a cycle, and otherwise an order that lists every declared node once with
  every edge going forward. (The loop itself is shown to terminate by its definition.)
\<close>

theorem topo_order_correct:
  "case topo_order spec of
     None \<Rightarrow> \<not> acyclic (node_rel spec)
   | Some order \<Rightarrow> acyclic (node_rel spec) \<and> set order = node_ids spec \<and> topo_sorted (node_rel spec) order"
  using topo_order_Some topo_order_Some_acyclic topo_order_None by (cases "topo_order spec") auto

end
