(* ===== verification/Validate.thy ===== *)
theory Validate
  imports Run_Context Topo
begin

text \<open>
  \<open>validate_pipeline\<close> of \<open>etl_core/engine.py\<close>, one definition per block of the function, and what an empty
  list of issues means: \<open>runnable\<close> states in terms of the document and its edge relation, without the
  tables the code builds on the way, when a pipeline may be run.

  The code iterates over the members of a scope, a Python set, when it reports overlaps; the model takes
  the order of \<open>descendants\<close>, which fixes only the order of those issues.
\<close>

section \<open>Messages\<close>

definition node_issue :: "string \<Rightarrow> string \<Rightarrow> validation_issue" where
  "node_issue n m = \<lparr>vi_node_id = Some n, vi_message = m\<rparr>"

definition pipeline_issue :: "string \<Rightarrow> validation_issue" where
  "pipeline_issue m = \<lparr>vi_node_id = None, vi_message = m\<rparr>"

definition format_validation_error :: "config_errors \<Rightarrow> string" where
  "format_validation_error errs =
     ''invalid config: '' @ join_with ''; ''
       (map (\<lambda>(loc, m). (let l = join_with ''.'' loc in if l = [] then ''config'' else l) @ '': '' @ m)
         (take 5 errs))"

definition unknown_type_msg :: "'c registry \<Rightarrow> string \<Rightarrow> string" where
  "unknown_type_msg reg t =
     ''unknown node type '' @ repr_str t @ '' (known: '' @ join_with '', '' (sort (dict_keys reg)) @ '')''"

definition unknown_endpoint_msg :: "string \<Rightarrow> string \<Rightarrow> string" where
  "unknown_endpoint_msg endpoint n =
     ''edge '' @ repr_str endpoint @ '' references unknown node '' @ repr_str n"

definition nested_msg :: "string \<Rightarrow> string" where
  "nested_msg i = ''nested iterators are not supported (inside scope of '' @ repr_str i @ '')''"

definition overlap_msg :: "string \<Rightarrow> string \<Rightarrow> string" where
  "overlap_msg i j =
     ''node is downstream of two iterators ('' @ repr_str i @ '' and '' @ repr_str j @
     ''); iterator scopes must not overlap''"

definition iter_scope_msg :: string where
  "iter_scope_msg = ''$iter reference used outside of any iterator'' @ [sq_char] @ ''s downstream subgraph''"

definition unknown_upstream_msg :: "string \<Rightarrow> string" where
  "unknown_upstream_msg t = ''$upstream reference to unknown node '' @ repr_str t"

definition not_ancestor_msg :: "string \<Rightarrow> string" where
  "not_ancestor_msg t =
     ''$upstream reference to '' @ repr_str t @
     '', which is not an ancestor of this node (add an edge to order them)''"

section \<open>The checks, in order\<close>

fun duplicate_ids :: "string list \<Rightarrow> node_spec list \<Rightarrow> validation_issue list" where
  "duplicate_ids seen [] = []"
| "duplicate_ids seen (n # ns) =
     (if ns_id n \<in> set seen then [node_issue (ns_id n) ''duplicate node id''] else [])
     @ duplicate_ids (ns_id n # seen) ns"

text \<open>Types and configurations: the parsed configurations by node id, and the issues.\<close>

fun check_configs :: "'c registry \<Rightarrow> node_spec list \<Rightarrow> (string \<times> 'c) list \<Rightarrow>
    (string \<times> 'c) list \<times> validation_issue list" where
  "check_configs reg [] configs = (configs, [])"
| "check_configs reg (n # ns) configs =
     (case dict_get reg (ns_type n) of
        None \<Rightarrow>
          (let r = check_configs reg ns configs
           in (fst r, node_issue (ns_id n) (unknown_type_msg reg (ns_type n)) # snd r))
      | Some cls \<Rightarrow>
          if has_references (JDict (ns_config n)) then check_configs reg ns configs
          else (case cls_config_model cls (ns_config n) of
              Inr c \<Rightarrow> check_configs reg ns (dict_set (ns_id n) c configs)
            | Inl errs \<Rightarrow>
                (let r = check_configs reg ns configs
                 in (fst r, node_issue (ns_id n) (format_validation_error errs) # snd r))))"

type_synonym port_counts = "(string \<times> nat dict) list"

definition port_count :: "nat dict \<Rightarrow> string \<Rightarrow> nat" where
  "port_count counts p = (case dict_get counts p of None \<Rightarrow> 0 | Some k \<Rightarrow> k)"

definition node_counts :: "port_counts \<Rightarrow> string \<Rightarrow> nat dict" where
  "node_counts pc n = (case dict_get pc n of None \<Rightarrow> [] | Some d \<Rightarrow> d)"

definition bump :: "string \<Rightarrow> nat dict \<Rightarrow> nat dict" where
  "bump p counts = dict_set p (port_count counts p + 1) counts"

definition node_cls_of :: "'c registry \<Rightarrow> pipeline_spec \<Rightarrow> string \<Rightarrow> 'c node_cls option" where
  "node_cls_of reg spec n =
     (case dict_get (graph_nodes spec) n of None \<Rightarrow> None | Some m \<Rightarrow> dict_get reg (ns_type m))"

definition endpoint_issues :: "pipeline_spec \<Rightarrow> edge_spec \<Rightarrow> validation_issue list" where
  "endpoint_issues spec e =
     (if dict_has (graph_nodes spec) (es_from e) then []
      else [pipeline_issue (unknown_endpoint_msg ''from'' (es_from e))])
     @ (if dict_has (graph_nodes spec) (es_to e) then []
        else [pipeline_issue (unknown_endpoint_msg ''to'' (es_to e))])"

definition from_port_issues :: "'c registry \<Rightarrow> pipeline_spec \<Rightarrow> edge_spec \<Rightarrow> validation_issue list" where
  "from_port_issues reg spec e =
     (case node_cls_of reg spec (es_from e) of
        None \<Rightarrow> []
      | Some cls \<Rightarrow> if es_from_port e \<in> set (cls_output_ports cls) then []
          else [node_issue (es_from e) (''node has no output port '' @ repr_str (es_from_port e))])"

definition to_port_step :: "'c registry \<Rightarrow> pipeline_spec \<Rightarrow> edge_spec \<Rightarrow> port_counts \<Rightarrow>
    port_counts \<times> validation_issue list" where
  "to_port_step reg spec e pc =
     (case node_cls_of reg spec (es_to e) of
        None \<Rightarrow> (pc, [])
      | Some cls \<Rightarrow>
          if es_to_port e \<notin> set (cls_input_ports cls)
          then (pc, [node_issue (es_to e) (''node has no input port '' @ repr_str (es_to_port e))])
          else
            (let counts = bump (es_to_port e) (node_counts pc (es_to e))
             in (dict_set (es_to e) counts pc,
                 if \<not> cls_allow_multi_input cls \<and> port_count counts (es_to_port e) > 1
                 then [node_issue (es_to e) (''port '' @ repr_str (es_to_port e) @ '' accepts a single edge'')]
                 else [])))"

fun check_edges :: "'c registry \<Rightarrow> pipeline_spec \<Rightarrow> edge_spec list \<Rightarrow> port_counts \<Rightarrow>
    port_counts \<times> validation_issue list" where
  "check_edges reg spec [] pc = (pc, [])"
| "check_edges reg spec (e # es) pc =
     (let s = to_port_step reg spec e pc; r = check_edges reg spec es (fst s)
      in (fst r, endpoint_issues spec e @ from_port_issues reg spec e @ snd s @ snd r))"

definition port_issues :: "'c registry \<Rightarrow> (string \<times> 'c) list \<Rightarrow> port_counts \<Rightarrow> node_spec \<Rightarrow>
    validation_issue list" where
  "port_issues reg configs pc n =
     (case (dict_get reg (ns_type n), dict_get configs (ns_id n)) of
        (Some cls, Some c) \<Rightarrow>
          (let counts = node_counts pc (ns_id n)
           in map (\<lambda>p. node_issue (ns_id n) (''required input port '' @ repr_str p @ '' has no inbound edge''))
                (filter (\<lambda>p. port_count counts p = 0) (cls_required_input_ports cls c))
              @ map (node_issue (ns_id n)) (cls_check_spec cls c counts))
      | _ \<Rightarrow> [])"

definition fan_out_type :: "'c registry \<Rightarrow> string \<Rightarrow> bool" where
  "fan_out_type reg t = (case dict_get reg t of None \<Rightarrow> False | Some cls \<Rightarrow> cls_fan_out cls)"

definition iterator_ids :: "'c registry \<Rightarrow> pipeline_spec \<Rightarrow> string list" where
  "iterator_ids reg spec = map ns_id (filter (\<lambda>n. fan_out_type reg (ns_type n)) (ps_nodes spec))"

definition scopes :: "'c registry \<Rightarrow> pipeline_spec \<Rightarrow> (string \<times> string list) list" where
  "scopes reg spec = dict_of (map (\<lambda>i. (i, descendants spec i)) (iterator_ids reg spec))"

definition nested_issues :: "string list \<Rightarrow> (string \<times> string list) list \<Rightarrow> validation_issue list" where
  "nested_issues ids scs =
     concat (map (\<lambda>(i, scope). map (\<lambda>j. node_issue j (nested_msg i))
       (filter (\<lambda>j. j \<noteq> i \<and> j \<in> set scope) ids)) scs)"

fun overlap_issues :: "string dict \<Rightarrow> (string \<times> string) list \<Rightarrow> validation_issue list" where
  "overlap_issues owner [] = []"
| "overlap_issues owner ((i, m) # ps) =
     (case dict_get owner m of
        Some j \<Rightarrow> if j \<noteq> i then [node_issue m (overlap_msg j i)] else []
      | None \<Rightarrow> [])
     @ overlap_issues (dict_set m i owner) ps"

definition reference_issue :: "pipeline_spec \<Rightarrow> (string \<times> string list) list \<Rightarrow> string \<Rightarrow>
    ref_kind \<times> string \<Rightarrow> validation_issue list" where
  "reference_issue spec scs n ref =
     (case fst ref of
        Iter \<Rightarrow> if list_ex (\<lambda>s. n \<in> set (snd s)) scs then [] else [node_issue n iter_scope_msg]
      | Upstream \<Rightarrow>
          (let target = takeWhile (\<lambda>c. c \<noteq> CHR ''.'') (snd ref)
           in if \<not> dict_has (graph_nodes spec) target then [node_issue n (unknown_upstream_msg target)]
              else if target \<notin> set (ancestors spec n) then [node_issue n (not_ancestor_msg target)]
              else []))"

definition reference_issues :: "pipeline_spec \<Rightarrow> (string \<times> string list) list \<Rightarrow> node_spec \<Rightarrow>
    validation_issue list" where
  "reference_issues spec scs n =
     (if dict_has (graph_nodes spec) (ns_id n)
      then concat (map (reference_issue spec scs (ns_id n)) (find_references (JDict (ns_config n))))
      else [])"

definition scope_issues :: "'c registry \<Rightarrow> pipeline_spec \<Rightarrow> validation_issue list" where
  "scope_issues reg spec =
     (let scs = scopes reg spec
      in nested_issues (iterator_ids reg spec) scs
         @ overlap_issues [] (concat (map (\<lambda>(i, scope). map (Pair i) scope) scs))
         @ concat (map (reference_issues spec scs) (ps_nodes spec)))"

definition validate_pipeline :: "'c registry \<Rightarrow> pipeline_spec \<Rightarrow> validation_issue list" where
  "validate_pipeline reg spec =
     (let cfg = check_configs reg (ps_nodes spec) [];
          edg = check_edges reg spec (ps_edges spec) [];
          issues = duplicate_ids [] (ps_nodes spec)
            @ (if ps_nodes spec = [] then [pipeline_issue ''pipeline has no nodes''] else [])
            @ snd cfg @ snd edg
            @ concat (map (port_issues reg (fst cfg) (fst edg)) (ps_nodes spec))
      in (case topo_order spec of
            None \<Rightarrow> issues @ [pipeline_issue ''pipeline graph contains a cycle'']
          | Some _ \<Rightarrow> issues @ scope_issues reg spec))"

section \<open>What an accepted document satisfies\<close>

text \<open>The edges into each port of a node, counted directly on the document.\<close>

definition edges_into :: "pipeline_spec \<Rightarrow> string \<Rightarrow> string \<Rightarrow> edge_spec list" where
  "edges_into spec n p = filter (\<lambda>e. es_to e = n \<and> es_to_port e = p) (ps_edges spec)"

definition in_counts :: "edge_spec list \<Rightarrow> string \<Rightarrow> nat dict" where
  "in_counts es n = foldl (\<lambda>d e. if es_to e = n then bump (es_to_port e) d else d) [] es"

definition config_ok :: "'c registry \<Rightarrow> pipeline_spec \<Rightarrow> node_spec \<Rightarrow> bool" where
  "config_ok reg spec n \<longleftrightarrow>
     (\<exists>cls. dict_get reg (ns_type n) = Some cls \<and>
        (has_references (JDict (ns_config n)) \<or>
         (\<exists>c. cls_config_model cls (ns_config n) = Inr c \<and>
            (\<forall>p \<in> set (cls_required_input_ports cls c). edges_into spec (ns_id n) p \<noteq> []) \<and>
            cls_check_spec cls c (in_counts (ps_edges spec) (ns_id n)) = [])))"

definition edge_ok :: "'c registry \<Rightarrow> pipeline_spec \<Rightarrow> edge_spec \<Rightarrow> bool" where
  "edge_ok reg spec e \<longleftrightarrow>
     (\<exists>src dst. node_cls_of reg spec (es_from e) = Some src \<and> node_cls_of reg spec (es_to e) = Some dst \<and>
        es_from_port e \<in> set (cls_output_ports src) \<and> es_to_port e \<in> set (cls_input_ports dst) \<and>
        (cls_allow_multi_input dst \<or> length (edges_into spec (es_to e) (es_to_port e)) = 1))"

definition reference_ok :: "'c registry \<Rightarrow> pipeline_spec \<Rightarrow> string \<Rightarrow> ref_kind \<times> string \<Rightarrow> bool" where
  "reference_ok reg spec n ref \<longleftrightarrow>
     (case fst ref of
        Iter \<Rightarrow> \<exists>i \<in> set (iterator_ids reg spec). (i, n) \<in> (edge_rel spec)\<^sup>+
      | Upstream \<Rightarrow> (hd (split_on CHR ''.'' (snd ref)), n) \<in> (edge_rel spec)\<^sup>+)"

definition runnable :: "'c registry \<Rightarrow> pipeline_spec \<Rightarrow> bool" where
  "runnable reg spec \<longleftrightarrow>
     ps_nodes spec \<noteq> [] \<and> distinct (map ns_id (ps_nodes spec)) \<and>
     (\<forall>n \<in> set (ps_nodes spec). config_ok reg spec n) \<and>
     (\<forall>e \<in> set (ps_edges spec). edge_ok reg spec e) \<and>
     acyclic (edge_rel spec) \<and>
     (\<forall>i \<in> set (iterator_ids reg spec). \<forall>j \<in> set (iterator_ids reg spec). i \<noteq> j \<longrightarrow>
        (i, j) \<notin> (edge_rel spec)\<^sup>+ \<and>
        (\<forall>m. \<not> ((i, m) \<in> (edge_rel spec)\<^sup>+ \<and> (j, m) \<in> (edge_rel spec)\<^sup>+))) \<and>
     (\<forall>n \<in> set (ps_nodes spec). \<forall>ref \<in> set (find_references (JDict (ns_config n))).
        reference_ok reg spec (ns_id n) ref)"

section \<open>Each check is empty exactly when its condition holds\<close>

named_theorems issue_simps \<open>when a group of issues is empty\<close>

lemma duplicate_ids_Nil: "duplicate_ids seen ns = [] \<longleftrightarrow>
    distinct (map ns_id ns) \<and> ns_id ` set ns \<inter> set seen = {}"
  by (induction seen ns rule: duplicate_ids.induct) auto

lemma check_configs_Nil:
  "snd (check_configs reg ns configs) = [] \<longleftrightarrow>
     (\<forall>n \<in> set ns. \<exists>cls. dict_get reg (ns_type n) = Some cls \<and>
        (has_references (JDict (ns_config n)) \<or> (\<exists>c. cls_config_model cls (ns_config n) = Inr c)))"
  by (induction reg ns configs rule: check_configs.induct) (auto simp: Let_def split: option.splits sum.splits)

text \<open>The configuration validation can parse before the run.\<close>

definition parsed :: "'c registry \<Rightarrow> node_spec \<Rightarrow> 'c option" where
  "parsed reg n =
     (case dict_get reg (ns_type n) of
        None \<Rightarrow> None
      | Some cls \<Rightarrow> if has_references (JDict (ns_config n)) then None
          else (case cls_config_model cls (ns_config n) of Inr c \<Rightarrow> Some c | Inl _ \<Rightarrow> None))"

lemma check_configs_other:
  "x \<notin> ns_id ` set ns \<Longrightarrow> dict_get (fst (check_configs reg ns configs)) x = dict_get configs x"
  by (induction reg ns configs rule: check_configs.induct) (auto simp: Let_def split: option.splits sum.splits)

lemma check_configs_get:
  "distinct (map ns_id ns) \<Longrightarrow> ns_id ` set ns \<inter> fst ` set configs = {} \<Longrightarrow> n \<in> set ns \<Longrightarrow>
     dict_get (fst (check_configs reg ns configs)) (ns_id n) = parsed reg n"
proof (induction ns arbitrary: configs)
  case (Cons m ns)
  show ?case
  proof (cases "n = m")
    case True
    have "dict_get configs (ns_id m) = None" using Cons.prems(2) by (simp add: dict_get_None_iff)
    with True Cons.prems(1) show ?thesis
      by (auto simp: parsed_def check_configs_other Let_def split: option.splits sum.splits)
  next
    case False
    with Cons.prems have n: "n \<in> set ns" by simp
    have "ns_id n \<in> ns_id ` set ns" using n by (rule imageI)
    with Cons.prems(1) have "ns_id n \<noteq> ns_id m" by auto
    with Cons.prems(1,2) n Cons.IH show ?thesis
      by (auto simp: Let_def split: option.splits sum.splits)
  qed
qed simp

lemma port_count_bump [simp]: "port_count (bump p d) q = (if q = p then port_count d p + 1 else port_count d q)"
  by (simp add: port_count_def bump_def)

lemma in_counts_simps [simp]:
  "in_counts [] n = []"
  "in_counts (es @ [e]) n = (if es_to e = n then bump (es_to_port e) (in_counts es n) else in_counts es n)"
  by (simp_all add: in_counts_def)

lemma port_count_in_counts:
  "port_count (in_counts es n) p = length (filter (\<lambda>e. es_to e = n \<and> es_to_port e = p) es)"
  by (induction es rule: rev_induct) (auto simp: port_count_def [of "[]"])

text \<open>An edge whose endpoints and ports exist.\<close>

definition edge_base_ok :: "'c registry \<Rightarrow> pipeline_spec \<Rightarrow> edge_spec \<Rightarrow> bool" where
  "edge_base_ok reg spec e \<longleftrightarrow>
     dict_has (graph_nodes spec) (es_from e) \<and> dict_has (graph_nodes spec) (es_to e) \<and>
     (\<forall>cls. node_cls_of reg spec (es_from e) = Some cls \<longrightarrow> es_from_port e \<in> set (cls_output_ports cls)) \<and>
     (\<forall>cls. node_cls_of reg spec (es_to e) = Some cls \<longrightarrow> es_to_port e \<in> set (cls_input_ports cls))"

definition single_ok :: "'c registry \<Rightarrow> pipeline_spec \<Rightarrow> edge_spec list \<Rightarrow> edge_spec \<Rightarrow> bool" where
  "single_ok reg spec es e \<longleftrightarrow>
     (\<forall>cls. node_cls_of reg spec (es_to e) = Some cls \<longrightarrow> cls_allow_multi_input cls \<or>
        length (filter (\<lambda>x. es_to x = es_to e \<and> es_to_port x = es_to_port e) es) \<le> 1)"

lemma check_edges_base:
  "snd (check_edges reg spec es pc) = [] \<Longrightarrow> e \<in> set es \<Longrightarrow> edge_base_ok reg spec e"
  by (induction reg spec es pc rule: check_edges.induct)
    (auto simp: edge_base_ok_def endpoint_issues_def from_port_issues_def to_port_step_def Let_def
      simp del: dict_has_iff split: if_splits option.splits)

text \<open>The table of counts agrees with the edges already seen, for every node of a known type.\<close>

definition counts_inv :: "'c registry \<Rightarrow> pipeline_spec \<Rightarrow> edge_spec list \<Rightarrow> port_counts \<Rightarrow> bool" where
  "counts_inv reg spec seen pc \<longleftrightarrow>
     (\<forall>n. node_cls_of reg spec n \<noteq> None \<longrightarrow> node_counts pc n = in_counts seen n)"

lemma node_counts_set [simp]: "node_counts (dict_set n d pc) m = (if m = n then d else node_counts pc m)"
  by (simp add: node_counts_def)

lemma to_port_step_inv:
  assumes "counts_inv reg spec seen pc" and "edge_base_ok reg spec e"
  shows "counts_inv reg spec (seen @ [e]) (fst (to_port_step reg spec e pc))"
  using assms by (auto simp: counts_inv_def to_port_step_def edge_base_ok_def Let_def split: option.splits)

lemma check_edges_step_Nil:
  assumes "counts_inv reg spec seen pc" and "edge_base_ok reg spec e"
  shows "endpoint_issues spec e @ from_port_issues reg spec e @ snd (to_port_step reg spec e pc) = []
    \<longleftrightarrow> single_ok reg spec (seen @ [e]) e"
proof (cases "node_cls_of reg spec (es_to e)")
  case (Some cls)
  with assms(1) have "node_counts pc (es_to e) = in_counts seen (es_to e)" by (simp add: counts_inv_def)
  with assms(2) Some show ?thesis
    by (auto simp: edge_base_ok_def endpoint_issues_def from_port_issues_def to_port_step_def Let_def
        single_ok_def port_count_in_counts simp del: dict_has_iff split: option.splits)
qed (use assms(2) in \<open>auto simp: edge_base_ok_def endpoint_issues_def from_port_issues_def to_port_step_def
        single_ok_def simp del: dict_has_iff split: option.splits\<close>)

lemma check_edges_counts:
  "counts_inv reg spec seen pc \<Longrightarrow> \<forall>e \<in> set es. edge_base_ok reg spec e \<Longrightarrow>
     counts_inv reg spec (seen @ es) (fst (check_edges reg spec es pc))"
proof (induction es arbitrary: seen pc)
  case (Cons e es)
  then show ?case using Cons.IH [OF to_port_step_inv [of reg spec seen pc e]] by (simp add: Let_def)
qed simp

lemma single_ok_later:
  assumes "single_ok reg spec (seen @ [e]) e" and "\<forall>x \<in> set es. single_ok reg spec (seen @ e # es) x"
  shows "single_ok reg spec (seen @ e # es) e"
proof (cases "\<exists>x \<in> set es. es_to x = es_to e \<and> es_to_port x = es_to_port e")
  case True
  with assms(2) show ?thesis by (auto simp: single_ok_def)
next
  case False
  then have "filter (\<lambda>x. es_to x = es_to e \<and> es_to_port x = es_to_port e) es = []"
    by (auto simp: filter_empty_conv)
  with assms(1) show ?thesis by (simp add: single_ok_def)
qed

lemma single_ok_earlier: "single_ok reg spec (seen @ e # es) e \<Longrightarrow> single_ok reg spec (seen @ [e]) e"
  by (auto simp: single_ok_def)

lemma check_edges_Nil_iff:
  "counts_inv reg spec seen pc \<Longrightarrow> \<forall>e \<in> set es. edge_base_ok reg spec e \<Longrightarrow>
     snd (check_edges reg spec es pc) = [] \<longleftrightarrow> (\<forall>e \<in> set es. single_ok reg spec (seen @ es) e)"
proof (induction es arbitrary: seen pc)
  case (Cons e es)
  have ok: "edge_base_ok reg spec e" using Cons.prems(2) by simp
  have "snd (check_edges reg spec (e # es) pc) = [] \<longleftrightarrow>
      (endpoint_issues spec e @ from_port_issues reg spec e @ snd (to_port_step reg spec e pc) = []) \<and>
      snd (check_edges reg spec es (fst (to_port_step reg spec e pc))) = []"
    by (simp add: Let_def)
  also have "\<dots> \<longleftrightarrow> single_ok reg spec (seen @ [e]) e \<and> (\<forall>x \<in> set es. single_ok reg spec (seen @ e # es) x)"
    using Cons.IH [OF to_port_step_inv [OF Cons.prems(1) ok]] Cons.prems(2)
    by (simp only: check_edges_step_Nil [OF Cons.prems(1) ok]) simp
  also have "\<dots> \<longleftrightarrow> (\<forall>x \<in> set (e # es). single_ok reg spec (seen @ e # es) x)"
    using single_ok_later [of reg spec seen e es] single_ok_earlier [of reg spec seen e es] by auto
  finally show ?case .
qed simp

lemma graph_nodes_get: "dict_get (graph_nodes spec) x = Some n \<Longrightarrow> n \<in> set (ps_nodes spec) \<and> ns_id n = x"
  by (auto simp: graph_nodes_def dict_get_of dest!: map_of_SomeD)

lemma graph_nodes_keys: "fst ` set (graph_nodes spec) = ns_id ` set (ps_nodes spec)"
  by (simp add: graph_nodes_def set_dict_keys_of image_image)

lemma graph_nodes_distinct:
  "distinct (map ns_id (ps_nodes spec)) \<Longrightarrow> graph_nodes spec = map (\<lambda>n. (ns_id n, n)) (ps_nodes spec)"
  unfolding graph_nodes_def by (rule dict_of_id) (simp add: wf_dict_def comp_def)

lemma graph_nodes_node:
  assumes "distinct (map ns_id (ps_nodes spec))" and "n \<in> set (ps_nodes spec)"
  shows "dict_get (graph_nodes spec) (ns_id n) = Some n"
proof -
  have "distinct (map fst (map (\<lambda>n. (ns_id n, n)) (ps_nodes spec)))" using assms(1) by (simp add: comp_def)
  moreover have "(ns_id n, n) \<in> set (map (\<lambda>n. (ns_id n, n)) (ps_nodes spec))" using assms(2) by simp
  ultimately show ?thesis unfolding graph_nodes_distinct [OF assms(1)] by (rule map_of_is_SomeI)
qed

definition known_types :: "'c registry \<Rightarrow> pipeline_spec \<Rightarrow> bool" where
  "known_types reg spec \<longleftrightarrow> (\<forall>n \<in> set (ps_nodes spec). dict_get reg (ns_type n) \<noteq> None)"

lemma node_cls_of_known:
  assumes "known_types reg spec"
  shows "dict_has (graph_nodes spec) x \<longleftrightarrow> (\<exists>cls. node_cls_of reg spec x = Some cls)"
  using assms graph_nodes_get [of spec x]
  by (cases "dict_get (graph_nodes spec) x") (auto simp: dict_has_def known_types_def node_cls_of_def
      simp del: dict_has_iff)

lemma edge_ok_alt:
  assumes "known_types reg spec" and "e \<in> set (ps_edges spec)"
  shows "edge_ok reg spec e \<longleftrightarrow> edge_base_ok reg spec e \<and> single_ok reg spec (ps_edges spec) e"
proof -
  have "edges_into spec (es_to e) (es_to_port e) \<noteq> []"
    using assms(2) by (auto simp: edges_into_def filter_empty_conv)
  then have "length (edges_into spec (es_to e) (es_to_port e)) = 1 \<longleftrightarrow>
      length (edges_into spec (es_to e) (es_to_port e)) \<le> 1"
    by (cases "edges_into spec (es_to e) (es_to_port e)") auto
  then show ?thesis
    using node_cls_of_known [OF assms(1)]
    by (auto simp: edge_ok_def edge_base_ok_def single_ok_def edges_into_def simp del: dict_has_iff)
qed

lemma check_edges_Nil:
  assumes "known_types reg spec"
  shows "snd (check_edges reg spec (ps_edges spec) []) = [] \<longleftrightarrow> (\<forall>e \<in> set (ps_edges spec). edge_ok reg spec e)"
proof -
  have inv: "counts_inv reg spec [] []" by (simp add: counts_inv_def node_counts_def)
  have base: "\<forall>e \<in> set (ps_edges spec). edge_base_ok reg spec e"
    if "snd (check_edges reg spec (ps_edges spec) []) = []"
    using check_edges_base [OF that] by blast
  show ?thesis
  proof (cases "\<forall>e \<in> set (ps_edges spec). edge_base_ok reg spec e")
    case True
    with check_edges_Nil_iff [OF inv True] show ?thesis by (simp add: edge_ok_alt [OF assms])
  next
    case False
    with base show ?thesis by (auto simp: edge_ok_alt [OF assms])
  qed
qed

lemma check_edges_node_counts:
  assumes "known_types reg spec" and "\<forall>e \<in> set (ps_edges spec). edge_ok reg spec e"
    and "n \<in> set (ps_nodes spec)"
  shows "node_counts (fst (check_edges reg spec (ps_edges spec) [])) (ns_id n) = in_counts (ps_edges spec) (ns_id n)"
proof -
  have "counts_inv reg spec ([] @ ps_edges spec) (fst (check_edges reg spec (ps_edges spec) []))"
    using assms(2) by (intro check_edges_counts) (auto simp: counts_inv_def node_counts_def edge_ok_alt [OF assms(1)])
  moreover have "ns_id n \<in> fst ` set (graph_nodes spec)"
    unfolding graph_nodes_keys using assms(3) by (rule imageI)
  ultimately show ?thesis
    using node_cls_of_known [OF assms(1), of "ns_id n"] by (auto simp: counts_inv_def)
qed

lemma node_rel_edge_rel:
  assumes "\<forall>e \<in> set (ps_edges spec). edge_ok reg spec e"
  shows "node_rel spec = edge_rel spec" and "edge_rel spec \<subseteq> node_ids spec \<times> node_ids spec"
proof -
  have "es_from e \<in> node_ids spec \<and> es_to e \<in> node_ids spec" if "e \<in> set (ps_edges spec)" for e
    using assms that unfolding edge_ok_def node_cls_of_def node_ids_def
    by (force dest: dict_get_SomeD split: option.splits)
  then show sub: "edge_rel spec \<subseteq> node_ids spec \<times> node_ids spec" by (auto simp: edge_rel_def)
  then show "node_rel spec = edge_rel spec" by (auto simp: node_rel_def)
qed

lemma iterator_ids_distinct:
  "distinct (map ns_id (ps_nodes spec)) \<Longrightarrow> distinct (iterator_ids reg spec)"
  unfolding iterator_ids_def by (rule distinct_map_filter)

lemma scopes_distinct:
  "distinct (map ns_id (ps_nodes spec)) \<Longrightarrow>
     scopes reg spec = map (\<lambda>i. (i, descendants spec i)) (iterator_ids reg spec)"
  unfolding scopes_def using iterator_ids_distinct [of spec reg]
  by (intro dict_of_id) (simp add: wf_dict_def comp_def)

lemma overlap_issues_Nil:
  "overlap_issues owner ps = [] \<longleftrightarrow>
     (\<forall>p \<in> set ps. dict_get owner (snd p) \<in> {None, Some (fst p)}) \<and>
     (\<forall>p \<in> set ps. \<forall>q \<in> set ps. snd p = snd q \<longrightarrow> fst p = fst q)"
proof (induction ps arbitrary: owner)
  case (Cons p ps)
  obtain i m where p: "p = (i, m)" by (cases p)
  have "overlap_issues owner (p # ps) = [] \<longleftrightarrow>
      dict_get owner m \<in> {None, Some i} \<and> overlap_issues (dict_set m i owner) ps = []"
    by (auto simp: p split: option.splits)
  also have "\<dots> \<longleftrightarrow> dict_get owner m \<in> {None, Some i} \<and>
      (\<forall>q \<in> set ps. (if snd q = m then Some i else dict_get owner (snd q)) \<in> {None, Some (fst q)}) \<and>
      (\<forall>p \<in> set ps. \<forall>q \<in> set ps. snd p = snd q \<longrightarrow> fst p = fst q)"
    by (simp only: Cons.IH dict_get_set)
  also have "\<dots> \<longleftrightarrow> dict_get owner m \<in> {None, Some i} \<and>
      (\<forall>q \<in> set ps. dict_get owner (snd q) \<in> {None, Some (fst q)} \<and> (snd q = m \<longrightarrow> fst q = i)) \<and>
      (\<forall>p \<in> set ps. \<forall>q \<in> set ps. snd p = snd q \<longrightarrow> fst p = fst q)"
    by (intro conj_cong ball_cong refl) auto
  also have "\<dots> \<longleftrightarrow> (\<forall>q \<in> set (p # ps). dict_get owner (snd q) \<in> {None, Some (fst q)}) \<and>
      (\<forall>q \<in> set (p # ps). \<forall>r \<in> set (p # ps). snd q = snd r \<longrightarrow> fst q = fst r)"
    unfolding p by (simp only: list.set ball_simps prod.sel) blast
  finally show ?case .
qed simp

lemma pairs_unique_iff:
  "(\<forall>p \<in> {p. fst p \<in> A \<and> p \<in> E}. \<forall>q \<in> {p. fst p \<in> A \<and> p \<in> E}. snd p = snd q \<longrightarrow> fst p = fst q) \<longleftrightarrow>
   (\<forall>i \<in> A. \<forall>j \<in> A. i \<noteq> j \<longrightarrow> (\<forall>m. \<not> ((i, m) \<in> E \<and> (j, m) \<in> E)))"
  by fastforce

lemma pairs_conj_iff:
  "(\<forall>i \<in> A. \<forall>j \<in> A. j \<noteq> i \<longrightarrow> P i j) \<and> (\<forall>i \<in> A. \<forall>j \<in> A. i \<noteq> j \<longrightarrow> Q i j) \<longleftrightarrow>
   (\<forall>i \<in> A. \<forall>j \<in> A. i \<noteq> j \<longrightarrow> P i j \<and> Q i j)"
  by auto

lemma iterator_scope_issues_Nil:
  assumes "distinct (map ns_id (ps_nodes spec))"
  shows "nested_issues (iterator_ids reg spec) (scopes reg spec) = [] \<and>
      overlap_issues [] (concat (map (\<lambda>(i, scope). map (Pair i) scope) (scopes reg spec))) = [] \<longleftrightarrow>
    (\<forall>i \<in> set (iterator_ids reg spec). \<forall>j \<in> set (iterator_ids reg spec). i \<noteq> j \<longrightarrow>
        (i, j) \<notin> (edge_rel spec)\<^sup>+ \<and>
        (\<forall>m. \<not> ((i, m) \<in> (edge_rel spec)\<^sup>+ \<and> (j, m) \<in> (edge_rel spec)\<^sup>+)))"
proof -
  let ?ids = "set (iterator_ids reg spec)" and ?E = "(edge_rel spec)\<^sup>+"
  have nested: "nested_issues (iterator_ids reg spec) (scopes reg spec) = [] \<longleftrightarrow> (\<forall>i \<in> ?ids. \<forall>j \<in> ?ids. j \<noteq> i \<longrightarrow> (i, j) \<notin> ?E)"
    unfolding scopes_distinct [OF assms] nested_issues_def
    by (simp add: filter_empty_conv set_descendants) blast
  have "set (concat (map (\<lambda>(i, scope). map (Pair i) scope) (scopes reg spec))) =
      {p. fst p \<in> ?ids \<and> p \<in> ?E}"
    unfolding scopes_distinct [OF assms] by (auto simp: set_descendants)
  then have "overlap_issues [] (concat (map (\<lambda>(i, scope). map (Pair i) scope) (scopes reg spec))) = [] \<longleftrightarrow>
      (\<forall>p \<in> {p. fst p \<in> ?ids \<and> p \<in> ?E}. \<forall>q \<in> {p. fst p \<in> ?ids \<and> p \<in> ?E}. snd p = snd q \<longrightarrow> fst p = fst q)"
    by (simp only: overlap_issues_Nil map_of.simps insertI1 simp_thms ball_simps)
  also have "\<dots> \<longleftrightarrow> (\<forall>i \<in> ?ids. \<forall>j \<in> ?ids. i \<noteq> j \<longrightarrow> (\<forall>m. \<not> ((i, m) \<in> ?E \<and> (j, m) \<in> ?E)))"
    by (rule pairs_unique_iff)
  finally show ?thesis by (simp only: nested pairs_conj_iff)
qed

lemma reference_issue_Nil:
  assumes "distinct (map ns_id (ps_nodes spec))" and "\<forall>e \<in> set (ps_edges spec). edge_ok reg spec e"
  shows "reference_issue spec (scopes reg spec) x ref = [] \<longleftrightarrow> reference_ok reg spec x ref"
proof (cases "fst ref")
  case Iter
  then show ?thesis
    by (auto simp: reference_issue_def reference_ok_def scopes_distinct [OF assms(1)] list_ex_iff set_descendants)
next
  case Upstream
  have "(t, x) \<in> (edge_rel spec)\<^sup>+ \<Longrightarrow> dict_has (graph_nodes spec) t" for t
    using trancl_subset_Sigma [OF node_rel_edge_rel(2) [OF assms(2)]]
    unfolding dict_has_iff node_ids_def [symmetric] by blast
  with Upstream show ?thesis
    by (auto simp: reference_issue_def reference_ok_def Let_def set_ancestors hd_split_on simp del: dict_has_iff)
qed

lemma reference_issues_Nil:
  assumes "distinct (map ns_id (ps_nodes spec))" and "\<forall>e \<in> set (ps_edges spec). edge_ok reg spec e"
    and "n \<in> set (ps_nodes spec)"
  shows "reference_issues spec (scopes reg spec) n = [] \<longleftrightarrow>
    (\<forall>ref \<in> set (find_references (JDict (ns_config n))). reference_ok reg spec (ns_id n) ref)"
proof -
  have "dict_has (graph_nodes spec) (ns_id n)"
    unfolding dict_has_def graph_nodes_node [OF assms(1,3)] by simp
  then show ?thesis
    unfolding reference_issues_def by (simp add: reference_issue_Nil [OF assms(1,2)] del: dict_has_iff)
qed

lemma scope_issues_Nil:
  assumes "distinct (map ns_id (ps_nodes spec))" and "\<forall>e \<in> set (ps_edges spec). edge_ok reg spec e"
  shows "scope_issues reg spec = [] \<longleftrightarrow>
    (\<forall>i \<in> set (iterator_ids reg spec). \<forall>j \<in> set (iterator_ids reg spec). i \<noteq> j \<longrightarrow>
        (i, j) \<notin> (edge_rel spec)\<^sup>+ \<and>
        (\<forall>m. \<not> ((i, m) \<in> (edge_rel spec)\<^sup>+ \<and> (j, m) \<in> (edge_rel spec)\<^sup>+))) \<and>
    (\<forall>n \<in> set (ps_nodes spec). \<forall>ref \<in> set (find_references (JDict (ns_config n))).
        reference_ok reg spec (ns_id n) ref)"
proof -
  have "scope_issues reg spec = [] \<longleftrightarrow>
      (nested_issues (iterator_ids reg spec) (scopes reg spec) = [] \<and>
       overlap_issues [] (concat (map (\<lambda>(i, scope). map (Pair i) scope) (scopes reg spec))) = []) \<and>
      (\<forall>n \<in> set (ps_nodes spec). reference_issues spec (scopes reg spec) n = [])"
    by (simp add: scope_issues_def Let_def)
  then show ?thesis
    unfolding iterator_scope_issues_Nil [OF assms(1)] using reference_issues_Nil [OF assms] by simp
qed

lemma port_issues_Nil:
  assumes "distinct (map ns_id (ps_nodes spec))" and "known_types reg spec"
    and "\<forall>e \<in> set (ps_edges spec). edge_ok reg spec e" and "n \<in> set (ps_nodes spec)"
    and "dict_get reg (ns_type n) = Some cls"
    and "has_references (JDict (ns_config n)) \<or> (\<exists>c. cls_config_model cls (ns_config n) = Inr c)"
  shows "port_issues reg (fst (check_configs reg (ps_nodes spec) []))
      (fst (check_edges reg spec (ps_edges spec) [])) n = [] \<longleftrightarrow> config_ok reg spec n"
proof -
  have cfg: "dict_get (fst (check_configs reg (ps_nodes spec) [])) (ns_id n) = parsed reg n"
    by (rule check_configs_get [OF assms(1) _ assms(4)]) simp
  have req: "port_count (in_counts (ps_edges spec) (ns_id n)) p = 0 \<longleftrightarrow> edges_into spec (ns_id n) p = []" for p
    by (simp add: port_count_in_counts edges_into_def)
  from assms(6) show ?thesis
    by (auto simp: port_issues_def cfg check_edges_node_counts [OF assms(2-4)] req config_ok_def parsed_def
        assms(5) filter_empty_conv Let_def)
qed

lemma runnable_known_types: "\<forall>n \<in> set (ps_nodes spec). config_ok reg spec n \<Longrightarrow> known_types reg spec"
  by (fastforce simp: config_ok_def known_types_def)

lemma validate_Nil_runnable:
  assumes "validate_pipeline reg spec = []"
  shows "runnable reg spec"
proof -
  from assms have parts: "duplicate_ids [] (ps_nodes spec) = []" "ps_nodes spec \<noteq> []"
    "snd (check_configs reg (ps_nodes spec) []) = []" "snd (check_edges reg spec (ps_edges spec) []) = []"
    "\<forall>n \<in> set (ps_nodes spec). port_issues reg (fst (check_configs reg (ps_nodes spec) []))
       (fst (check_edges reg spec (ps_edges spec) [])) n = []"
    "topo_order spec \<noteq> None" "scope_issues reg spec = []"
    by (auto simp: validate_pipeline_def Let_def split: option.splits if_splits)
  have dist: "distinct (map ns_id (ps_nodes spec))" using parts(1) by (simp add: duplicate_ids_Nil)
  have known: "known_types reg spec" using parts(3) by (fastforce simp: check_configs_Nil known_types_def)
  have edges: "\<forall>e \<in> set (ps_edges spec). edge_ok reg spec e" using parts(4) check_edges_Nil [OF known] by simp
  have "config_ok reg spec n" if n: "n \<in> set (ps_nodes spec)" for n
  proof -
    obtain cls where "dict_get reg (ns_type n) = Some cls"
      "has_references (JDict (ns_config n)) \<or> (\<exists>c. cls_config_model cls (ns_config n) = Inr c)"
      using parts(3) n by (auto simp: check_configs_Nil)
    with parts(5) n show ?thesis using port_issues_Nil [OF dist known edges n] by blast
  qed
  moreover have "acyclic (edge_rel spec)"
    using parts(6) by (simp add: topo_order_None_iff node_rel_edge_rel(1) [OF edges])
  ultimately show ?thesis
    using parts(2,7) dist edges unfolding runnable_def scope_issues_Nil [OF dist edges] by blast
qed

lemma runnable_validate_Nil:
  assumes run: "runnable reg spec"
  shows "validate_pipeline reg spec = []"
proof -
  from run have ne: "ps_nodes spec \<noteq> []" and dist: "distinct (map ns_id (ps_nodes spec))"
    and cfg: "\<forall>n \<in> set (ps_nodes spec). config_ok reg spec n"
    and edges: "\<forall>e \<in> set (ps_edges spec). edge_ok reg spec e" and acyc: "acyclic (edge_rel spec)"
    unfolding runnable_def by blast+
  have known: "known_types reg spec" by (rule runnable_known_types [OF cfg])
  have "snd (check_configs reg (ps_nodes spec) []) = []"
    using cfg unfolding check_configs_Nil config_ok_def by blast
  moreover have "port_issues reg (fst (check_configs reg (ps_nodes spec) []))
      (fst (check_edges reg spec (ps_edges spec) [])) n = []" if n: "n \<in> set (ps_nodes spec)" for n
    using cfg n port_issues_Nil [OF dist known edges n] unfolding config_ok_def by blast
  moreover have "topo_order spec \<noteq> None"
    using acyc by (simp add: topo_order_None_iff node_rel_edge_rel(1) [OF edges])
  moreover have "scope_issues reg spec = []"
    using run unfolding scope_issues_Nil [OF dist edges] runnable_def by blast
  ultimately show ?thesis
    using ne dist edges check_edges_Nil [OF known]
    by (auto simp: validate_pipeline_def Let_def duplicate_ids_Nil)
qed

text \<open>
  C8. \<open>validate_pipeline\<close> is sound and complete: it reports no issue if and only if the document is
  runnable, that is, it has nodes with distinct ids; every node has a registered type and, unless it
  contains references, a configuration its model accepts, with an edge into every port that configuration
  requires and no complaint of the node type about the edge counts; every edge joins existing ports, with
  one edge only into a single-input port; the edges are acyclic; no iterator lies in another's scope and
  no node in two scopes; every \<open>$iter\<close> reference is used inside an iterator's scope and every \<open>$upstream\<close>
  reference names an ancestor.
\<close>

theorem validate_pipeline_correct: "validate_pipeline reg spec = [] \<longleftrightarrow> runnable reg spec"
  using validate_Nil_runnable runnable_validate_Nil by blast

end
