(* ===== verification/Fanout.thy ===== *)
theory Fanout
  imports Run_Context
begin

text \<open>
  The concurrent part of \<open>_run_iterator\<close> in \<open>etl_core/engine.py\<close>: one asyncio task per value, each running
  the scope in topological order inside a semaphore, under \<open>gather\<close> or under a \<open>TaskGroup\<close>.

  A state holds the tasks in index order, the permits left in the semaphore, and the log. A choice is one
  move of the event loop: a task takes the semaphore (in the order the tasks queued on it), executes its
  next node, or leaves; or, in a \<open>TaskGroup\<close> one of whose tasks has failed, every unfinished task is
  cancelled. A node execution is one move, because \<open>exec\<close>, the closure of \<open>_execute_node\<close>, reads only the
  outputs of its own iteration and of nodes that ran before the fan-out. Every interleaving is a sequence
  of choices; \<open>run_schedule\<close> follows a given one as far as it is possible and then finishes.
\<close>

section \<open>Tasks and moves\<close>

type_synonym outputs_map = "(string \<times> node_outputs) list"

datatype task =
    TWait
  | TRun "string list" outputs_map
  | TDone outputs_map
  | TFail string node_error
  | TCrash exn
  | TCancel

record fan_env =
  fe_exec :: "nat \<Rightarrow> string \<Rightarrow> outputs_map \<Rightarrow> node_outputs logged"
  fe_wrap :: "nat \<Rightarrow> node_error \<Rightarrow> node_error"
  fe_init :: "nat \<Rightarrow> outputs_map"
  fe_scope :: "string list"
  fe_fail_fast :: bool

record fan_state =
  fs_tasks :: "task list"
  fs_permits :: nat
  fs_log :: "log_event list"

datatype choice = Advance nat | CancelAll

fun running :: "task \<Rightarrow> bool" where
  "running (TRun ns local) = True"
| "running t = False"

fun unfinished :: "task \<Rightarrow> bool" where
  "unfinished TWait = True"
| "unfinished (TRun ns local) = True"
| "unfinished t = False"

definition cancel_task :: "task \<Rightarrow> task" where
  "cancel_task t = (if unfinished t then TCancel else t)"

fun failed_task :: "task \<Rightarrow> bool" where
  "failed_task (TFail n e) = True"
| "failed_task (TCrash x) = True"
| "failed_task t = False"

text \<open>One turn of the loop over \<open>scope_topo\<close> in \<open>run_iteration\<close>.\<close>

fun run_iteration_step :: "fan_env \<Rightarrow> nat \<Rightarrow> string list \<Rightarrow> outputs_map \<Rightarrow> task \<times> log_event list" where
  "run_iteration_step env i [] local = (TDone local, [])"
| "run_iteration_step env i (n # ns) local =
     (case fe_exec env i n local of
        (Inr out, lg) \<Rightarrow> (TRun ns (dict_set n out local), lg)
      | (Inl (NodeExecutionError e), lg) \<Rightarrow> (TFail n (fe_wrap env i e), lg)
      | (Inl x, lg) \<Rightarrow> (TCrash x, lg))"

definition can_start :: "fan_state \<Rightarrow> nat \<Rightarrow> bool" where
  "can_start s i \<longleftrightarrow> fs_permits s > 0 \<and> list_all (\<lambda>t. t \<noteq> TWait) (take i (fs_tasks s))"

fun enabled :: "fan_env \<Rightarrow> fan_state \<Rightarrow> choice \<Rightarrow> bool" where
  "enabled env s (Advance i) \<longleftrightarrow> i < length (fs_tasks s) \<and>
     (case fs_tasks s ! i of TWait \<Rightarrow> can_start s i | TRun ns local \<Rightarrow> True | _ \<Rightarrow> False)"
| "enabled env s CancelAll \<longleftrightarrow>
     fe_fail_fast env \<and> list_ex failed_task (fs_tasks s) \<and> list_ex unfinished (fs_tasks s)"

fun move :: "fan_env \<Rightarrow> choice \<Rightarrow> fan_state \<Rightarrow> fan_state" where
  "move env (Advance i) s =
     (case fs_tasks s ! i of
        TWait \<Rightarrow> s\<lparr>fs_tasks := (fs_tasks s)[i := TRun (fe_scope env) (fe_init env i)],
                    fs_permits := fs_permits s - 1\<rparr>
      | TRun ns local \<Rightarrow>
          (case run_iteration_step env i ns local of (t, lg) \<Rightarrow>
             s\<lparr>fs_tasks := (fs_tasks s)[i := t],
               fs_permits := fs_permits s + (if running t then 0 else 1), fs_log := fs_log s @ lg\<rparr>)
      | _ \<Rightarrow> s)"
| "move env CancelAll s =
     s\<lparr>fs_tasks := map cancel_task (fs_tasks s),
       fs_permits := fs_permits s + length (filter running (fs_tasks s))\<rparr>"

definition fan_start :: "nat \<Rightarrow> nat \<Rightarrow> fan_state" where
  "fan_start n cap = \<lparr>fs_tasks = replicate n TWait, fs_permits = cap, fs_log = []\<rparr>"

section \<open>Running to the end\<close>

fun task_work :: "string list \<Rightarrow> task \<Rightarrow> nat" where
  "task_work scope TWait = length scope + 2"
| "task_work scope (TRun ns local) = length ns + 1"
| "task_work scope t = 0"

definition fan_work :: "fan_env \<Rightarrow> fan_state \<Rightarrow> nat" where
  "fan_work env s = sum_list (map (task_work (fe_scope env)) (fs_tasks s))"

definition next_choice :: "fan_env \<Rightarrow> fan_state \<Rightarrow> choice option" where
  "next_choice env s =
     find (enabled env s) (CancelAll # map Advance [0..<length (fs_tasks s)])"

lemma sum_list_update_less:
  "i < length xs \<Longrightarrow> f y < f (xs ! i) \<Longrightarrow> sum_list (map f (xs[i := y])) < (sum_list (map f xs) :: nat)"
proof (induction xs arbitrary: i)
  case (Cons x xs)
  then show ?case by (cases i) auto
qed simp

lemma run_iteration_step_work:
  "run_iteration_step env i ns local = (t, lg) \<Longrightarrow> task_work scope t < length ns + 1"
  by (cases "(env, i, ns, local)" rule: run_iteration_step.cases)
    (auto split: prod.splits sum.splits exn.splits)

lemma cancel_work: "list_ex unfinished ts \<Longrightarrow>
    sum_list (map (task_work scope) (map cancel_task ts))
      < sum_list (map (task_work scope) ts)"
proof -
  have le: "sum_list (map (task_work scope) (map cancel_task ts))
      \<le> sum_list (map (task_work scope) ts)" for ts
    by (induction ts) (auto simp: cancel_task_def)
  show "list_ex unfinished ts \<Longrightarrow> ?thesis"
  proof (induction ts)
    case (Cons t ts)
    show ?case
    proof (cases "unfinished t")
      case True
      then have "task_work scope TCancel < task_work scope t" by (cases t) auto
      with True le [of ts] show ?thesis by (simp add: cancel_task_def [of t])
    qed (use Cons in \<open>simp add: cancel_task_def [of t]\<close>)
  qed simp
qed

lemma move_work: "enabled env s c \<Longrightarrow> fan_work env (move env c s) < fan_work env s"
proof (cases c)
  case (Advance i)
  assume en: "enabled env s c"
  then have i: "i < length (fs_tasks s)" by (simp add: Advance)
  show ?thesis
  proof (cases "fs_tasks s ! i")
    case TWait
    with i show ?thesis
      by (auto simp: Advance fan_work_def intro!: sum_list_update_less)
  next
    case (TRun ns local)
    obtain t lg where "run_iteration_step env i ns local = (t, lg)" by fastforce
    with i TRun run_iteration_step_work [OF this, of "fe_scope env"] show ?thesis
      by (auto simp: Advance fan_work_def intro!: sum_list_update_less)
  qed (use en Advance in auto)
next
  case CancelAll
  assume "enabled env s c"
  with CancelAll cancel_work show ?thesis by (simp add: fan_work_def)
qed

lemma next_choice_enabled: "next_choice env s = Some c \<Longrightarrow> enabled env s c"
  unfolding next_choice_def by (metis find_Some_iff)

function drain :: "fan_env \<Rightarrow> fan_state \<Rightarrow> fan_state" where
  "drain env s = (case next_choice env s of None \<Rightarrow> s | Some c \<Rightarrow> drain env (move env c s))"
  by pat_completeness auto
termination
  by (relation "measure (\<lambda>(env, s). fan_work env s)") (auto dest: next_choice_enabled move_work)

declare drain.simps [simp del]

fun run_schedule :: "fan_env \<Rightarrow> choice list \<Rightarrow> fan_state \<Rightarrow> fan_state" where
  "run_schedule env [] s = drain env s"
| "run_schedule env (c # cs) s = run_schedule env cs (if enabled env s c then move env c s else s)"

section \<open>Reachable states\<close>

inductive fan_step :: "fan_env \<Rightarrow> fan_state \<Rightarrow> fan_state \<Rightarrow> bool" for env where
  fan_move: "enabled env s c \<Longrightarrow> fan_step env s (move env c s)"

inductive_cases fan_stepE: "fan_step env s s'"

text \<open>The outcome of one iteration run alone, from start to end.\<close>

fun seq_iteration :: "fan_env \<Rightarrow> nat \<Rightarrow> string list \<Rightarrow> outputs_map \<Rightarrow> task" where
  "seq_iteration env i [] local = TDone local"
| "seq_iteration env i (n # ns) local =
     (case fst (fe_exec env i n local) of
        Inr out \<Rightarrow> seq_iteration env i ns (dict_set n out local)
      | Inl (NodeExecutionError e) \<Rightarrow> TFail n (fe_wrap env i e)
      | Inl x \<Rightarrow> TCrash x)"

definition iteration :: "fan_env \<Rightarrow> nat \<Rightarrow> task" where
  "iteration env i = seq_iteration env i (fe_scope env) (fe_init env i)"

fun task_ok :: "fan_env \<Rightarrow> bool \<Rightarrow> nat \<Rightarrow> task \<Rightarrow> bool" where
  "task_ok env cancelled i TWait \<longleftrightarrow> True"
| "task_ok env cancelled i (TRun ns local) \<longleftrightarrow> seq_iteration env i ns local = iteration env i"
| "task_ok env cancelled i TCancel \<longleftrightarrow> cancelled"
| "task_ok env cancelled i t \<longleftrightarrow> iteration env i = t"

definition fan_inv :: "fan_env \<Rightarrow> nat \<Rightarrow> nat \<Rightarrow> fan_state \<Rightarrow> bool" where
  "fan_inv env n cap s \<longleftrightarrow>
     length (fs_tasks s) = n \<and>
     fs_permits s + length (filter running (fs_tasks s)) = cap \<and>
     (\<forall>i j. i < j \<and> j < n \<and> fs_tasks s ! i = TWait \<longrightarrow> fs_tasks s ! j = TWait) \<and>
     (\<forall>i < n. task_ok env (fe_fail_fast env \<and> list_ex failed_task (fs_tasks s)) i (fs_tasks s ! i))"

lemma seq_iteration_not_running: "\<not> unfinished (seq_iteration env i ns local) \<and> seq_iteration env i ns local \<noteq> TCancel"
  by (induction env i ns local rule: seq_iteration.induct) (auto split: sum.splits exn.splits)

lemma run_iteration_step_ok:
  assumes "run_iteration_step env i ns local = (t, lg)" and "seq_iteration env i ns local = iteration env i"
  shows "task_ok env b i t" and "t \<noteq> TWait"
proof -
  show "t \<noteq> TWait" using assms(1) by (cases ns) (auto split: sum.splits exn.splits prod.splits)
  show "task_ok env b i t"
  proof (cases ns)
    case (Cons m ms)
    obtain r lg' where "fe_exec env i m local = (r, lg')" by fastforce
    with assms Cons show ?thesis by (cases r) (auto split: exn.splits)
  next
    case Nil
    with assms have "t = TDone local" "iteration env i = TDone local" by auto
    then show ?thesis by simp
  qed
qed

lemma task_ok_mono: "task_ok env b i t \<Longrightarrow> (b \<Longrightarrow> b') \<Longrightarrow> task_ok env b' i t"
  by (cases t) simp_all

lemma running_update:
  "i < length ts \<Longrightarrow> length (filter running (ts[i := t])) + (if running (ts ! i) then 1 else 0)
     = length (filter running ts) + (if running t then 1 else 0)"
proof (induction ts arbitrary: i)
  case (Cons x ts)
  then show ?case by (cases i) auto
qed simp

lemma list_ex_update: "i < length ts \<Longrightarrow> \<not> P (ts ! i) \<Longrightarrow> list_ex P ts \<Longrightarrow> list_ex P (ts[i := t])"
proof -
  assume i: "\<not> P (ts ! i)" and "list_ex P ts"
  then obtain k where k: "k < length ts" "P (ts ! k)" by (auto simp: list_ex_iff in_set_conv_nth)
  with i have "ts[i := t] ! k = ts ! k" by (metis nth_list_update_neq)
  with k show "list_ex P (ts[i := t])" by (metis length_list_update list_ex_iff nth_mem)
qed

lemma cancel_task_simps [simp]:
  "running (cancel_task t) = False"
  "failed_task (cancel_task t) = failed_task t"
  "(cancel_task t = TWait) = False"
  by (cases t; simp add: cancel_task_def)+

lemma fan_inv_start: "fan_inv env n cap (fan_start n cap)"
  by (simp add: fan_inv_def fan_start_def)

lemma fan_inv_replace:
  assumes inv: "fan_inv env n cap s" and i: "i < n" and old: "unfinished (fs_tasks s ! i)"
    and t: "task_ok env False i t" "t \<noteq> TWait"
    and fifo: "fs_tasks s ! i = TWait \<Longrightarrow> can_start s i"
    and sem: "p + (if running t then 1 else 0) = fs_permits s + (if running (fs_tasks s ! i) then 1 else 0)"
  shows "fan_inv env n cap (s\<lparr>fs_tasks := (fs_tasks s)[i := t], fs_permits := p, fs_log := lg\<rparr>)"
proof -
  have len: "i < length (fs_tasks s)" using inv i by (simp add: fan_inv_def)
  have "p + length (filter running ((fs_tasks s)[i := t])) = cap"
    using inv running_update [OF len, of t] sem by (auto simp: fan_inv_def split: if_splits)
  moreover have "(fs_tasks s)[i := t] ! k = TWait"
    if jk: "j < k" "k < n" "(fs_tasks s)[i := t] ! j = TWait" for j k
  proof -
    have j: "j \<noteq> i" "fs_tasks s ! j = TWait" using jk t(2) len by (auto simp: nth_list_update split: if_splits)
    then have all: "fs_tasks s ! k = TWait" if "j < k" "k < n" for k using inv that by (auto simp: fan_inv_def)
    have "k \<noteq> i"
    proof
      assume "k = i"
      with all jk have "can_start s i" by (intro fifo) simp
      then have "\<forall>m < i. m < length (fs_tasks s) \<longrightarrow> fs_tasks s ! m \<noteq> TWait"
        by (auto simp: can_start_def list_all_iff in_set_conv_nth)
      with j jk len \<open>k = i\<close> show False by simp
    qed
    with all jk show ?thesis by simp
  qed
  moreover have "task_ok env (fe_fail_fast env \<and> list_ex failed_task ((fs_tasks s)[i := t])) k ((fs_tasks s)[i := t] ! k)"
    if k: "k < n" for k
  proof (cases "k = i")
    case True
    with t(1) len show ?thesis by (simp add: task_ok_mono)
  next
    case False
    have "\<not> failed_task (fs_tasks s ! i)" using old by (cases "fs_tasks s ! i") auto
    then have "list_ex failed_task (fs_tasks s) \<Longrightarrow> list_ex failed_task ((fs_tasks s)[i := t])"
      using list_ex_update [OF len] by blast
    moreover have "task_ok env (fe_fail_fast env \<and> list_ex failed_task (fs_tasks s)) k (fs_tasks s ! k)"
      using inv k by (simp add: fan_inv_def)
    ultimately show ?thesis using False by (auto elim: task_ok_mono)
  qed
  ultimately show ?thesis using inv by (simp add: fan_inv_def) blast
qed

lemma fan_inv_advance:
  assumes inv: "fan_inv env n cap s" and en: "enabled env s (Advance i)"
  shows "fan_inv env n cap (move env (Advance i) s)"
proof -
  have i: "i < n" using inv en by (simp add: fan_inv_def)
  consider (wait) "fs_tasks s ! i = TWait" "can_start s i" | (run) ns local where "fs_tasks s ! i = TRun ns local"
    using en by (auto split: task.splits)
  then show ?thesis
  proof cases
    case wait
    have "fan_inv env n cap (s\<lparr>fs_tasks := (fs_tasks s)[i := TRun (fe_scope env) (fe_init env i)],
        fs_permits := fs_permits s - 1, fs_log := fs_log s\<rparr>)"
      using wait by (intro fan_inv_replace [OF inv i]) (auto simp: iteration_def can_start_def)
    with wait show ?thesis by simp
  next
    case run
    obtain t lg where step: "run_iteration_step env i ns local = (t, lg)" by fastforce
    have "seq_iteration env i ns local = iteration env i" using inv i run by (auto simp: fan_inv_def)
    note ok = run_iteration_step_ok [OF step this]
    have "fan_inv env n cap (s\<lparr>fs_tasks := (fs_tasks s)[i := t],
        fs_permits := fs_permits s + (if running t then 0 else 1), fs_log := fs_log s @ lg\<rparr>)"
      using run ok by (intro fan_inv_replace [OF inv i]) auto
    with run step show ?thesis by simp
  qed
qed

lemma fan_inv_cancel:
  assumes inv: "fan_inv env n cap s" and en: "enabled env s CancelAll"
  shows "fan_inv env n cap (move env CancelAll s)"
proof -
  have "filter running (map cancel_task (fs_tasks s)) = []"
    by (simp add: filter_map comp_def)
  moreover have "list_ex failed_task (map cancel_task (fs_tasks s)) \<longleftrightarrow> list_ex failed_task (fs_tasks s)"
    by (simp add: list_ex_iff)
  moreover have "task_ok env b i t \<Longrightarrow> b \<Longrightarrow> task_ok env b i (cancel_task t)" for b i t
    by (cases t) (simp_all add: cancel_task_def)
  ultimately show ?thesis using inv en by (simp add: fan_inv_def del: task_ok.simps)
qed

lemma fan_inv_step: "fan_inv env n cap s \<Longrightarrow> enabled env s c \<Longrightarrow> fan_inv env n cap (move env c s)"
  using fan_inv_advance fan_inv_cancel by (cases c) blast+

lemma fan_inv_reachable: "(fan_step env)\<^sup>*\<^sup>* (fan_start n cap) s \<Longrightarrow> fan_inv env n cap s"
  by (induction rule: rtranclp_induct) (auto intro: fan_inv_start fan_inv_step elim: fan_stepE)

section \<open>Runs to the end\<close>

lemma drain_reach: "(fan_step env)\<^sup>*\<^sup>* s (drain env s)"
proof (induction env s rule: drain.induct)
  case (1 env s)
  show ?case
  proof (cases "next_choice env s")
    case (Some c)
    then have "fan_step env s (move env c s)" by (blast intro: fan_move next_choice_enabled)
    with 1 [OF Some] Some show ?thesis by (simp add: drain.simps [of env s] converse_rtranclp_into_rtranclp)
  qed (simp add: drain.simps)
qed

lemma drain_stuck: "next_choice env (drain env s) = None"
proof (induction env s rule: drain.induct)
  case (1 env s)
  then show ?case by (cases "next_choice env s") (simp_all add: drain.simps [of env s])
qed

lemma run_schedule_reach: "(fan_step env)\<^sup>*\<^sup>* s (run_schedule env cs s)"
proof (induction env cs s rule: run_schedule.induct)
  case (2 env c cs s)
  show ?case
  proof (cases "enabled env s c")
    case True
    with 2 show ?thesis by (auto intro: converse_rtranclp_into_rtranclp fan_move)
  qed (use 2 in simp)
qed (simp add: drain_reach)

lemma run_schedule_stuck: "next_choice env (run_schedule env cs s) = None"
  by (induction env cs s rule: run_schedule.induct) (simp_all add: drain_stuck)

text \<open>With a permit to start with, a state without a move has no unfinished task.\<close>

lemma stuck_finished:
  assumes inv: "fan_inv env n cap s" and cap: "cap > 0" and stuck: "next_choice env s = None"
  shows "\<forall>t \<in> set (fs_tasks s). \<not> unfinished t"
proof -
  let ?ts = "fs_tasks s"
  have no: "\<not> enabled env s (Advance i)" if "i < length ?ts" for i
  proof -
    have "Advance i \<in> set (CancelAll # map Advance [0..<length ?ts])" using that by simp
    with stuck show ?thesis unfolding next_choice_def find_None_iff by blast
  qed
  then have norun: "\<not> running (?ts ! i)" if "i < length ?ts" for i
    using no [OF that] that by (cases "?ts ! i") auto
  then have "filter running ?ts = []" by (auto simp: filter_empty_conv in_set_conv_nth)
  then have permits: "fs_permits s > 0" using inv cap by (simp add: fan_inv_def)
  have nowait: "?ts ! i \<noteq> TWait" if "i < length ?ts" for i
    using that
  proof (induction i rule: less_induct)
    case (less i)
    then have "list_all (\<lambda>t. t \<noteq> TWait) (take i ?ts)" by (auto simp: list_all_iff in_set_conv_nth)
    with less.prems permits no [of i] show ?case by (auto simp: can_start_def)
  qed
  have "\<not> unfinished (?ts ! i)" if "i < length ?ts" for i
    using norun [OF that] nowait [OF that] by (cases "?ts ! i") auto
  then show ?thesis by (auto simp: in_set_conv_nth)
qed

lemma run_schedule_tasks:
  assumes "cap > 0" and "s = run_schedule env cs (fan_start n cap)"
  shows "length (fs_tasks s) = n" and "\<forall>t \<in> set (fs_tasks s). \<not> unfinished t"
    and "\<forall>i < n. fs_tasks s ! i = iteration env i \<or>
      fs_tasks s ! i = TCancel \<and> fe_fail_fast env \<and> list_ex failed_task (fs_tasks s)"
proof -
  have inv: "fan_inv env n cap s"
    using run_schedule_reach [of env "fan_start n cap" cs] assms(2) by (auto intro: fan_inv_reachable)
  then show len: "length (fs_tasks s) = n" by (simp add: fan_inv_def)
  show fin: "\<forall>t \<in> set (fs_tasks s). \<not> unfinished t"
    using stuck_finished [OF inv assms(1)] by (simp add: assms(2) run_schedule_stuck)
  show "\<forall>i < n. fs_tasks s ! i = iteration env i \<or>
      fs_tasks s ! i = TCancel \<and> fe_fail_fast env \<and> list_ex failed_task (fs_tasks s)"
  proof (intro allI impI)
    fix i assume i: "i < n"
    then have ok: "task_ok env (fe_fail_fast env \<and> list_ex failed_task (fs_tasks s)) i (fs_tasks s ! i)"
      using inv by (simp add: fan_inv_def)
    have "\<not> unfinished (fs_tasks s ! i)" using fin i len by simp
    with ok show "fs_tasks s ! i = iteration env i \<or>
      fs_tasks s ! i = TCancel \<and> fe_fail_fast env \<and> list_ex failed_task (fs_tasks s)"
      by (cases "fs_tasks s ! i") auto
  qed
qed

text \<open>When nothing is cancelled, the tasks end as the iterations run one by one.\<close>

lemma run_schedule_sequential:
  assumes "cap > 0" and "\<not> fe_fail_fast env \<or> (\<forall>i < n. \<not> failed_task (iteration env i))"
  shows "fs_tasks (run_schedule env cs (fan_start n cap)) = map (iteration env) [0..<n]"
proof -
  define s where "s = run_schedule env cs (fan_start n cap)"
  note t = run_schedule_tasks [OF assms(1) s_def]
  have "\<not> (fe_fail_fast env \<and> list_ex failed_task (fs_tasks s))"
  proof
    assume ff: "fe_fail_fast env \<and> list_ex failed_task (fs_tasks s)"
    then obtain i where i: "i < n" "failed_task (fs_tasks s ! i)"
      using t(1) by (auto simp: list_ex_iff in_set_conv_nth)
    with t(3) have "fs_tasks s ! i = iteration env i" by auto
    with i ff assms(2) show False by simp
  qed
  with t(3) have "\<forall>i < n. fs_tasks s ! i = iteration env i" by blast
  with t(1) show ?thesis unfolding s_def [symmetric] by (intro nth_equalityI) simp_all
qed


text \<open>
  C10. Under every schedule the fan-out comes to an end with no iteration left waiting or running, provided
  the cap is positive. When errors are tolerated, or when no iteration fails, the final state is the same
  for every interleaving: the iterations run one after the other. Under fail-fast with a failing iteration,
  every iteration has its own outcome or was cancelled, and at least one failure is reported.
\<close>

theorem fan_out_schedule_independent:
  assumes "cap > 0"
  shows "(\<forall>t \<in> set (fs_tasks (run_schedule env cs (fan_start n cap))). \<not> unfinished t) \<and>
    (if \<not> fe_fail_fast env \<or> (\<forall>i < n. \<not> failed_task (iteration env i))
     then fs_tasks (run_schedule env cs (fan_start n cap)) = map (iteration env) [0..<n]
     else list_ex failed_task (fs_tasks (run_schedule env cs (fan_start n cap))) \<and>
       (\<forall>i < n. fs_tasks (run_schedule env cs (fan_start n cap)) ! i \<in> {iteration env i, TCancel}))"
proof (cases "\<not> fe_fail_fast env \<or> (\<forall>i < n. \<not> failed_task (iteration env i))")
  case True
  then show ?thesis
    using run_schedule_tasks(2) [OF assms refl, of env cs n] run_schedule_sequential [OF assms True, of cs]
    by simp
next
  case False
  then obtain i where i: "i < n" "failed_task (iteration env i)" by blast
  note t = run_schedule_tasks [OF assms refl, where env = env and cs = cs and n = n]
  from t(3) i(1) have "fs_tasks (run_schedule env cs (fan_start n cap)) ! i = iteration env i \<or>
      list_ex failed_task (fs_tasks (run_schedule env cs (fan_start n cap)))" by blast
  then have "list_ex failed_task (fs_tasks (run_schedule env cs (fan_start n cap)))"
    using i t(1) by (metis list_ex_iff nth_mem)
  with False t(2,3) show ?thesis by auto
qed

text \<open>Three iterations over one node, the second failing, at most two at a time.\<close>

definition demo_error :: node_error where
  "demo_error = \<lparr>ne_node_id = ''t'', ne_node_type = ''transform'', ne_category = TRANSFORM, ne_message = ''bad'',
     ne_http_status = None, ne_request_summary = None, ne_attempts = 1, ne_details = None\<rparr>"

definition demo_env :: "bool \<Rightarrow> fan_env" where
  "demo_env ff =
     \<lparr>fe_exec = (\<lambda>i n local. if i = 1 then (Inl (NodeExecutionError demo_error), [])
                   else (Inr [(''out'', [[(''i'', JInt (int i))]])], [])),
      fe_wrap = (\<lambda>i e. e), fe_init = (\<lambda>i. []), fe_scope = [''t''], fe_fail_fast = ff\<rparr>"

theorem fan_out_schedule_independent_witness:
  "fs_tasks (run_schedule (demo_env False) [Advance 0, Advance 1, Advance 1] (fan_start 3 2)) =
     map (iteration (demo_env False)) [0..<3] \<and>
   list_ex failed_task (fs_tasks (run_schedule (demo_env False) [Advance 0, Advance 1, Advance 1] (fan_start 3 2)))"
proof -
  have "fs_tasks (run_schedule (demo_env False) [Advance 0, Advance 1, Advance 1] (fan_start 3 2)) =
     map (iteration (demo_env False)) [0..<3]"
    using fan_out_schedule_independent [of 2 "demo_env False" "[Advance 0, Advance 1, Advance 1]" 3]
    by (simp add: demo_env_def)
  moreover have "list_ex failed_task (map (iteration (demo_env False)) [0..<3])" by code_simp
  ultimately show ?thesis by simp
qed


end
