(* ===== verification/Engine.thy ===== *)
theory Engine
  imports Validate Fanout
begin

text \<open>
  The execution half of \<open>etl_core/engine.py\<close>: preparing and executing a node, the state of a run, the
  fan-out of an iterator with its fan-in, and \<open>execute_pipeline\<close>.

  What a node does outside the process is inside \<open>cls_run\<close>: its answer is a function of the parsed
  configuration, the inputs and the context, which includes the current iteration. Durations and
  timestamps are left out. The interleaving of the iterations of each iterator is given by a schedule per
  iterator. A call that never returns is \<^const>\<open>None\<close>: the only way to get there is a semaphore without
  permits.
\<close>

section \<open>Results and state\<close>

datatype node_status = SUCCEEDED | FAILED | SKIPPED

datatype run_status = RunSucceeded | RunFailed

fun run_status_value :: "run_status \<Rightarrow> string" where
  "run_status_value RunSucceeded = ''succeeded''"
| "run_status_value RunFailed = ''failed''"

record node_result =
  nr_node_id :: string
  nr_node_type :: string
  nr_status :: node_status
  nr_records_out :: "nat option"
  nr_iterations :: "nat option"
  nr_error :: "node_error option"

record run_result =
  rr_pipeline_id :: string
  rr_status :: run_status
  rr_node_results :: "(string \<times> node_result) list"
  rr_errors :: "node_error list"
  rr_logs :: "log_event list"
  rr_outputs :: "(string \<times> records) list"

record run_state =
  st_outputs :: outputs_map
  st_results :: "(string \<times> node_result) list"
  st_errors :: "node_error list"
  st_log :: "log_event list"

definition empty_state :: run_state where
  "empty_state = \<lparr>st_outputs = [], st_results = [], st_errors = [], st_log = []\<rparr>"

definition primary :: "node_outputs \<Rightarrow> records" where
  "primary outputs =
     (case dict_get outputs ''out'' of
        Some r \<Rightarrow> r
      | None \<Rightarrow> (case outputs of [] \<Rightarrow> [] | (k, r) # _ \<Rightarrow> r))"

definition node_result_of :: "string \<Rightarrow> string \<Rightarrow> node_status \<Rightarrow> node_result" where
  "node_result_of n t s =
     \<lparr>nr_node_id = n, nr_node_type = t, nr_status = s, nr_records_out = None, nr_iterations = None,
      nr_error = None\<rparr>"

definition node_type :: "pipeline_spec \<Rightarrow> string \<Rightarrow> string" where
  "node_type spec n = (case dict_get (graph_nodes spec) n of Some m \<Rightarrow> ns_type m | None \<Rightarrow> [])"

definition log_event_to :: "log_event list \<Rightarrow> run_state \<Rightarrow> run_state" where
  "log_event_to evs st = st\<lparr>st_log := st_log st @ evs\<rparr>"

definition set_result :: "string \<Rightarrow> node_result \<Rightarrow> run_state \<Rightarrow> run_state" where
  "set_result n r st = st\<lparr>st_results := dict_set n r (st_results st)\<rparr>"

definition set_outputs :: "string \<Rightarrow> node_outputs \<Rightarrow> run_state \<Rightarrow> run_state" where
  "set_outputs n outs st = st\<lparr>st_outputs := dict_set n outs (st_outputs st)\<rparr>"

definition add_error :: "node_error \<Rightarrow> run_state \<Rightarrow> run_state" where
  "add_error e st = st\<lparr>st_errors := st_errors st @ [e]\<rparr>"

fun skip_nodes :: "pipeline_spec \<Rightarrow> string list \<Rightarrow> run_state \<Rightarrow> run_state" where
  "skip_nodes spec [] st = st"
| "skip_nodes spec (n # ns) st =
     skip_nodes spec ns
       (if dict_has (st_results st) n then st
        else set_result n (node_result_of n (node_type spec n) SKIPPED) st)"

section \<open>One node\<close>

definition unavailable_msg :: "edge_spec \<Rightarrow> string" where
  "unavailable_msg e = ''input from '' @ repr_str (es_from e) @ ''.'' @ es_from_port e @ '' is unavailable''"

fun gather_inputs :: "node_ctx \<Rightarrow> outputs_map \<Rightarrow> edge_spec list \<Rightarrow> node_inputs \<Rightarrow> exn + node_inputs" where
  "gather_inputs ctx view [] inputs = Inr inputs"
| "gather_inputs ctx view (e # es) inputs =
     (case dict_get view (es_from e) of
        None \<Rightarrow> Inl (ctx_err ctx VALIDATION (unavailable_msg e))
      | Some outs \<Rightarrow>
          (case dict_get outs (es_from_port e) of
             None \<Rightarrow> Inl (ctx_err ctx VALIDATION (unavailable_msg e))
           | Some recs \<Rightarrow>
               gather_inputs ctx view es
                 (dict_set (es_to_port e)
                   ((case dict_get inputs (es_to_port e) of None \<Rightarrow> [] | Some ss \<Rightarrow> ss) @ [recs]) inputs)))"

text \<open>\<open>resolve_config\<close> on the configuration, a resolution error becoming a structured one.\<close>

definition resolve_node_config :: "node_ctx \<Rightarrow> reference_context \<Rightarrow> json dict \<Rightarrow> exn + json dict" where
  "resolve_node_config ctx refs cfg =
     (case resolve_config refs (JDict cfg) of
        Inl (ReferenceResolutionError m) \<Rightarrow> Inl (ctx_err ctx VALIDATION m)
      | Inl e \<Rightarrow> Inl e
      | Inr (JDict d) \<Rightarrow> Inr d
      | Inr _ \<Rightarrow> Inr [])"

definition prepare_node :: "'c registry \<Rightarrow> pipeline_spec \<Rightarrow> string \<Rightarrow> run_ctx \<Rightarrow> outputs_map \<Rightarrow>
    iter_context option \<Rightarrow> exn + ('c node_cls \<times> 'c \<times> node_inputs \<times> node_ctx)" where
  "prepare_node reg spec n run view iter =
     (case dict_get (graph_nodes spec) n of
        None \<Rightarrow> Inl (KeyError n)
      | Some m \<Rightarrow>
          (case dict_get reg (ns_type m) of
             None \<Rightarrow> Inl (KeyError (ns_type m))
           | Some cls \<Rightarrow>
               (let ctx = \<lparr>nc_run = run, nc_node_id = ns_id m, nc_node_type = ns_type m, nc_iter = iter\<rparr>;
                    refs = \<lparr>rx_upstream = map (\<lambda>p. (fst p, primary (snd p))) view, rx_iter = iter\<rparr>
                in sbind (resolve_node_config ctx refs (ns_config m))
                     (\<lambda>resolved.
                        case cls_config_model cls resolved of
                          Inl errs \<Rightarrow> Inl (ctx_err ctx CONFIG (format_validation_error errs))
                        | Inr c \<Rightarrow> sbind (gather_inputs ctx view (in_edges spec n) [])
                            (\<lambda>inputs. Inr (cls, c, inputs, ctx))))))"

definition execute_node :: "'c registry \<Rightarrow> pipeline_spec \<Rightarrow> string \<Rightarrow> run_ctx \<Rightarrow> outputs_map \<Rightarrow>
    iter_context option \<Rightarrow> node_outputs logged" where
  "execute_node reg spec n run view iter =
     (case prepare_node reg spec n run view iter of
        Inl e \<Rightarrow> (Inl e, [])
      | Inr (cls, c, inputs, ctx) \<Rightarrow>
          (case cls_run cls c inputs ctx of
             (Inr out, lg) \<Rightarrow> (Inr out, lg)
           | (Inl (NodeExecutionError e), lg) \<Rightarrow> (Inl (NodeExecutionError e), lg)
           | (Inl e, lg) \<Rightarrow> (Inl (ctx_err ctx UNKNOWN (exn_type e @ '': '' @ exn_str e)), lg)))"

section \<open>Fan-out\<close>

definition iteration_details :: "run_ctx \<Rightarrow> json list \<Rightarrow> nat \<Rightarrow> node_error \<Rightarrow> node_error" where
  "iteration_details run vals i e =
     e\<lparr>ne_details := Some
        (dict_update (case ne_details e of None \<Rightarrow> [] | Some d \<Rightarrow> d)
          [(''iteration_index'', JInt (int i)),
           (''iteration_value'', JStr (redact (rc_redactor run) (take 200 (py_repr (vals ! i)))))])\<rparr>"

definition iterator_env :: "'c registry \<Rightarrow> pipeline_spec \<Rightarrow> run_ctx \<Rightarrow> string \<Rightarrow> string list \<Rightarrow> outputs_map \<Rightarrow>
    json list \<Rightarrow> fan_env" where
  "iterator_env reg spec run iterator_id scope_topo outs vals =
     \<lparr>fe_exec = (\<lambda>i n local. execute_node reg spec n run (local @ outs)
         (Some \<lparr>it_value = vals ! i, it_index = i\<rparr>)),
      fe_wrap = iteration_details run vals,
      fe_init = (\<lambda>i. [(iterator_id, [(''out'', [[(''value'', vals ! i), (''index'', JInt (int i))]])])]),
      fe_scope = scope_topo,
      fe_fail_fast = (\<not> eo_continue_on_error (rc_options run))\<rparr>"

text \<open>The failures of the finished tasks, in index order.\<close>

fun task_failures :: "task list \<Rightarrow> (string \<times> node_error) list" where
  "task_failures [] = []"
| "task_failures (TFail n e # ts) = (n, e) # task_failures ts"
| "task_failures (t # ts) = task_failures ts"

fun task_crashes :: "task list \<Rightarrow> exn list" where
  "task_crashes [] = []"
| "task_crashes (TCrash x # ts) = x # task_crashes ts"
| "task_crashes (t # ts) = task_crashes ts"

fun completed_from :: "nat \<Rightarrow> task list \<Rightarrow> (nat \<times> outputs_map) list" where
  "completed_from i [] = []"
| "completed_from i (TDone local # ts) = (i, local) # completed_from (Suc i) ts"
| "completed_from i (t # ts) = completed_from (Suc i) ts"

definition exception_group :: "exn list \<Rightarrow> exn" where
  "exception_group xs = OtherException ''ExceptionGroup''
     (''unhandled errors in a TaskGroup ('' @ nat_str (length xs) @
      (if length xs = 1 then '' sub-exception)'' else '' sub-exceptions)''))"

text \<open>What \<open>gather\<close> and the \<open>TaskGroup\<close> let escape.\<close>

definition iteration_failures :: "bool \<Rightarrow> task list \<Rightarrow> exn + (string \<times> node_error) list" where
  "iteration_failures fail_fast ts =
     (case task_crashes ts of
        [] \<Rightarrow> Inr (task_failures ts)
      | x # xs \<Rightarrow> Inl (if fail_fast then exception_group (x # xs) else x))"

definition combine_port :: "string \<Rightarrow> json list \<Rightarrow> (nat \<times> outputs_map) list \<Rightarrow> string \<Rightarrow> string \<Rightarrow> records" where
  "combine_port fan_in vals completed member port =
     (let parts = List.map_filter (\<lambda>(i, local). case dict_get local member of
            None \<Rightarrow> None
          | Some outs \<Rightarrow> Some (i, case dict_get outs port of None \<Rightarrow> [] | Some r \<Rightarrow> r)) completed
      in if fan_in = ''concat'' then concat (map snd parts)
         else map (\<lambda>(i, r). [(''key'', vals ! i), (''records'', records_json r)]) parts)"

definition member_ports :: "string list \<Rightarrow> (nat \<times> outputs_map) list \<Rightarrow> string \<Rightarrow> string list" where
  "member_ports declared completed member =
     rev (remdups (rev (declared @ concat (map (\<lambda>(i, local). case dict_get local member of
        None \<Rightarrow> [] | Some outs \<Rightarrow> dict_keys outs) completed))))"

definition combine_member :: "'c registry \<Rightarrow> pipeline_spec \<Rightarrow> string \<Rightarrow> string \<Rightarrow> json list \<Rightarrow>
    (nat \<times> outputs_map) list \<Rightarrow> (string \<times> node_error) list \<Rightarrow> string \<Rightarrow> run_state \<Rightarrow> run_state" where
  "combine_member reg spec iterator_id fan_in vals completed failures member st =
     (let declared = (case node_cls_of reg spec member of None \<Rightarrow> [] | Some cls \<Rightarrow> cls_output_ports cls);
          combined = map (\<lambda>p. (p, combine_port fan_in vals completed member p)) (member_ports declared completed member);
          participations = length (filter (\<lambda>(i, local). dict_has local member) completed)
      in set_result member
           \<lparr>nr_node_id = member, nr_node_type = node_type spec member,
            nr_status = (if dict_has failures member then FAILED else SUCCEEDED),
            nr_records_out = Some (length (primary combined)),
            nr_iterations = Some (if member = iterator_id then length vals else participations),
            nr_error = dict_get failures member\<rparr>
           (set_outputs member combined st))"

definition record_failures :: "(string \<times> node_error) list \<Rightarrow> run_state \<Rightarrow> run_state" where
  "record_failures failures st =
     foldl (\<lambda>st (n, e). log_event_to [log_msg LError (Some n) (ne_message e)] (add_error e st)) st failures"

definition fan_out_msg :: "nat \<Rightarrow> nat \<Rightarrow> string" where
  "fan_out_msg n m =
     ''fanning out '' @ nat_str n @ '' iteration(s) over '' @ nat_str m @ '' node(s)''"

definition failed_result :: "pipeline_spec \<Rightarrow> string \<Rightarrow> node_error \<Rightarrow> node_result" where
  "failed_result spec n e = (node_result_of n (node_type spec n) FAILED)\<lparr>nr_error := Some e\<rparr>"

text \<open>\<open>node.config.max_concurrency or ctx.options.max_concurrency\<close>\<close>

definition iteration_cap :: "'c node_cls \<Rightarrow> 'c \<Rightarrow> run_ctx \<Rightarrow> nat" where
  "iteration_cap cls c run =
     (case cls_max_concurrency cls c of
        Some k \<Rightarrow> if k = 0 then eo_max_concurrency (rc_options run) else k
      | None \<Rightarrow> eo_max_concurrency (rc_options run))"

text \<open>After the tasks ended: record the failures, then abort or fan the outputs back in.\<close>

definition finish_iterator :: "'c registry \<Rightarrow> pipeline_spec \<Rightarrow> bool \<Rightarrow> string \<Rightarrow> string list \<Rightarrow> string \<Rightarrow> json list \<Rightarrow>
    task list \<Rightarrow> (string \<times> node_error) list \<Rightarrow> run_state \<Rightarrow> bool \<times> run_state" where
  "finish_iterator reg spec continue_on_error iterator_id scope_topo fan_in vals ts failures st =
     (let st1 = record_failures failures st
      in (case failures of
            (n, e) # _ \<Rightarrow>
              if \<not> continue_on_error
              then (True, skip_nodes spec (iterator_id # scope_topo) (set_result n (failed_result spec n e) st1))
              else (False, fold (combine_member reg spec iterator_id fan_in vals (completed_from 0 ts) failures)
                     (iterator_id # scope_topo) st1)
          | [] \<Rightarrow> (False, fold (combine_member reg spec iterator_id fan_in vals (completed_from 0 ts) failures)
                     (iterator_id # scope_topo) st1)))"

definition iterator_values :: "'c registry \<Rightarrow> pipeline_spec \<Rightarrow> string \<Rightarrow> run_ctx \<Rightarrow> outputs_map \<Rightarrow>
    (('c node_cls \<times> 'c \<times> json list) logged)" where
  "iterator_values reg spec iterator_id run outs =
     (case prepare_node reg spec iterator_id run outs None of
        Inl e \<Rightarrow> (Inl e, [])
      | Inr (cls, c, inputs, ctx) \<Rightarrow>
          (case cls_get_values cls c inputs ctx of
             (Inl e, lg) \<Rightarrow> (Inl e, lg)
           | (Inr vals, lg) \<Rightarrow> (Inr (cls, c, vals), lg)))"

definition run_iterator :: "'c registry \<Rightarrow> pipeline_spec \<Rightarrow> choice list \<Rightarrow> string \<Rightarrow> string list \<Rightarrow> run_ctx \<Rightarrow>
    run_state \<Rightarrow> (exn + bool \<times> run_state) option" where
  "run_iterator reg spec sched iterator_id scope_topo run st =
     (case iterator_values reg spec iterator_id run (st_outputs st) of
        (Inl (NodeExecutionError e), lg) \<Rightarrow>
          Some (Inr (\<not> eo_continue_on_error (rc_options run),
            skip_nodes spec scope_topo
              (set_result iterator_id (failed_result spec iterator_id e) (add_error e (log_event_to lg st)))))
      | (Inl e, lg) \<Rightarrow> Some (Inl e)
      | (Inr (cls, c, vals), lg) \<Rightarrow>
          (let st1 = log_event_to (lg @ [log_msg LInfo (Some iterator_id)
                 (fan_out_msg (length vals) (length scope_topo))]) st;
               env = iterator_env reg spec run iterator_id scope_topo (st_outputs st) vals;
               fin = run_schedule env sched (fan_start (length vals) (iteration_cap cls c run));
               st2 = log_event_to (fs_log fin) st1
           in if list_ex unfinished (fs_tasks fin) then None
              else (case iteration_failures (fe_fail_fast env) (fs_tasks fin) of
                  Inl x \<Rightarrow> Some (Inl x)
                | Inr failures \<Rightarrow> Some (Inr
                    (finish_iterator reg spec (eo_continue_on_error (rc_options run)) iterator_id scope_topo
                      (cls_fan_in cls c) vals (fs_tasks fin) failures st2)))))"

section \<open>The run\<close>

definition run_node :: "'c registry \<Rightarrow> pipeline_spec \<Rightarrow> string \<Rightarrow> run_ctx \<Rightarrow> run_state \<Rightarrow> exn + bool \<times> run_state" where
  "run_node reg spec n run st0 =
     (let st = log_event_to [log_msg LDebug (Some n) ''node started''] st0
      in (case execute_node reg spec n run (st_outputs st) None of
            (Inl (NodeExecutionError e), lg) \<Rightarrow>
              (let st1 = log_event_to [log_msg LError (Some n) (ne_message e)]
                     (set_result n (failed_result spec n e) (add_error e (log_event_to lg st)))
               in Inr (if eo_continue_on_error (rc_options run)
                       then (False, skip_nodes spec (descendants spec n) st1) else (True, st1)))
          | (Inl x, lg) \<Rightarrow> Inl x
          | (Inr out, lg) \<Rightarrow>
              Inr (False, log_event_to [log_msg LDebug (Some n) ''node succeeded'']
                (set_result n ((node_result_of n (node_type spec n) SUCCEEDED)
                     \<lparr>nr_records_out := Some (length (primary out))\<rparr>)
                  (set_outputs n out (log_event_to lg st))))))"

definition is_fan_out :: "'c registry \<Rightarrow> pipeline_spec \<Rightarrow> string \<Rightarrow> bool" where
  "is_fan_out reg spec n = (case node_cls_of reg spec n of None \<Rightarrow> False | Some cls \<Rightarrow> cls_fan_out cls)"

fun run_loop :: "'c registry \<Rightarrow> pipeline_spec \<Rightarrow> (string \<Rightarrow> choice list) \<Rightarrow> string list \<Rightarrow> run_ctx \<Rightarrow> string list \<Rightarrow>
    bool \<Rightarrow> run_state \<Rightarrow> (exn + run_state) option" where
  "run_loop reg spec sched topo run [] abort st = Some (Inr st)"
| "run_loop reg spec sched topo run (n # ns) abort st =
     (if dict_has (st_results st) n then run_loop reg spec sched topo run ns abort st
      else if abort then run_loop reg spec sched topo run ns abort (skip_nodes spec [n] st)
      else if is_fan_out reg spec n then
        (case run_iterator reg spec (sched n) n (filter (\<lambda>m. m \<in> set (descendants spec n)) topo) run st of
           None \<Rightarrow> None
         | Some (Inl x) \<Rightarrow> Some (Inl x)
         | Some (Inr (abort', st')) \<Rightarrow> run_loop reg spec sched topo run ns abort' st')
      else
        (case run_node reg spec n run st of
           Inl x \<Rightarrow> Some (Inl x)
         | Inr (abort', st') \<Rightarrow> run_loop reg spec sched topo run ns abort' st'))"

definition pipeline_node_id :: string where
  "pipeline_node_id = ''__pipeline__''"

definition issue_error :: "pipeline_spec \<Rightarrow> validation_issue \<Rightarrow> node_error" where
  "issue_error spec issue =
     (let nid = (case vi_node_id issue of Some n \<Rightarrow> n | None \<Rightarrow> [])
      in \<lparr>ne_node_id = (if nid = [] then pipeline_node_id else nid),
          ne_node_type = (case dict_get (dict_of (map (\<lambda>n. (ns_id n, ns_type n)) (ps_nodes spec))) nid of
             Some t \<Rightarrow> t | None \<Rightarrow> ''pipeline''),
          ne_category = VALIDATION, ne_message = vi_message issue, ne_http_status = None,
          ne_request_summary = None, ne_attempts = 1, ne_details = None\<rparr>)"

definition starting_msg :: "pipeline_spec \<Rightarrow> string list \<Rightarrow> string" where
  "starting_msg spec topo =
     ''starting pipeline '' @ repr_str (ps_id spec) @ '' ('' @ nat_str (length topo) @ '' node(s))''"

definition run_context_of :: "string dict \<Rightarrow> exec_options \<Rightarrow> run_ctx" where
  "run_context_of secrets options =
     \<lparr>rc_secrets = secrets, rc_options = options, rc_redactor = make_redactor (dict_values secrets)\<rparr>"

definition run_result_of :: "pipeline_spec \<Rightarrow> run_state \<Rightarrow> run_result" where
  "run_result_of spec st =
     (let status = (if st_errors st \<noteq> [] then RunFailed else RunSucceeded)
      in \<lparr>rr_pipeline_id = ps_id spec, rr_status = status, rr_node_results = st_results st,
          rr_errors = st_errors st,
          rr_logs = st_log st @ [log_msg LInfo None (''pipeline finished: '' @ run_status_value status)],
          rr_outputs = map (\<lambda>p. (fst p, primary (snd p)))
            (filter (\<lambda>p. out_edges spec (fst p) = []) (st_outputs st))\<rparr>)"

definition invalid_result :: "pipeline_spec \<Rightarrow> validation_issue list \<Rightarrow> run_result" where
  "invalid_result spec issues =
     (let errors = map (issue_error spec) issues
      in \<lparr>rr_pipeline_id = ps_id spec, rr_status = RunFailed, rr_node_results = [], rr_errors = errors,
          rr_logs = map (\<lambda>e. log_msg LError (Some (ne_node_id e)) (ne_message e)) errors,
          rr_outputs = []\<rparr>)"

definition execute_pipeline :: "'c registry \<Rightarrow> (string \<Rightarrow> choice list) \<Rightarrow> pipeline_spec \<Rightarrow> string dict \<Rightarrow>
    exec_options \<Rightarrow> (exn + run_result) option" where
  "execute_pipeline reg sched spec secrets options =
     (let issues = validate_pipeline reg spec
      in if issues \<noteq> [] then Some (Inr (invalid_result spec issues))
         else (case topo_order spec of
             None \<Rightarrow> Some (Inl (OtherException ''AssertionError'' []))
           | Some topo \<Rightarrow>
               map_option (map_sum id (run_result_of spec))
                 (run_loop reg spec sched topo (run_context_of secrets options) topo False
                   (log_event_to [log_msg LInfo None (starting_msg spec topo)] empty_state))))"

end
