(* ===== verification/Engine_Results.thy ===== *)
theory Engine_Results
  imports Engine
begin

text \<open>
  What every run leaves behind: a result for every node, exactly one each, and a status that agrees with
  them; and when a run returns at all.
\<close>

section \<open>The state updates\<close>

lemma state_simps [simp]:
  "st_results (log_event_to evs st) = st_results st" "st_errors (log_event_to evs st) = st_errors st"
  "st_outputs (log_event_to evs st) = st_outputs st"
  "st_results (set_result n r st) = dict_set n r (st_results st)" "st_errors (set_result n r st) = st_errors st"
  "st_outputs (set_result n r st) = st_outputs st"
  "st_results (set_outputs n outs st) = st_results st" "st_errors (set_outputs n outs st) = st_errors st"
  "st_outputs (set_outputs n outs st) = dict_set n outs (st_outputs st)"
  "st_results (add_error e st) = st_results st" "st_errors (add_error e st) = st_errors st @ [e]"
  "st_outputs (add_error e st) = st_outputs st"
  by (simp_all add: log_event_to_def set_result_def set_outputs_def add_error_def)

lemma skip_nodes_simps [simp]:
  "st_errors (skip_nodes spec ns st) = st_errors st"
  "st_outputs (skip_nodes spec ns st) = st_outputs st"
  by (induction spec ns st rule: skip_nodes.induct) auto

definition has_result :: "run_state \<Rightarrow> string \<Rightarrow> bool" where
  "has_result st n \<longleftrightarrow> dict_get (st_results st) n \<noteq> None"

lemma has_result_iff: "dict_has (st_results st) n \<longleftrightarrow> has_result st n"
  by (simp add: has_result_def dict_has_def del: dict_has_iff)

definition result_status :: "run_state \<Rightarrow> string \<Rightarrow> node_status option" where
  "result_status st n = map_option nr_status (dict_get (st_results st) n)"

lemma has_result_status: "has_result st n \<longleftrightarrow> result_status st n \<noteq> None"
  by (simp add: has_result_def result_status_def)

lemma result_status_simps [simp]:
  "result_status (log_event_to evs st) m = result_status st m"
  "result_status (set_outputs n outs st) m = result_status st m"
  "result_status (add_error e st) m = result_status st m"
  "result_status (set_result n r st) m = (if m = n then Some (nr_status r) else result_status st m)"
  by (simp_all add: result_status_def)

lemma node_result_of_status [simp]: "nr_status (node_result_of n t s) = s"
  by (simp add: node_result_of_def)

lemma failed_result_status [simp]: "nr_status (failed_result spec n e) = FAILED"
  by (simp add: failed_result_def node_result_of_def)

lemma skip_nodes_status [simp]:
  "result_status (skip_nodes spec ns st) m =
     (if result_status st m = None \<and> m \<in> set ns then Some SKIPPED else result_status st m)"
  by (induction spec ns st rule: skip_nodes.induct)
    (auto simp: has_result_iff has_result_status simp del: dict_has_iff)

lemma skip_nodes_wf: "wf_dict (st_results st) \<Longrightarrow> wf_dict (st_results (skip_nodes spec ns st))"
  by (induction spec ns st rule: skip_nodes.induct) (simp add: wf_dict_set)+

lemma record_failures_simps [simp]:
  "st_results (record_failures fs st) = st_results st"
  "st_outputs (record_failures fs st) = st_outputs st"
  "st_errors (record_failures fs st) = st_errors st @ map snd fs"
  "result_status (record_failures fs st) m = result_status st m"
  unfolding record_failures_def
  by (induction fs arbitrary: st; simp add: case_prod_beta)+

lemma combine_member_status [simp]:
  "result_status (combine_member reg spec i fan_in vals done fs member st) m =
     (if m = member then Some (if dict_has fs member then FAILED else SUCCEEDED) else result_status st m)"
  by (simp add: combine_member_def Let_def)

lemma combine_member_errors [simp]:
  "st_errors (combine_member reg spec i fan_in vals done fs member st) = st_errors st"
  by (simp add: combine_member_def Let_def)

lemma fold_combine_status:
  "result_status (fold (combine_member reg spec i fan_in vals done fs) ms st) m =
     (if m \<in> set ms then Some (if dict_has fs m then FAILED else SUCCEEDED) else result_status st m)"
  by (induction ms arbitrary: st) (auto simp del: dict_has_iff)

lemma fold_combine_errors [simp]:
  "st_errors (fold (combine_member reg spec i fan_in vals done fs) ms st) = st_errors st"
  by (induction ms arbitrary: st) auto

lemma fold_combine_wf:
  "wf_dict (st_results st) \<Longrightarrow> wf_dict (st_results (fold (combine_member reg spec i fan_in vals done fs) ms st))"
  by (induction ms arbitrary: st) (simp_all add: combine_member_def Let_def wf_dict_set)

section \<open>One turn of the loop\<close>

lemma task_failures_mem: "(n, e) \<in> set (task_failures ts) \<Longrightarrow> TFail n e \<in> set ts"
  by (induction ts rule: task_failures.induct) auto

lemma seq_iteration_fail_scope: "seq_iteration env i ns local = TFail n e \<Longrightarrow> n \<in> set ns"
  by (induction env i ns local rule: seq_iteration.induct) (auto split: sum.splits exn.splits)

text \<open>A failed task is a failed iteration, and it failed at a node of the scope.\<close>

lemma run_schedule_fail_iteration:
  assumes "TFail n e \<in> set (fs_tasks (run_schedule env cs (fan_start k cap)))"
  obtains i where "iteration env i = TFail n e"
proof -
  let ?s = "run_schedule env cs (fan_start k cap)"
  have inv: "fan_inv env k cap ?s" by (rule fan_inv_reachable [OF run_schedule_reach])
  obtain i where "i < k" "fs_tasks ?s ! i = TFail n e"
    using assms inv by (auto simp: in_set_conv_nth fan_inv_def)
  with inv have "iteration env i = TFail n e" by (auto simp: fan_inv_def)
  then show thesis by (rule that)
qed

lemma run_schedule_fail_scope:
  assumes "TFail n e \<in> set (fs_tasks (run_schedule env cs (fan_start k cap)))"
  shows "n \<in> set (fe_scope env)"
  using run_schedule_fail_iteration [OF assms] seq_iteration_fail_scope unfolding iteration_def by metis

text \<open>The possible endings of an iterator.\<close>

lemma run_iterator_cases:
  assumes "run_iterator reg spec sched i scope run st = Some (Inr (abort, st'))"
  obtains (novalues) e lg where "abort = (\<not> eo_continue_on_error (rc_options run))"
      "iterator_values reg spec i run (st_outputs st) = (Inl (NodeExecutionError e), lg)"
      "st' = skip_nodes spec scope (set_result i (failed_result spec i e) (add_error e (log_event_to lg st)))"
  | (finished) cls c vals lg env fin fs evs where
      "iterator_values reg spec i run (st_outputs st) = (Inr (cls, c, vals), lg)"
      "env = iterator_env reg spec run i scope (st_outputs st) vals"
      "fin = run_schedule env sched (fan_start (length vals) (iteration_cap cls c run))"
      "\<not> list_ex unfinished (fs_tasks fin)" "task_crashes (fs_tasks fin) = []" "fs = task_failures (fs_tasks fin)"
      "(abort, st') = finish_iterator reg spec (eo_continue_on_error (rc_options run)) i scope
         (cls_fan_in cls c) vals (fs_tasks fin) fs (log_event_to evs st)"
proof -
  obtain r lg where iv: "iterator_values reg spec i run (st_outputs st) = (r, lg)" by fastforce
  show thesis
  proof (cases r)
    case (Inl x)
    with assms iv novalues show thesis by (auto simp: run_iterator_def split: exn.splits)
  next
    case (Inr v)
    obtain cls c vals where v: "v = (cls, c, vals)" by (cases v)
    define env where "env = iterator_env reg spec run i scope (st_outputs st) vals"
    define fin where "fin = run_schedule env sched (fan_start (length vals) (iteration_cap cls c run))"
    have lg2: "log_event_to a (log_event_to b st) = log_event_to (b @ a) st" for a b
      by (simp add: log_event_to_def)
    have iv': "iterator_values reg spec i run (st_outputs st) = (Inr (cls, c, vals), lg)" using iv Inr v by simp
    define evs where "evs = lg @ [log_msg LInfo (Some i) (fan_out_msg (length vals) (length scope))] @ fs_log fin"
    define cont where "cont = eo_continue_on_error (rc_options run)"
    have "run_iterator reg spec sched i scope run st =
        (if list_ex unfinished (fs_tasks fin) then None
         else case iteration_failures (fe_fail_fast env) (fs_tasks fin) of
             Inl x \<Rightarrow> Some (Inl x)
           | Inr fs \<Rightarrow> Some (Inr (finish_iterator reg spec cont i scope (cls_fan_in cls c) vals
               (fs_tasks fin) fs (log_event_to evs st))))"
      unfolding run_iterator_def iv' Let_def evs_def fin_def env_def cont_def by (simp add: lg2 split: sum.split)
    with assms have "\<not> list_ex unfinished (fs_tasks fin)" "task_crashes (fs_tasks fin) = []"
      "(abort, st') = finish_iterator reg spec cont i scope (cls_fan_in cls c) vals (fs_tasks fin)
         (task_failures (fs_tasks fin)) (log_event_to evs st)"
      by (auto simp: iteration_failures_def split: if_splits list.splits)
    with iv' env_def fin_def finished show thesis unfolding cont_def by blast
  qed
qed

lemma run_node_cases:
  assumes "run_node reg spec n run st = Inr (abort, st')"
  obtains (ok) out where "abort = False"
      "fst (execute_node reg spec n run (st_outputs st) None) = Inr out"
      "st_outputs st' = dict_set n out (st_outputs st)" "st_errors st' = st_errors st"
      "\<And>m. result_status st' m = (if m = n then Some SUCCEEDED else result_status st m)"
      "wf_dict (st_results st) \<Longrightarrow> wf_dict (st_results st')"
  | (failed) e where "abort = (\<not> eo_continue_on_error (rc_options run))"
      "fst (execute_node reg spec n run (st_outputs st) None) = Inl (NodeExecutionError e)"
      "st_outputs st' = st_outputs st" "st_errors st' = st_errors st @ [e]"
      "\<And>m. result_status st' m = (if m = n then Some FAILED
         else if eo_continue_on_error (rc_options run) \<and> result_status st m = None \<and> m \<in> set (descendants spec n)
         then Some SKIPPED else result_status st m)"
      "wf_dict (st_results st) \<Longrightarrow> wf_dict (st_results st')"
proof -
  obtain r lg where ex: "execute_node reg spec n run (st_outputs st) None = (r, lg)" by fastforce
  show thesis
  proof (cases r)
    case (Inr out)
    with assms ex show thesis by (intro ok) (auto simp: run_node_def Let_def wf_dict_set)
  next
    case (Inl x)
    with assms ex obtain e where "x = NodeExecutionError e"
      by (auto simp: run_node_def Let_def split: exn.splits)
    with assms ex Inl show thesis
      by (intro failed) (auto simp: run_node_def Let_def wf_dict_set skip_nodes_wf split: if_splits)
  qed
qed

text \<open>The status after an iterator has ended.\<close>

lemma finish_iterator_cases:
  assumes "(abort, st') = finish_iterator reg spec cont i scope fan_in vals ts fs st"
  obtains (aborted) n e fs' where "fs = (n, e) # fs'" "\<not> cont" "abort" "st_errors st' = st_errors st @ map snd fs"
      "st_outputs st' = st_outputs st"
      "\<And>m. result_status st' m = (if m = n then Some FAILED
         else if result_status st m = None \<and> m \<in> set (i # scope) then Some SKIPPED else result_status st m)"
      "wf_dict (st_results st) \<Longrightarrow> wf_dict (st_results st')"
  | (combined) "fs = [] \<or> cont" "\<not> abort" "st_errors st' = st_errors st @ map snd fs"
      "st' = fold (combine_member reg spec i fan_in vals (completed_from 0 ts) fs) (i # scope) (record_failures fs st)"
      "\<And>m. result_status st' m = (if m \<in> set (i # scope) then Some (if dict_has fs m then FAILED else SUCCEEDED)
         else result_status st m)"
      "wf_dict (st_results st) \<Longrightarrow> wf_dict (st_results st')"
proof (cases "fs = [] \<or> cont")
  case True
  with assms have st': "st' = fold (combine_member reg spec i fan_in vals (completed_from 0 ts) fs) (i # scope)
      (record_failures fs st)" and ab: "\<not> abort"
    by (auto simp: finish_iterator_def Let_def split: list.splits if_splits)
  show thesis
    by (rule combined [OF True ab]) (simp_all only: st' fold_combine_errors fold_combine_status
        record_failures_simps fold_combine_wf)
next
  case False
  then obtain n e fs' where fs: "fs = (n, e) # fs'" by (cases fs) auto
  with False assms have "abort" "st' = skip_nodes spec (i # scope)
      (set_result n (failed_result spec n e) (record_failures fs st))"
    by (auto simp: finish_iterator_def Let_def)
  with fs False show thesis
    by (intro aborted) (auto simp: skip_nodes_wf wf_dict_set simp del: skip_nodes.simps)
qed

section \<open>The order of a runnable pipeline\<close>

lemma runnable_order:
  assumes "runnable reg spec" and "topo_order spec = Some topo"
  shows "distinct topo" and "set topo = node_ids spec"
    and "edge_rel spec \<subseteq> node_ids spec \<times> node_ids spec" and "topo_sorted (edge_rel spec) topo"
proof -
  have edges: "\<forall>e \<in> set (ps_edges spec). edge_ok reg spec e" using assms(1) by (simp add: runnable_def)
  show "set topo = node_ids spec" by (rule topo_order_Some(2) [OF assms(2)])
  show "edge_rel spec \<subseteq> node_ids spec \<times> node_ids spec" by (rule node_rel_edge_rel(2) [OF edges])
  show "topo_sorted (edge_rel spec) topo"
    using topo_order_Some(1) [OF assms(2)] by (simp only: node_rel_edge_rel(1) [OF edges])
  then show "distinct topo" by (simp add: topo_sorted_def)
qed

lemma topo_sorted_trancl:
  assumes "topo_sorted r order" and "(u, v) \<in> r\<^sup>+" and "k < length order" and "v = order ! k"
  shows "u \<in> set (take k order)"
  using assms(2-4)
proof (induction arbitrary: k rule: trancl_induct)
  case (base v)
  with assms(1) show ?case by (auto simp: topo_sorted_def)
next
  case (step w v)
  then have "w \<in> set (take k order)" using assms(1) by (auto simp: topo_sorted_def)
  then obtain j where j: "j < k" "j < length order" "w = order ! j" by (auto simp: in_set_conv_nth)
  then have "u \<in> set (take j order)" using step.IH by blast
  with j(1) show ?case by (meson less_imp_le set_take_subset_set_take subsetD)
qed

text \<open>What lies behind an edge path comes later in the order.\<close>

lemma topo_later:
  assumes sorted: "topo_sorted r (done @ n # ns)" and path: "(n, m) \<in> r\<^sup>+" and m: "m \<in> set (done @ n # ns)"
  shows "m \<in> set ns" and "m \<notin> set done" and "m \<noteq> n"
proof -
  have dist: "distinct (done @ n # ns)" using sorted by (simp add: topo_sorted_def)
  obtain k where k: "k < length (done @ n # ns)" "m = (done @ n # ns) ! k" using m by (metis in_set_conv_nth)
  have "n \<in> set (take k (done @ n # ns))" by (rule topo_sorted_trancl [OF sorted path k])
  then have "length done < k" using dist by (cases "length done < k") (auto dest: in_set_takeD)
  then show ns: "m \<in> set ns" using k by (auto simp: nth_append nth_Cons split: nat.splits)
  with dist show "m \<notin> set done" "m \<noteq> n" by auto
qed

lemma topo_earlier:
  assumes sorted: "topo_sorted r (done @ n # ns)" and "(m, n) \<in> r\<^sup>+"
  shows "m \<in> set done"
  using topo_sorted_trancl [OF assms, of "length done"] by simp

lemma node_cls_of_node:
  assumes "distinct (map ns_id (ps_nodes spec))" and "m \<in> set (ps_nodes spec)"
  shows "node_cls_of reg spec (ns_id m) = dict_get reg (ns_type m)"
  by (simp add: node_cls_of_def graph_nodes_node [OF assms])

lemma is_fan_out_iterator:
  assumes "runnable reg spec" and "is_fan_out reg spec n"
  shows "n \<in> set (iterator_ids reg spec)"
proof -
  obtain m where "dict_get (graph_nodes spec) n = Some m" "fan_out_type reg (ns_type m)"
    using assms(2) by (auto simp: is_fan_out_def node_cls_of_def fan_out_type_def split: option.splits)
  with graph_nodes_get [of spec n m] show ?thesis by (auto simp: iterator_ids_def)
qed

lemma iterator_is_fan_out:
  assumes "runnable reg spec" and "n \<in> set (iterator_ids reg spec)"
  shows "is_fan_out reg spec n"
proof -
  have dist: "distinct (map ns_id (ps_nodes spec))" using assms(1) by (simp add: runnable_def)
  obtain m where "m \<in> set (ps_nodes spec)" "n = ns_id m" "fan_out_type reg (ns_type m)"
    using assms(2) by (auto simp: iterator_ids_def)
  then show ?thesis
    using node_cls_of_node [OF dist, of m reg]
    by (auto simp: is_fan_out_def fan_out_type_def split: option.splits)
qed

lemma scopes_disjoint:
  assumes "runnable reg spec" and "is_fan_out reg spec i" and "is_fan_out reg spec j"
    and "(i, m) \<in> (edge_rel spec)\<^sup>+" and "(j, m) \<in> (edge_rel spec)\<^sup>+"
  shows "i = j"
  using assms is_fan_out_iterator unfolding runnable_def by metis

section \<open>The loop\<close>

definition status_inv :: "'c registry \<Rightarrow> pipeline_spec \<Rightarrow> string list \<Rightarrow> bool \<Rightarrow> run_state \<Rightarrow> bool" where
  "status_inv reg spec seen abort st \<longleftrightarrow>
     wf_dict (st_results st) \<and>
     (\<forall>m \<in> set seen. result_status st m \<noteq> None) \<and>
     (\<forall>m. result_status st m \<noteq> None \<longrightarrow> m \<in> node_ids spec) \<and>
     (abort \<longrightarrow> st_errors st \<noteq> []) \<and>
     (st_errors st = [] \<longrightarrow> (\<forall>m s. result_status st m = Some s \<longrightarrow> s = SUCCEEDED)) \<and>
     (st_errors st \<noteq> [] \<longrightarrow> (\<exists>m. result_status st m = Some FAILED \<and>
        (m \<in> set seen \<or> (\<exists>j \<in> set seen. is_fan_out reg spec j \<and> (j, m) \<in> (edge_rel spec)\<^sup>+))))"

lemma status_invD:
  assumes "status_inv reg spec seen abort st"
  shows "wf_dict (st_results st)" and "m \<in> set seen \<Longrightarrow> result_status st m \<noteq> None"
    and "result_status st m = Some s \<Longrightarrow> m \<in> node_ids spec"
    and "abort \<Longrightarrow> st_errors st \<noteq> []"
    and "st_errors st = [] \<Longrightarrow> result_status st m = Some s \<Longrightarrow> s = SUCCEEDED"
    and "st_errors st \<noteq> [] \<Longrightarrow> \<exists>m. result_status st m = Some FAILED \<and>
        (m \<in> set seen \<or> (\<exists>j \<in> set seen. is_fan_out reg spec j \<and> (j, m) \<in> (edge_rel spec)\<^sup>+))"
  using assms unfolding status_inv_def by auto

lemma status_invI:
  assumes "wf_dict (st_results st)" and "\<And>m. m \<in> set seen \<Longrightarrow> result_status st m \<noteq> None"
    and "\<And>m s. result_status st m = Some s \<Longrightarrow> m \<in> node_ids spec" and "abort \<Longrightarrow> st_errors st \<noteq> []"
    and "\<And>m s. st_errors st = [] \<Longrightarrow> result_status st m = Some s \<Longrightarrow> s = SUCCEEDED"
    and "st_errors st \<noteq> [] \<Longrightarrow> \<exists>m. result_status st m = Some FAILED \<and>
        (m \<in> set seen \<or> (\<exists>j \<in> set seen. is_fan_out reg spec j \<and> (j, m) \<in> (edge_rel spec)\<^sup>+))"
  shows "status_inv reg spec seen abort st"
  using assms unfolding status_inv_def by blast

text \<open>The position of the loop in the order of a runnable pipeline.\<close>

definition loop_at :: "'c registry \<Rightarrow> pipeline_spec \<Rightarrow> string list \<Rightarrow> string list \<Rightarrow> bool" where
  "loop_at reg spec seen ns \<longleftrightarrow> runnable reg spec \<and> topo_order spec = Some (seen @ ns)"

lemma loop_atD:
  assumes "loop_at reg spec seen (n # ns)"
  shows "n \<in> node_ids spec" and "n \<notin> set seen" and "loop_at reg spec (seen @ [n]) ns"
    and "(n, m) \<in> (edge_rel spec)\<^sup>+ \<Longrightarrow> m \<in> node_ids spec \<and> m \<notin> set seen \<and> m \<noteq> n \<and> m \<in> set ns"
    and "(m, n) \<in> (edge_rel spec)\<^sup>+ \<Longrightarrow> m \<in> set seen"
proof -
  have run: "runnable reg spec" and topo: "topo_order spec = Some (seen @ n # ns)"
    using assms by (simp_all add: loop_at_def)
  note ord = runnable_order [OF run topo]
  show "n \<in> node_ids spec" using ord(2) by auto
  show "n \<notin> set seen" using ord(1) by simp
  show "loop_at reg spec (seen @ [n]) ns" using assms by (simp add: loop_at_def)
  show "m \<in> set seen" if "(m, n) \<in> (edge_rel spec)\<^sup>+" using topo_earlier [OF ord(4) that] .
  show "m \<in> node_ids spec \<and> m \<notin> set seen \<and> m \<noteq> n \<and> m \<in> set ns" if p: "(n, m) \<in> (edge_rel spec)\<^sup>+"
  proof -
    have "m \<in> node_ids spec" using p trancl_subset_Sigma [OF ord(3)] by auto
    then have "m \<in> set (seen @ n # ns)" by (simp only: ord(2))
    from topo_later [OF ord(4) p this] \<open>m \<in> node_ids spec\<close> show ?thesis by blast
  qed
qed

text \<open>A failure recorded earlier is not overwritten: its node lies in no scope still to come.\<close>

lemma failure_kept:
  assumes at: "loop_at reg spec seen (n # ns)" and fan: "is_fan_out reg spec n"
    and m: "m \<in> set seen \<or> (\<exists>j \<in> set seen. is_fan_out reg spec j \<and> (j, m) \<in> (edge_rel spec)\<^sup>+)"
    and fresh: "result_status st n = None" and failed: "result_status st m = Some FAILED"
  shows "m \<noteq> n" and "(n, m) \<notin> (edge_rel spec)\<^sup>+"
proof -
  show "m \<noteq> n" using fresh failed by auto
  show "(n, m) \<notin> (edge_rel spec)\<^sup>+"
  proof
    assume p: "(n, m) \<in> (edge_rel spec)\<^sup>+"
    with loop_atD(4) [OF at p] m obtain j where "j \<in> set seen" "is_fan_out reg spec j" "(j, m) \<in> (edge_rel spec)\<^sup>+"
      by blast
    moreover have "runnable reg spec" using at by (simp add: loop_at_def)
    ultimately have "j = n" using scopes_disjoint fan p by metis
    with \<open>j \<in> set seen\<close> loop_atD(2) [OF at] show False by simp
  qed
qed

lemma status_inv_node:
  assumes at: "loop_at reg spec seen (n # ns)" and inv: "status_inv reg spec seen False st"
    and fresh: "result_status st n = None" and turn: "run_node reg spec n run st = Inr (abort, st')"
  shows "status_inv reg spec (seen @ [n]) abort st'"
proof -
  note D = status_invD [OF inv]
  have desc: "m \<in> node_ids spec" if "m \<in> set (descendants spec n)" for m
    using that loop_atD(4) [OF at, of m] by (simp add: set_descendants)
  from turn show ?thesis
  proof (cases rule: run_node_cases)
    case (ok out)
    then have st: "result_status st' = (\<lambda>m. if m = n then Some SUCCEEDED else result_status st m)" by auto
    have old: "\<exists>m. result_status st m = Some FAILED \<and> m \<noteq> n \<and> (m \<in> set (seen @ [n]) \<or>
        (\<exists>j \<in> set (seen @ [n]). is_fan_out reg spec j \<and> (j, m) \<in> (edge_rel spec)\<^sup>+))" if "st_errors st \<noteq> []"
      using D(6) [OF that] fresh by (metis Un_iff option.distinct(1) set_append)
    show ?thesis
    proof (rule status_invI)
      show "wf_dict (st_results st')" using ok(6) D(1) by blast
    qed (use ok D(2,3,5) loop_atD(1) [OF at] old in \<open>auto simp: st split: if_splits\<close>)
  next
    case (failed e)
    have st: "result_status st' = (\<lambda>m. if m = n then Some FAILED
         else if eo_continue_on_error (rc_options run) \<and> result_status st m = None \<and> m \<in> set (descendants spec n)
         then Some SKIPPED else result_status st m)" using failed(5) by auto
    show ?thesis
    proof (rule status_invI)
      show "wf_dict (st_results st')" using failed(6) D(1) by blast
    qed (use failed D(2,3) loop_atD(1) [OF at] desc in \<open>auto simp: st split: if_splits\<close>)
  qed
qed

text \<open>The nodes an iterator runs: its descendants, in the order of the pipeline.\<close>

abbreviation scope_of :: "pipeline_spec \<Rightarrow> string list \<Rightarrow> string \<Rightarrow> string list" where
  "scope_of spec topo n \<equiv> filter (\<lambda>m. m \<in> set (descendants spec n)) topo"

lemma scope_of_mem:
  assumes "loop_at reg spec seen (n # ns)"
  shows "m \<in> set (scope_of spec (seen @ n # ns) n) \<longleftrightarrow> (n, m) \<in> (edge_rel spec)\<^sup>+"
  using loop_atD(4) [OF assms, of m] by (auto simp: set_descendants)

lemma status_inv_iterator:
  assumes at: "loop_at reg spec seen (n # ns)" and inv: "status_inv reg spec seen False st"
    and fresh: "result_status st n = None" and fan: "is_fan_out reg spec n"
    and turn: "run_iterator reg spec sched n (scope_of spec (seen @ n # ns) n) run st = Some (Inr (abort, st'))"
  shows "status_inv reg spec (seen @ [n]) abort st'"
proof -
  define scope where "scope = scope_of spec (seen @ n # ns) n"
  have sc: "m \<in> set scope \<longleftrightarrow> (n, m) \<in> (edge_rel spec)\<^sup>+" for m
    using scope_of_mem [OF at] by (simp add: scope_def)
  note D = status_invD [OF inv] and n = loop_atD(1) [OF at]
  have dn: "m \<in> node_ids spec" if "m \<in> set scope" for m using that loop_atD(4) [OF at] sc by blast
  from turn [folded scope_def] show ?thesis
  proof (cases rule: run_iterator_cases)
    case (novalues e lg)
    have st: "result_status st' = (\<lambda>m. if m = n then Some FAILED
        else if result_status st m = None \<and> m \<in> set scope then Some SKIPPED else result_status st m)"
      by (auto simp: novalues(3))
    have wf: "wf_dict (st_results st')" using D(1) by (simp add: novalues(3) skip_nodes_wf wf_dict_set)
    have err: "st_errors st' = st_errors st @ [e]" by (simp add: novalues(3))
    show ?thesis
      by (rule status_invI) (use wf D(2,3) n dn in \<open>auto simp: st err split: if_splits\<close>)
  next
    case (finished cls c vals lg env fin fs evs)
    have fs_scope: "m \<in> set scope" if "(m, e) \<in> set fs" for m e
      using run_schedule_fail_scope [of m e env sched "length vals" "iteration_cap cls c run"] that finished(2,3,6)
      by (auto simp: iterator_env_def dest!: task_failures_mem)
    from finished(7) show ?thesis
    proof (cases rule: finish_iterator_cases)
      case (aborted k e fs')
      have k: "k \<in> set scope" "(n, k) \<in> (edge_rel spec)\<^sup>+" using fs_scope [of k e] aborted(1) sc by auto
      have st: "result_status st' = (\<lambda>m. if m = k then Some FAILED
         else if result_status st m = None \<and> m \<in> set (n # scope) then Some SKIPPED else result_status st m)"
        using aborted(6) by auto
      have wf: "wf_dict (st_results st')" using aborted(7) D(1) by simp
      have err: "st_errors st' \<noteq> []" using aborted(1,4) by simp
      show ?thesis
        by (rule status_invI) (use wf err D(2,3) n dn k fan in \<open>auto simp: st split: if_splits\<close>)
    next
      case combined
      have st: "result_status st' = (\<lambda>m. if m \<in> set (n # scope) then Some (if dict_has fs m then FAILED else SUCCEEDED)
         else result_status st m)" using combined(5) by auto
      have wf: "wf_dict (st_results st')" using combined(6) D(1) by simp
      show ?thesis
      proof (rule status_invI)
        show "\<exists>m. result_status st' m = Some FAILED \<and> (m \<in> set (seen @ [n]) \<or>
            (\<exists>j \<in> set (seen @ [n]). is_fan_out reg spec j \<and> (j, m) \<in> (edge_rel spec)\<^sup>+))"
          if ne: "st_errors st' \<noteq> []"
        proof (cases fs)
          case Nil
          with ne combined(3) have "st_errors st \<noteq> []" by simp
          from D(6) [OF this] obtain m where m: "result_status st m = Some FAILED" "m \<in> set seen \<or>
              (\<exists>j \<in> set seen. is_fan_out reg spec j \<and> (j, m) \<in> (edge_rel spec)\<^sup>+)" by blast
          from failure_kept [OF at fan m(2) fresh m(1)] have "m \<notin> set (n # scope)" by (simp add: sc)
          with m show ?thesis by (auto simp: st)
        next
          case (Cons p fs')
          obtain k e where p: "p = (k, e)" by (cases p)
          with Cons fs_scope [of k e] have "k \<in> set scope" by simp
          moreover have "dict_has fs k" using Cons p by simp
          ultimately have "result_status st' k = Some FAILED" by (simp add: st del: dict_has_iff)
          with \<open>k \<in> set scope\<close> fan sc show ?thesis by auto
        qed
        show "s = SUCCEEDED" if "st_errors st' = []" "result_status st' m = Some s" for m s
          using that combined(3) D(5) by (auto simp: st split: if_splits)
      qed (use wf combined(2) D(2,3) n dn in \<open>auto simp: st split: if_splits\<close>)
    qed
  qed
qed

lemma status_inv_skip:
  assumes at: "loop_at reg spec seen (n # ns)" and inv: "status_inv reg spec seen True st"
  shows "status_inv reg spec (seen @ [n]) True (skip_nodes spec [n] st)"
proof -
  note D = status_invD [OF inv]
  from D(4) D(6) obtain m where "result_status st m = Some FAILED" "m \<in> set seen \<or>
      (\<exists>j \<in> set seen. is_fan_out reg spec j \<and> (j, m) \<in> (edge_rel spec)\<^sup>+)" by blast
  moreover have "wf_dict (st_results (skip_nodes spec [n] st))" using D(1) by (rule skip_nodes_wf)
  ultimately show ?thesis
    by (intro status_invI) (use D(2-4) loop_atD(1) [OF at] in \<open>auto split: if_splits simp del: skip_nodes.simps\<close>)
qed

lemma status_inv_seen:
  assumes "status_inv reg spec seen abort st" and "result_status st n \<noteq> None"
  shows "status_inv reg spec (seen @ [n]) abort st"
  using assms unfolding status_inv_def by (simp add: ball_Un) blast

lemma run_loop_status:
  assumes "run_loop reg spec sched topo run ns abort st = Some (Inr st')" and "topo = seen @ ns"
    and "loop_at reg spec seen ns" and "status_inv reg spec seen abort st"
  shows "status_inv reg spec topo (st_errors st' \<noteq> []) st'"
  using assms
proof (induction ns arbitrary: seen abort st)
  case Nil
  then show ?case unfolding status_inv_def by auto
next
  case (Cons n ns)
  have topo: "topo = (seen @ [n]) @ ns" using Cons.prems(2) by simp
  note step = Cons.IH [OF _ topo loop_atD(3) [OF Cons.prems(3)]]
  consider (seen) "result_status st n \<noteq> None" | (skip) "result_status st n = None" "abort"
    | (fan) "result_status st n = None" "\<not> abort" "is_fan_out reg spec n"
    | (node) "result_status st n = None" "\<not> abort" "\<not> is_fan_out reg spec n" by blast
  then show ?case
  proof cases
    case seen
    with Cons.prems(1) have "run_loop reg spec sched topo run ns abort st = Some (Inr st')"
      by (simp add: has_result_iff has_result_status del: dict_has_iff)
    then show ?thesis using status_inv_seen [OF Cons.prems(4) seen] by (rule step)
  next
    case skip
    with Cons.prems(1) have "run_loop reg spec sched topo run ns True (skip_nodes spec [n] st) = Some (Inr st')"
      by (simp add: has_result_iff has_result_status del: dict_has_iff skip_nodes.simps)
    moreover have "status_inv reg spec (seen @ [n]) True (skip_nodes spec [n] st)"
      using Cons.prems(4) skip(2) by (intro status_inv_skip [OF Cons.prems(3)]) simp
    ultimately show ?thesis by (rule step)
  next
    case fan
    with Cons.prems(1) obtain abort' st1 where
      "run_iterator reg spec (sched n) n (scope_of spec topo n) run st = Some (Inr (abort', st1))"
      "run_loop reg spec sched topo run ns abort' st1 = Some (Inr st')"
      by (auto simp: has_result_iff has_result_status simp del: dict_has_iff split: option.splits sum.splits)
    then show ?thesis using fan Cons.prems(2-4) by (intro step) (auto intro: status_inv_iterator)
  next
    case node
    with Cons.prems(1) obtain abort' st1 where "run_node reg spec n run st = Inr (abort', st1)"
      "run_loop reg spec sched topo run ns abort' st1 = Some (Inr st')"
      by (auto simp: has_result_iff has_result_status simp del: dict_has_iff split: sum.splits)
    then show ?thesis using node Cons.prems(3,4) by (intro step) (auto intro: status_inv_node)
  qed
qed

section \<open>Which exceptions escape\<close>

text \<open>No reference of the document has a segment that looks like an index but is no integer, such as \<open>--1\<close>.\<close>

definition refs_ok :: "pipeline_spec \<Rightarrow> bool" where
  "refs_ok spec \<longleftrightarrow> (\<forall>n \<in> set (ps_nodes spec). \<forall>(k, p) \<in> set (find_references (JDict (ns_config n))).
     \<forall>s \<in> set (split_path p). \<not> bad_index s)"

text \<open>\<open>get_values\<close> of an iterator raises structured errors only, for every configuration its own can resolve to.\<close>

definition values_ok :: "'c registry \<Rightarrow> pipeline_spec \<Rightarrow> bool" where
  "values_ok reg spec \<longleftrightarrow> (\<forall>n \<in> set (ps_nodes spec). \<forall>cls. dict_get reg (ns_type n) = Some cls \<longrightarrow> cls_fan_out cls \<longrightarrow>
     (\<forall>refs d c. resolve_config refs (JDict (ns_config n)) = Inr (JDict d) \<longrightarrow> cls_config_model cls d = Inr c \<longrightarrow>
       (\<forall>inputs ctx e lg. cls_get_values cls c inputs ctx = (Inl e, lg) \<longrightarrow> (\<exists>ne. e = NodeExecutionError ne))))"

lemma ctx_error_structured: "\<exists>ne. ctx_error ctx cat m st rs att det = NodeExecutionError ne"
  by (simp add: ctx_error_def)

lemma gather_inputs_Inl: "gather_inputs ctx view es inputs = Inl e \<Longrightarrow> \<exists>ne. e = NodeExecutionError ne"
  using ctx_error_structured
  by (induction ctx view es inputs rule: gather_inputs.induct) (auto split: option.splits)

lemma resolve_config_dict: "resolve_config refs (JDict d) = Inr v \<Longrightarrow> \<exists>d'. v = JDict d'"
  by (auto simp: sbind_eq_Inr)

lemma resolve_node_config_Inl:
  assumes "resolve_node_config ctx refs cfg = Inl e"
    and "\<forall>(k, p) \<in> set (find_references (JDict cfg)). \<forall>s \<in> set (split_path p). \<not> bad_index s"
  shows "\<exists>ne. e = NodeExecutionError ne"
proof -
  obtain x where x: "resolve_config refs (JDict cfg) = Inl x"
    using assms(1) by (cases "resolve_config refs (JDict cfg)")
      (auto simp: resolve_node_config_def simp del: resolve_config.simps split: json.splits)
  have "\<not> (\<exists>(k, p) \<in> set (find_references (JDict cfg)). \<exists>s \<in> set (split_path p). bad_index s)"
    using assms(2) by blast
  with resolve_config_exn [OF x] obtain m where "x = ReferenceResolutionError m" by blast
  with assms(1) x ctx_error_structured show ?thesis
    by (auto simp: resolve_node_config_def simp del: resolve_config.simps)
qed

lemma resolve_node_config_Inr:
  "resolve_node_config ctx refs cfg = Inr d \<Longrightarrow> resolve_config refs (JDict cfg) = Inr (JDict d)"
  using resolve_config_dict [of refs cfg]
  by (auto simp: resolve_node_config_def simp del: resolve_config.simps split: sum.splits exn.splits)

text \<open>A node of a runnable document, and what its preparation goes through.\<close>

lemma runnable_node:
  assumes "runnable reg spec" and "n \<in> node_ids spec"
  obtains m cls where "m \<in> set (ps_nodes spec)" and "ns_id m = n" and "dict_get (graph_nodes spec) n = Some m"
    and "dict_get reg (ns_type m) = Some cls" and "node_cls_of reg spec n = Some cls"
proof -
  obtain m where m: "dict_get (graph_nodes spec) n = Some m"
    using assms(2) unfolding node_ids_def by (metis dict_get_None_iff option.exhaust)
  then have mem: "m \<in> set (ps_nodes spec)" "ns_id m = n" using graph_nodes_get by blast+
  then obtain cls where "dict_get reg (ns_type m) = Some cls"
    using assms(1) unfolding runnable_def config_ok_def by blast
  with m mem that show thesis by (simp add: node_cls_of_def)
qed

lemma prepare_node_Inr:
  assumes "prepare_node reg spec n run view iter = Inr (cls, c, inputs, ctx)"
  obtains m refs d where "dict_get (graph_nodes spec) n = Some m" and "dict_get reg (ns_type m) = Some cls"
    and "ctx = \<lparr>nc_run = run, nc_node_id = ns_id m, nc_node_type = ns_type m, nc_iter = iter\<rparr>"
    and "resolve_config refs (JDict (ns_config m)) = Inr (JDict d)" and "cls_config_model cls d = Inr c"
    and "gather_inputs ctx view (in_edges spec n) [] = Inr inputs"
proof -
  obtain m cls' where m: "dict_get (graph_nodes spec) n = Some m" "dict_get reg (ns_type m) = Some cls'"
    using assms by (auto simp: prepare_node_def split: option.splits)
  let ?ctx = "\<lparr>nc_run = run, nc_node_id = ns_id m, nc_node_type = ns_type m, nc_iter = iter\<rparr>"
  let ?refs = "\<lparr>rx_upstream = map (\<lambda>p. (fst p, primary (snd p))) view, rx_iter = iter\<rparr>"
  obtain d where d: "resolve_node_config ?ctx ?refs (ns_config m) = Inr d"
    using assms m by (auto simp: prepare_node_def Let_def sbind_eq_Inr)
  obtain c' where "cls_config_model cls' d = Inr c'"
    using assms m d by (cases "cls_config_model cls' d") (auto simp: prepare_node_def Let_def)
  with assms m d resolve_node_config_Inr [OF d] that show thesis
    by (auto simp: prepare_node_def Let_def sbind_eq_Inr simp del: resolve_config.simps)
qed

lemma prepare_node_Inl:
  assumes "runnable reg spec" and "refs_ok spec" and "n \<in> node_ids spec"
    and "prepare_node reg spec n run view iter = Inl e"
  shows "\<exists>ne. e = NodeExecutionError ne"
proof -
  obtain m cls where m: "m \<in> set (ps_nodes spec)" "dict_get (graph_nodes spec) n = Some m"
    "dict_get reg (ns_type m) = Some cls" using runnable_node [OF assms(1,3)] by metis
  have "\<forall>(k, p) \<in> set (find_references (JDict (ns_config m))). \<forall>s \<in> set (split_path p). \<not> bad_index s"
    using assms(2) m(1) unfolding refs_ok_def by blast
  note res = resolve_node_config_Inl [OF _ this]
  let ?ctx = "\<lparr>nc_run = run, nc_node_id = ns_id m, nc_node_type = ns_type m, nc_iter = iter\<rparr>"
  let ?refs = "\<lparr>rx_upstream = map (\<lambda>p. (fst p, primary (snd p))) view, rx_iter = iter\<rparr>"
  show ?thesis
  proof (cases "resolve_node_config ?ctx ?refs (ns_config m)")
    case (Inl x)
    with assms(4) m(2,3) res [OF Inl] show ?thesis by (simp add: prepare_node_def)
  next
    case (Inr d)
    with assms(4) m(2,3) ctx_error_structured show ?thesis
      by (cases "cls_config_model cls d")
        (auto simp: prepare_node_def Let_def sbind_eq_Inl dest: gather_inputs_Inl)
  qed
qed

lemma execute_node_Inl:
  assumes "runnable reg spec" and "refs_ok spec" and "n \<in> node_ids spec"
    and "fst (execute_node reg spec n run view iter) = Inl e"
  shows "\<exists>ne. e = NodeExecutionError ne"
proof (cases "prepare_node reg spec n run view iter")
  case (Inl x)
  with assms(4) prepare_node_Inl [OF assms(1-3) Inl] show ?thesis by (simp add: execute_node_def)
next
  case (Inr p)
  with assms(4) ctx_error_structured show ?thesis
    by (auto simp: execute_node_def split: prod.splits sum.splits exn.splits)
qed

lemma iterator_values_Inl:
  assumes "runnable reg spec" and "refs_ok spec" and "values_ok reg spec" and "n \<in> node_ids spec"
    and "is_fan_out reg spec n" and "iterator_values reg spec n run outs = (Inl e, lg)"
  shows "\<exists>ne. e = NodeExecutionError ne"
proof (cases "prepare_node reg spec n run outs None")
  case (Inl x)
  with assms(6) prepare_node_Inl [OF assms(1,2,4) Inl] show ?thesis by (simp add: iterator_values_def)
next
  case (Inr p)
  obtain cls c inputs ctx where p: "p = (cls, c, inputs, ctx)" by (cases p)
  with assms(6) Inr have gv: "cls_get_values cls c inputs ctx = (Inl e, lg)"
    by (auto simp: iterator_values_def split: prod.splits sum.splits)
  obtain m refs d where m: "dict_get (graph_nodes spec) n = Some m" "dict_get reg (ns_type m) = Some cls"
    "resolve_config refs (JDict (ns_config m)) = Inr (JDict d)" "cls_config_model cls d = Inr c"
    using prepare_node_Inr Inr p by (metis (no_types))
  have "cls_fan_out cls" using assms(5) m(1,2) by (simp add: is_fan_out_def node_cls_of_def)
  with assms(3) m gv graph_nodes_get [OF m(1)] show ?thesis unfolding values_ok_def by blast
qed

lemma seq_iteration_no_crash:
  assumes "\<And>n local e. n \<in> set ns \<Longrightarrow> fst (fe_exec env i n local) = Inl e \<Longrightarrow> \<exists>ne. e = NodeExecutionError ne"
  shows "seq_iteration env i ns local \<noteq> TCrash x"
  using assms
proof (induction env i ns local rule: seq_iteration.induct)
  case (2 env i n ns local)
  show ?case
  proof (cases "fst (fe_exec env i n local)")
    case (Inl e)
    with "2.prems" [of n local e] show ?thesis by auto
  qed (use 2 in auto)
qed simp

lemma task_crashes_mem: "x \<in> set (task_crashes ts) \<Longrightarrow> TCrash x \<in> set ts"
  by (induction ts rule: task_crashes.induct) auto

lemma iteration_cap_pos: "1 \<le> eo_max_concurrency (rc_options run) \<Longrightarrow> iteration_cap cls c run > 0"
  by (auto simp: iteration_cap_def split: option.splits)

lemma run_iterator_returns:
  assumes "runnable reg spec" and "refs_ok spec" and "values_ok reg spec" and "n \<in> node_ids spec"
    and "is_fan_out reg spec n" and "set scope \<subseteq> node_ids spec" and "1 \<le> eo_max_concurrency (rc_options run)"
  shows "\<exists>abort st'. run_iterator reg spec sched n scope run st = Some (Inr (abort, st'))"
proof -
  obtain r lg where iv: "iterator_values reg spec n run (st_outputs st) = (r, lg)" by fastforce
  show ?thesis
  proof (cases r)
    case (Inl e)
    with iterator_values_Inl [OF assms(1-5), of run "st_outputs st" e lg] iv show ?thesis
      by (auto simp: run_iterator_def)
  next
    case (Inr v)
    obtain cls c vals where v: "v = (cls, c, vals)" by (cases v)
    define env where "env = iterator_env reg spec run n scope (st_outputs st) vals"
    define fin where "fin = run_schedule env sched (fan_start (length vals) (iteration_cap cls c run))"
    note tasks = run_schedule_tasks [OF iteration_cap_pos [OF assms(7)] fin_def]
    have "iteration env i \<noteq> TCrash x" for i x
      unfolding iteration_def using assms(6) execute_node_Inl [OF assms(1,2)]
      by (intro seq_iteration_no_crash) (auto simp: env_def iterator_env_def)
    then have "TCrash x \<notin> set (fs_tasks fin)" for x
      using tasks(1,3) by (auto simp: in_set_conv_nth)
    then have "task_crashes (fs_tasks fin) = []"
      using task_crashes_mem [of _ "fs_tasks fin"] by (metis list.set_intros(1) neq_Nil_conv)
    moreover have "\<not> list_ex unfinished (fs_tasks fin)" using tasks(2) by (auto simp: list_ex_iff)
    ultimately have "\<exists>r. run_iterator reg spec sched n scope run st = Some (Inr r)"
      using iv Inr v unfolding run_iterator_def Let_def
      by (simp add: env_def fin_def iteration_failures_def)
    then show ?thesis by (metis surj_pair)
  qed
qed

lemma run_loop_returns:
  assumes "runnable reg spec" and "refs_ok spec" and "values_ok reg spec" and "set topo \<subseteq> node_ids spec"
    and "1 \<le> eo_max_concurrency (rc_options run)" and "set ns \<subseteq> node_ids spec"
  shows "\<exists>st'. run_loop reg spec sched topo run ns abort st = Some (Inr st')"
  using assms(6)
proof (induction ns arbitrary: abort st)
  case (Cons n ns)
  have n: "n \<in> node_ids spec" and ns: "set ns \<subseteq> node_ids spec" using Cons.prems by auto
  have "\<exists>a s. run_iterator reg spec (sched n) n (scope_of spec topo n) run st = Some (Inr (a, s))"
    if "is_fan_out reg spec n"
    using assms(4) by (intro run_iterator_returns [OF assms(1-3) n that _ assms(5)]) auto
  moreover have "\<exists>a s. run_node reg spec n run st = Inr (a, s)"
    using execute_node_Inl [OF assms(1,2) n, of run "st_outputs st" None]
    by (cases "execute_node reg spec n run (st_outputs st) None")
      (auto simp: run_node_def Let_def split: sum.splits)
  ultimately show ?case using Cons.IH [OF ns] by fastforce
qed simp

section \<open>Properties of a run\<close>

lemma execute_runnable:
  assumes "runnable reg spec"
  obtains topo where "topo_order spec = Some topo"
    and "execute_pipeline reg sched spec secrets options =
      map_option (map_sum id (run_result_of spec))
        (run_loop reg spec sched topo (run_context_of secrets options) topo False
          (log_event_to [log_msg LInfo None (starting_msg spec topo)] empty_state))"
proof -
  have "validate_pipeline reg spec = []" by (rule runnable_validate_Nil [OF assms])
  moreover obtain topo where "topo_order spec = Some topo"
    using calculation unfolding validate_pipeline_def by (auto simp: Let_def split: option.splits)
  ultimately show thesis using that by (simp add: execute_pipeline_def)
qed

lemma execute_runnable_Inr:
  assumes "runnable reg spec" and "execute_pipeline reg sched spec secrets options = Some (Inr rr)"
  obtains topo st where "topo_order spec = Some topo"
    and "run_loop reg spec sched topo (run_context_of secrets options) topo False
      (log_event_to [log_msg LInfo None (starting_msg spec topo)] empty_state) = Some (Inr st)"
    and "rr = run_result_of spec st"
proof -
  obtain topo where topo: "topo_order spec = Some topo"
    and ex: "execute_pipeline reg sched spec secrets options =
      map_option (map_sum id (run_result_of spec))
        (run_loop reg spec sched topo (run_context_of secrets options) topo False
          (log_event_to [log_msg LInfo None (starting_msg spec topo)] empty_state))"
    by (rule execute_runnable [OF assms(1)])
  from assms(2) obtain r where r: "run_loop reg spec sched topo (run_context_of secrets options) topo False
          (log_event_to [log_msg LInfo None (starting_msg spec topo)] empty_state) = Some r"
    "map_sum id (run_result_of spec) r = Inr rr" unfolding ex by auto
  with topo that show thesis by (cases r) auto
qed

lemma status_inv_empty: "status_inv reg spec [] False (log_event_to evs empty_state)"
  by (simp add: status_inv_def empty_state_def wf_dict_def result_status_def)

text \<open>
  C11. A run never raises and always returns: for every registry, document, interleaving and options with
  a positive concurrency cap, \<open>execute_pipeline\<close> returns a result, provided no reference contains a
  malformed index and the iterators report their own failures as structured errors.
\<close>

theorem execute_pipeline_returns:
  assumes "refs_ok spec" and "values_ok reg spec" and "1 \<le> eo_max_concurrency options"
  shows "\<exists>rr. execute_pipeline reg sched spec secrets options = Some (Inr rr)"
proof (cases "runnable reg spec")
  case True
  then obtain topo where topo: "topo_order spec = Some topo"
    and ex: "execute_pipeline reg sched spec secrets options =
      map_option (map_sum id (run_result_of spec))
        (run_loop reg spec sched topo (run_context_of secrets options) topo False
          (log_event_to [log_msg LInfo None (starting_msg spec topo)] empty_state))"
    by (rule execute_runnable)
  have "set topo \<subseteq> node_ids spec" using runnable_order(2) [OF True topo] by simp
  then show ?thesis
    using run_loop_returns [OF True assms(1,2), of topo "run_context_of secrets options" topo] assms(3)
    by (fastforce simp: ex run_context_of_def)
next
  case False
  then have "validate_pipeline reg spec \<noteq> []" using validate_Nil_runnable by blast
  then show ?thesis by (simp add: execute_pipeline_def)
qed

text \<open>
  C12. The result of a run is complete and consistent. For a runnable document every node has exactly one
  result and nothing else has one; the run is reported as succeeded if and only if every node succeeded,
  and as failed if and only if some node failed, which is also when errors are reported.
\<close>

theorem execute_pipeline_results:
  assumes "runnable reg spec" and "execute_pipeline reg sched spec secrets options = Some (Inr rr)"
  shows "wf_dict (rr_node_results rr) \<and>
    set (dict_keys (rr_node_results rr)) = set (map ns_id (ps_nodes spec)) \<and>
    (rr_status rr = RunSucceeded \<longleftrightarrow> list_all (\<lambda>r. nr_status (snd r) = SUCCEEDED) (rr_node_results rr)) \<and>
    (rr_status rr = RunFailed \<longleftrightarrow> list_ex (\<lambda>r. nr_status (snd r) = FAILED) (rr_node_results rr)) \<and>
    (rr_status rr = RunFailed \<longleftrightarrow> rr_errors rr \<noteq> [])"
proof -
  obtain topo st where topo: "topo_order spec = Some topo"
    and loop: "run_loop reg spec sched topo (run_context_of secrets options) topo False
          (log_event_to [log_msg LInfo None (starting_msg spec topo)] empty_state) = Some (Inr st)"
    and rr: "rr = run_result_of spec st"
    by (rule execute_runnable_Inr [OF assms])
  have at: "loop_at reg spec [] topo" using assms(1) topo by (simp add: loop_at_def)
  have inv: "status_inv reg spec topo (st_errors st \<noteq> []) st"
    by (rule run_loop_status [OF loop _ at status_inv_empty]) simp
  note D = status_invD [OF inv]
  have get: "dict_get (st_results st) n = Some r \<longleftrightarrow> (n, r) \<in> set (st_results st)" for n r
    using D(1) by (simp add: wf_dict_def)
  have keys: "fst ` set (st_results st) = node_ids spec"
  proof -
    have "n \<in> fst ` set (st_results st) \<longleftrightarrow> result_status st n \<noteq> None" for n
      using dict_get_None_iff [of "st_results st" n] by (simp add: result_status_def)
    moreover have "result_status st n \<noteq> None \<longleftrightarrow> n \<in> node_ids spec" for n
      using D(2,3) [of n] runnable_order(2) [OF assms(1) topo] by auto
    ultimately show ?thesis by (intro set_eqI) simp
  qed
  have ids: "node_ids spec = ns_id ` set (ps_nodes spec)" by (simp add: node_ids_def graph_nodes_keys)
  have ok: "list_all (\<lambda>r. nr_status (snd r) = SUCCEEDED) (st_results st)" if "st_errors st = []"
    using D(5) [OF that] get by (fastforce simp: list_all_iff result_status_def)
  have bad: "list_ex (\<lambda>r. nr_status (snd r) = FAILED) (st_results st)" if err: "st_errors st \<noteq> []"
  proof -
    obtain m where "result_status st m = Some FAILED" using D(6) [OF err] by blast
    then obtain r where "(m, r) \<in> set (st_results st)" "nr_status r = FAILED"
      using get by (auto simp: result_status_def)
    then show ?thesis by (force simp: list_ex_iff)
  qed
  have "\<not> (list_all (\<lambda>r. nr_status (snd r) = SUCCEEDED) (st_results st) \<and>
      list_ex (\<lambda>r. nr_status (snd r) = FAILED) (st_results st))"
    by (force simp: list_all_iff list_ex_iff)
  with ok bad D(1) keys ids rr show ?thesis
    by (cases "st_errors st = []") (simp_all add: run_result_of_def Let_def)
qed

text \<open>
  C13. A document that is not runnable is never executed: the call returns a failed run without node
  results and outputs, whose errors are the validation issues, one for one and in order, all of the
  category \<open>validation\<close>, whatever the nodes would have done.
\<close>

theorem execute_pipeline_invalid:
  assumes "\<not> runnable reg spec"
  shows "\<exists>rr. execute_pipeline reg sched spec secrets options = Some (Inr rr) \<and> rr_status rr = RunFailed \<and>
    rr_node_results rr = [] \<and> rr_outputs rr = [] \<and> rr_errors rr \<noteq> [] \<and>
    map ne_message (rr_errors rr) = map vi_message (validate_pipeline reg spec) \<and>
    list_all (\<lambda>e. ne_category e = VALIDATION) (rr_errors rr)"
proof -
  have ne: "validate_pipeline reg spec \<noteq> []" using assms validate_Nil_runnable by blast
  then have "execute_pipeline reg sched spec secrets options = Some (Inr (invalid_result spec (validate_pipeline reg spec)))"
    by (simp add: execute_pipeline_def)
  moreover have "ne_message (issue_error spec i) = vi_message i" "ne_category (issue_error spec i) = VALIDATION" for i
    by (simp_all add: issue_error_def Let_def)
  ultimately show ?thesis using ne by (simp add: invalid_result_def Let_def list_all_iff)
qed

end
