(* ===== verification/Engine_Determinism.thy ===== *)
theory Engine_Determinism
  imports Engine_Results
begin

text \<open>
  With errors tolerated, the outcome of a run does not depend on how the iterations of its iterators are
  interleaved: only the order of log events does. Two states are compared without their logs.
\<close>

definition same_state :: "run_state \<Rightarrow> run_state \<Rightarrow> bool" where
  "same_state st st' \<longleftrightarrow>
     st_outputs st = st_outputs st' \<and> st_results st = st_results st' \<and> st_errors st = st_errors st'"

named_theorems same_intros \<open>operations that agree on states that differ in their logs only\<close>

lemma same_stateD:
  assumes "same_state st st'"
  shows "st_outputs st = st_outputs st'" "st_results st = st_results st'" "st_errors st = st_errors st'"
  using assms by (simp_all add: same_state_def)

lemma same_basic [same_intros]:
  assumes "same_state st st'"
  shows "same_state (log_event_to evs st) (log_event_to evs' st')"
    and "same_state (set_result n r st) (set_result n r st')"
    and "same_state (set_outputs n outs st) (set_outputs n outs st')"
    and "same_state (add_error e st) (add_error e st')"
  using assms by (simp_all add: same_state_def)

lemma same_skip [same_intros]: "same_state st st' \<Longrightarrow> same_state (skip_nodes spec ns st) (skip_nodes spec ns st')"
proof (induction ns arbitrary: st st')
  case (Cons n ns)
  show ?case
    using Cons.IH [OF Cons.prems] Cons.IH [OF same_basic(2) [OF Cons.prems]] same_stateD(2) [OF Cons.prems]
    by (simp del: dict_has_iff)
qed simp

lemma same_record [same_intros]:
  "same_state st st' \<Longrightarrow> same_state (record_failures fs st) (record_failures fs st')"
  by (simp add: same_state_def)

lemma same_combine [same_intros]:
  "same_state st st' \<Longrightarrow> same_state (combine_member reg spec i fan_in vals done fs m st)
     (combine_member reg spec i fan_in vals done fs m st')"
  unfolding combine_member_def Let_def by (intro same_basic)

lemma same_fold_combine [same_intros]:
  "same_state st st' \<Longrightarrow> same_state (fold (combine_member reg spec i fan_in vals done fs) ms st)
     (fold (combine_member reg spec i fan_in vals done fs) ms st')"
  by (induction ms arbitrary: st st') (auto intro: same_combine)

text \<open>Outcomes that agree up to the log.\<close>

fun same_turn :: "exn + bool \<times> run_state \<Rightarrow> exn + bool \<times> run_state \<Rightarrow> bool" where
  "same_turn (Inl x) r \<longleftrightarrow> r = Inl x"
| "same_turn (Inr (a, st)) r \<longleftrightarrow> (\<exists>st'. r = Inr (a, st') \<and> same_state st st')"

lemma same_turn_finish:
  assumes "same_state st st'"
  shows "same_turn (Inr (finish_iterator reg spec cont i scope fan_in vals ts fs st))
    (Inr (finish_iterator reg spec cont i scope fan_in vals ts fs st'))"
proof -
  consider (aborted) n e fs' where "fs = (n, e) # fs'" "\<not> cont" | (combined) "fs = [] \<or> cont"
    by (cases fs) auto
  then show ?thesis
  proof cases
    case aborted
    have "same_state (skip_nodes spec (i # scope) (set_result n (failed_result spec n e) (record_failures fs st)))
        (skip_nodes spec (i # scope) (set_result n (failed_result spec n e) (record_failures fs st')))"
      by (intro same_intros assms)
    with aborted show ?thesis by (simp add: finish_iterator_def del: skip_nodes.simps)
  next
    case combined
    have "same_state (fold (combine_member reg spec i fan_in vals (completed_from 0 ts) fs) (i # scope) (record_failures fs st))
        (fold (combine_member reg spec i fan_in vals (completed_from 0 ts) fs) (i # scope) (record_failures fs st'))"
      by (intro same_intros assms)
    with combined show ?thesis by (cases fs) (auto simp: finish_iterator_def simp del: fold_simps)
  qed
qed

lemma same_turn_node:
  assumes "same_state st st'"
  shows "same_turn (run_node reg spec n run st) (run_node reg spec n run st')"
proof -
  have outs: "st_outputs st = st_outputs st'" using assms same_stateD by blast
  obtain r lg where ex: "execute_node reg spec n run (st_outputs st') None = (r, lg)" by fastforce
  show ?thesis
    using assms by (cases r) (auto simp: run_node_def Let_def outs ex intro!: same_intros split: exn.splits)
qed

lemma same_turn_iterator:
  assumes "same_state st st'" and cont: "eo_continue_on_error (rc_options run)"
    and cap: "1 \<le> eo_max_concurrency (rc_options run)"
  shows "\<exists>r r'. run_iterator reg spec sched n scope run st = Some r \<and>
    run_iterator reg spec sched' n scope run st' = Some r' \<and> same_turn r r'"
proof -
  have outs: "st_outputs st = st_outputs st'" using assms same_stateD by blast
  obtain r lg where iv: "iterator_values reg spec n run (st_outputs st') = (r, lg)" by fastforce
  show ?thesis
  proof (cases r)
    case (Inl e)
    with iv assms(1) show ?thesis by (auto simp: run_iterator_def outs intro!: same_intros split: exn.splits)
  next
    case (Inr v)
    obtain cls c vals where v: "v = (cls, c, vals)" by (cases v)
    define env where "env = iterator_env reg spec run n scope (st_outputs st') vals"
    define tasks where "tasks = map (iteration env) [0..<length vals]"
    have ff: "\<not> fe_fail_fast env" using cont by (simp add: env_def iterator_env_def)
    have fin: "fs_tasks (run_schedule env cs (fan_start (length vals) (iteration_cap cls c run))) = tasks" for cs
      unfolding tasks_def using ff by (intro run_schedule_sequential [OF iteration_cap_pos [OF cap]]) simp
    have nounf: "\<not> list_ex unfinished tasks"
      using seq_iteration_not_running by (auto simp: tasks_def list_ex_iff iteration_def)
    show ?thesis
    proof (cases "iteration_failures (fe_fail_fast env) tasks")
      case (Inl x)
      with iv \<open>r = Inr v\<close> v nounf show ?thesis
        by (simp add: run_iterator_def outs Let_def env_def [symmetric] fin)
    next
      case (Inr fs)
      have "same_turn (Inr (finish_iterator reg spec True n scope (cls_fan_in cls c) vals tasks fs (log_event_to a (log_event_to b st))))
          (Inr (finish_iterator reg spec True n scope (cls_fan_in cls c) vals tasks fs (log_event_to a' (log_event_to b' st'))))" for a a' b b'
        by (intro same_turn_finish same_basic assms(1))
      with iv \<open>r = Inr v\<close> v nounf Inr cont show ?thesis
        by (simp add: run_iterator_def outs Let_def env_def [symmetric] fin del: same_turn.simps)
    qed
  qed
qed

fun same_run :: "(exn + run_state) option \<Rightarrow> (exn + run_state) option \<Rightarrow> bool" where
  "same_run (Some (Inr st)) r \<longleftrightarrow> (\<exists>st'. r = Some (Inr st') \<and> same_state st st')"
| "same_run r r' \<longleftrightarrow> r = r'"

lemma run_loop_same:
  assumes cont: "eo_continue_on_error (rc_options run)" and cap: "1 \<le> eo_max_concurrency (rc_options run)"
  shows "same_state st st' \<Longrightarrow>
    same_run (run_loop reg spec sched topo run ns abort st) (run_loop reg spec sched' topo run ns abort st')"
proof (induction ns arbitrary: abort st st')
  case (Cons n ns)
  note res = same_stateD(2) [OF Cons.prems]
  consider (seen) "dict_has (st_results st') n" | (skip) "\<not> dict_has (st_results st') n" "abort"
    | (fan) "\<not> dict_has (st_results st') n" "\<not> abort" "is_fan_out reg spec n"
    | (node) "\<not> dict_has (st_results st') n" "\<not> abort" "\<not> is_fan_out reg spec n" by blast
  then show ?case
  proof cases
    case seen
    with Cons.IH [OF Cons.prems] res show ?thesis by (simp del: dict_has_iff)
  next
    case skip
    with Cons.IH [OF same_skip [OF Cons.prems, of spec "[n]"]] res show ?thesis
      by (simp del: dict_has_iff skip_nodes.simps)
  next
    case fan
    obtain r r' where r: "run_iterator reg spec (sched n) n (scope_of spec topo n) run st = Some r"
      "run_iterator reg spec (sched' n) n (scope_of spec topo n) run st' = Some r'" "same_turn r r'"
      using same_turn_iterator [OF Cons.prems cont cap] by blast
    with fan res Cons.IH show ?thesis
      by (cases "(r, r')" rule: same_turn.cases) (auto simp del: dict_has_iff)
  next
    case node
    with res Cons.IH same_turn_node [OF Cons.prems, of reg spec n run] show ?thesis
      by (cases "(run_node reg spec n run st, run_node reg spec n run st')" rule: same_turn.cases)
        (auto simp del: dict_has_iff)
  qed
qed simp

text \<open>
  C14. Runs are deterministic under concurrency. With \<open>continue_on_error\<close>, any two interleavings of the
  iterations of all iterators of a pipeline give the same run result, node by node, error by error and
  output by output; they may differ only in the order of the log events.
\<close>

theorem execute_pipeline_deterministic:
  assumes "eo_continue_on_error options" and "1 \<le> eo_max_concurrency options"
  shows "map_option (map_sum id (\<lambda>rr. rr\<lparr>rr_logs := []\<rparr>)) (execute_pipeline reg sched spec secrets options) =
    map_option (map_sum id (\<lambda>rr. rr\<lparr>rr_logs := []\<rparr>)) (execute_pipeline reg sched' spec secrets options)"
proof (cases "validate_pipeline reg spec = []")
  case True
  show ?thesis
  proof (cases "topo_order spec")
    case (Some topo)
    let ?run = "run_context_of secrets options"
    let ?st = "log_event_to [log_msg LInfo None (starting_msg spec topo)] empty_state"
    have "same_run (run_loop reg spec sched topo ?run topo False ?st) (run_loop reg spec sched' topo ?run topo False ?st)"
      using assms by (intro run_loop_same) (simp_all add: run_context_of_def same_state_def)
    moreover have "same_state st st' \<Longrightarrow> (run_result_of spec st)\<lparr>rr_logs := []\<rparr> = (run_result_of spec st')\<lparr>rr_logs := []\<rparr>" for st st'
      by (simp add: run_result_of_def same_state_def Let_def)
    ultimately show ?thesis
      unfolding execute_pipeline_def using True Some
      by (cases "(run_loop reg spec sched topo ?run topo False ?st, run_loop reg spec sched' topo ?run topo False ?st)"
          rule: same_run.cases) auto
  qed (simp add: execute_pipeline_def True)
qed (simp add: execute_pipeline_def)

end
