(* ===== verification/Engine_Success.thy ===== *)
theory Engine_Success
  imports Engine_Results
begin

text \<open>
  When a runnable pipeline succeeds. Validation promises that an accepted document can be run; this is so
  as long as every edge that enters the scope of an iterator comes from the iterator, from its scope, or
  from a node upstream of the iterator. The inputs of every node are then available when it is its turn,
  and the run fails only if some node does.
\<close>

section \<open>Configurations that are constants\<close>

fun no_dollars :: "json \<Rightarrow> bool" where
  "no_dollars (JStr s) \<longleftrightarrow> \<not> starts_with ''$$'' s"
| "no_dollars (JDict d) \<longleftrightarrow> list_all (\<lambda>p. no_dollars (snd p)) d"
| "no_dollars (JList xs) \<longleftrightarrow> list_all no_dollars xs"
| "no_dollars v \<longleftrightarrow> True"

definition static_config :: "json \<Rightarrow> bool" where
  "static_config v \<longleftrightarrow> \<not> has_references v \<and> no_dollars v"

lemma substitute_embed_scan: "piece_refs (embed_scan s) = [] \<Longrightarrow> substitute ctx (embed_scan s) = Inr s"
proof (induction s rule: embed_scan.induct)
  case (1 s)
  show ?case
  proof (cases "embed_at s")
    case None
    with 1 show ?thesis by (cases s) (simp_all add: embed_scan.simps [of "[]"] embed_scan.simps [of "_ # _"])
  next
    case (Some r)
    with "1.prems" show ?thesis by (cases r) (simp add: embed_scan.simps [of s])
  qed
qed

lemma static_config_resolves: "static_config v \<Longrightarrow> resolve_config ctx v = Inr v"
  unfolding static_config_def has_references_def
proof (induction v)
  case (JStr s)
  then show ?case
    by (auto simp: resolve_string_def string_references_def substitute_embed_scan split: option.splits)
next
  case (JDict d)
  have "resolve_config ctx (snd p) = Inr (snd p)" if "p \<in> set d" for p
    using JDict.prems that by (intro JDict.IH [of p]) (auto simp: snds.simps list_all_iff)
  then have "mapM (\<lambda>p. sbind (resolve_config ctx (snd p)) (\<lambda>v. Inr (fst p, v))) d = Inr (map (\<lambda>p. p) d)"
    by (intro mapM_Inr_all) simp
  then show ?case by simp
next
  case (JList xs)
  have "mapM (resolve_config ctx) xs = Inr (map (\<lambda>x. x) xs)"
    using JList by (intro mapM_Inr_all) (auto simp: list_all_iff)
  then show ?case by simp
qed simp_all

section \<open>Conditions\<close>

text \<open>Every edge into a scope comes from the iterator, its scope, or a node upstream of the iterator.\<close>

definition self_contained :: "'c registry \<Rightarrow> pipeline_spec \<Rightarrow> bool" where
  "self_contained reg spec \<longleftrightarrow>
     (\<forall>i \<in> set (iterator_ids reg spec). \<forall>e \<in> set (ps_edges spec). (i, es_to e) \<in> (edge_rel spec)\<^sup>+ \<longrightarrow>
        es_from e = i \<or> (i, es_from e) \<in> (edge_rel spec)\<^sup>+ \<or> (es_from e, i) \<in> (edge_rel spec)\<^sup>+)"

text \<open>
  A node that does not fail on its own: with the configuration of the document and as many streams on each
  port as the document has edges into it, it succeeds and fills every declared port, and a fan-out node
  delivers its values.
\<close>

definition wired :: "pipeline_spec \<Rightarrow> string \<Rightarrow> node_inputs \<Rightarrow> bool" where
  "wired spec n inputs \<longleftrightarrow> (\<forall>p. length (case dict_get inputs p of None \<Rightarrow> [] | Some ss \<Rightarrow> ss) = length (edges_into spec n p))"

definition total_call :: "'c node_cls \<Rightarrow> 'c \<Rightarrow> node_inputs \<Rightarrow> bool" where
  "total_call cls c inputs \<longleftrightarrow>
     (cls_fan_out cls \<longrightarrow> set (cls_output_ports cls) \<subseteq> {''out''}) \<and>
     (\<forall>ctx. \<exists>out lg. cls_run cls c inputs ctx = (Inr out, lg) \<and> set (cls_output_ports cls) \<subseteq> fst ` set out) \<and>
     (\<forall>ctx. cls_fan_out cls \<longrightarrow> (\<exists>vals lg. cls_get_values cls c inputs ctx = (Inr vals, lg)))"

definition total_nodes :: "'c registry \<Rightarrow> pipeline_spec \<Rightarrow> bool" where
  "total_nodes reg spec \<longleftrightarrow> (\<forall>n \<in> set (ps_nodes spec). static_config (JDict (ns_config n)) \<and>
     (\<forall>cls c inputs. dict_get reg (ns_type n) = Some cls \<longrightarrow> cls_config_model cls (ns_config n) = Inr c \<longrightarrow>
        wired spec (ns_id n) inputs \<longrightarrow> total_call cls c inputs))"

section \<open>Available inputs\<close>

definition available :: "'c registry \<Rightarrow> pipeline_spec \<Rightarrow> outputs_map \<Rightarrow> string \<Rightarrow> bool" where
  "available reg spec view p \<longleftrightarrow> (\<exists>outs. dict_get view p = Some outs \<and>
     (\<forall>cls. node_cls_of reg spec p = Some cls \<longrightarrow> set (cls_output_ports cls) \<subseteq> fst ` set outs))"

lemma available_set:
  "available reg spec view p \<Longrightarrow> p \<noteq> n \<Longrightarrow> available reg spec (dict_set n outs view) p"
  by (simp add: available_def)

lemma available_append_left: "available reg spec local p \<Longrightarrow> available reg spec (local @ outs) p"
  by (auto simp: available_def map_add_def split: option.splits)

lemma available_append_right:
  "available reg spec outs p \<Longrightarrow> dict_get local p = None \<Longrightarrow> available reg spec (local @ outs) p"
  by (auto simp: available_def map_add_def split: option.splits)

lemma gather_inputs_Inr:
  "\<forall>e \<in> set es. edge_ok reg spec e \<and> available reg spec view (es_from e) \<Longrightarrow>
     \<exists>inputs'. gather_inputs ctx view es inputs = Inr inputs'"
proof (induction es arbitrary: inputs)
  case (Cons e es)
  then obtain cls outs where cls: "node_cls_of reg spec (es_from e) = Some cls" "es_from_port e \<in> set (cls_output_ports cls)"
    "dict_get view (es_from e) = Some outs" "set (cls_output_ports cls) \<subseteq> fst ` set outs"
    by (auto simp: edge_ok_def available_def)
  then have "es_from_port e \<in> fst ` set outs" by blast
  then obtain recs where "dict_get outs (es_from_port e) = Some recs"
    by (metis dict_get_None_iff option.exhaust)
  with Cons cls show ?case by simp
qed simp

lemma gather_inputs_length:
  assumes "gather_inputs ctx view es inputs = Inr inputs'"
  shows "length (case dict_get inputs' p of None \<Rightarrow> [] | Some ss \<Rightarrow> ss) =
    length (case dict_get inputs p of None \<Rightarrow> [] | Some ss \<Rightarrow> ss) + length (filter (\<lambda>e. es_to_port e = p) es)"
  using assms
proof (induction es arbitrary: inputs)
  case (Cons e es)
  then obtain ss where "gather_inputs ctx view es (dict_set (es_to_port e)
      ((case dict_get inputs (es_to_port e) of None \<Rightarrow> [] | Some ss \<Rightarrow> ss) @ [ss]) inputs) = Inr inputs'"
    by (auto split: option.splits)
  from Cons.IH [OF this] show ?case by (cases "p = es_to_port e") auto
qed simp

lemma gather_inputs_wired: "gather_inputs ctx view (in_edges spec n) [] = Inr inputs \<Longrightarrow> wired spec n inputs"
  using gather_inputs_length [of ctx view "in_edges spec n" "[]" inputs]
  by (simp add: wired_def in_edges_def edges_into_def conj_commute)

lemma prepare_node_total:
  assumes run: "runnable reg spec" and tot: "total_nodes reg spec" and n: "n \<in> node_ids spec"
    and av: "\<And>e. e \<in> set (ps_edges spec) \<Longrightarrow> es_to e = n \<Longrightarrow> available reg spec view (es_from e)"
  shows "\<exists>cls c inputs ctx. prepare_node reg spec n run view iter = Inr (cls, c, inputs, ctx) \<and>
    node_cls_of reg spec n = Some cls \<and> total_call cls c inputs"
proof -
  obtain m cls where m: "m \<in> set (ps_nodes spec)" "ns_id m = n" "dict_get (graph_nodes spec) n = Some m"
    "dict_get reg (ns_type m) = Some cls" "node_cls_of reg spec n = Some cls" using runnable_node [OF run n] by metis
  have static: "static_config (JDict (ns_config m))" using tot m(1) by (auto simp: total_nodes_def)
  have res: "resolve_node_config ctx refs (ns_config m) = Inr (ns_config m)" for ctx refs
    using static_config_resolves [OF static] by (simp add: resolve_node_config_def del: resolve_config.simps)
  obtain c where c: "cls_config_model cls (ns_config m) = Inr c"
    using run m(1,4) static unfolding runnable_def config_ok_def static_config_def by fastforce
  have "\<forall>e \<in> set (in_edges spec n). edge_ok reg spec e \<and> available reg spec view (es_from e)"
    using run av by (auto simp: in_edges_def runnable_def)
  then have "\<exists>inputs. gather_inputs ctx view (in_edges spec n) [] = Inr inputs" for ctx
    by (rule gather_inputs_Inr)
  then obtain inputs where g: "gather_inputs \<lparr>nc_run = run, nc_node_id = ns_id m, nc_node_type = ns_type m,
      nc_iter = iter\<rparr> view (in_edges spec n) [] = Inr inputs" by blast
  have "total_call cls c inputs"
    using tot m(1,2,4) c gather_inputs_wired [OF g] by (auto simp: total_nodes_def)
  with m c g show ?thesis by (simp add: prepare_node_def Let_def res)
qed

lemma execute_node_total:
  assumes "runnable reg spec" and "total_nodes reg spec" and "n \<in> node_ids spec"
    and "\<And>e. e \<in> set (ps_edges spec) \<Longrightarrow> es_to e = n \<Longrightarrow> available reg spec view (es_from e)"
  shows "\<exists>out. fst (execute_node reg spec n run view iter) = Inr out \<and>
    (\<forall>cls. node_cls_of reg spec n = Some cls \<longrightarrow> set (cls_output_ports cls) \<subseteq> fst ` set out)"
proof -
  obtain cls c inputs ctx where p: "prepare_node reg spec n run view iter = Inr (cls, c, inputs, ctx)"
    "node_cls_of reg spec n = Some cls" "total_call cls c inputs" using prepare_node_total [OF assms] by blast
  obtain out lg where "cls_run cls c inputs ctx = (Inr out, lg)" "set (cls_output_ports cls) \<subseteq> fst ` set out"
    using p(3) unfolding total_call_def by metis
  with p show ?thesis by (simp add: execute_node_def)
qed

section \<open>Iterations\<close>

lemma topo_sorted_filter:
  assumes "topo_sorted r order" and "filter P order = pre @ m # rest" and "(p, m) \<in> r" and "P p"
  shows "p \<in> set pre"
proof -
  have "m \<in> set (filter P order)" using assms(2) by simp
  then have m: "m \<in> set order" "P m" by auto
  then obtain a b where order: "order = a @ m # b" by (meson split_list)
  have dist: "distinct (filter P order)" using assms(1) by (simp add: topo_sorted_def)
  have "pre @ m # rest = filter P a @ m # filter P b" using assms(2) m(2) order by simp
  moreover have "m \<notin> set pre" "m \<notin> set rest" using dist unfolding assms(2) by auto
  ultimately have "pre = filter P a" using append_Cons_eq_iff [of m pre rest] by blast
  with topo_earlier [of r a m b p] assms(1,3,4) order show ?thesis by auto
qed

lemma seq_iteration_total:
  assumes at: "loop_at reg spec seen (n # ns)" and tot: "total_nodes reg spec" and self: "self_contained reg spec"
    and fan: "is_fan_out reg spec n" and outs: "\<And>p. p \<in> set seen \<Longrightarrow> available reg spec outs p"
    and scope: "scope_of spec (seen @ n # ns) n = pre @ rest"
    and env: "env = iterator_env reg spec run n (scope_of spec (seen @ n # ns) n) outs vals"
    and local: "\<And>p. p \<in> insert n (set pre) \<Longrightarrow> available reg spec local p" "fst ` set local \<subseteq> insert n (set pre)"
  shows "\<exists>local'. seq_iteration env i rest local = TDone local'"
  using scope local
proof (induction rest arbitrary: pre local)
  case (Cons m rest)
  have run: "runnable reg spec" using at by (simp add: loop_at_def)
  have topo: "topo_sorted (edge_rel spec) (seen @ n # ns)"
    using runnable_order(4) run at by (metis loop_at_def)
  have sc: "x \<in> set (pre @ m # rest) \<longleftrightarrow> (n, x) \<in> (edge_rel spec)\<^sup>+" for x
    using scope_of_mem [OF at, of x] Cons.prems(1) by (metis (no_types, lifting))
  moreover have "m \<in> set (pre @ m # rest)" by simp
  ultimately have m: "(n, m) \<in> (edge_rel spec)\<^sup>+" by blast
  have av: "available reg spec (local @ outs) (es_from e)" if e: "e \<in> set (ps_edges spec)" "es_to e = m" for e
  proof -
    have "n \<in> set (iterator_ids reg spec)" by (rule is_fan_out_iterator [OF run fan])
    with self e m consider (it) "es_from e = n" | (scope) "(n, es_from e) \<in> (edge_rel spec)\<^sup>+"
      | (up) "(es_from e, n) \<in> (edge_rel spec)\<^sup>+" by (auto simp: self_contained_def)
    then show ?thesis
    proof cases
      case it
      then show ?thesis using Cons.prems(2) by (simp add: available_append_left)
    next
      case scope
      have "(es_from e, m) \<in> edge_rel spec" using edge_relI e by blast
      moreover have "es_from e \<in> set (descendants spec n)" using scope by (simp add: set_descendants)
      ultimately have "es_from e \<in> set pre" using topo_sorted_filter [OF topo Cons.prems(1)] by blast
      then show ?thesis using Cons.prems(2) by (simp add: available_append_left)
    next
      case up
      have seen: "es_from e \<in> set seen" by (rule loop_atD(5) [OF at up])
      have "es_from e \<notin> insert n (set pre)"
        using loop_atD(2) [OF at] loop_atD(4) [OF at, of "es_from e"] sc [of "es_from e"] seen by auto
      with Cons.prems(3) have "dict_get local (es_from e) = None" by (auto simp: dict_get_None_iff)
      with outs [OF seen] show ?thesis by (simp add: available_append_right)
    qed
  qed
  obtain out where out: "fst (execute_node reg spec m run (local @ outs) (Some \<lparr>it_value = vals ! i, it_index = i\<rparr>)) = Inr out"
    "\<forall>cls. node_cls_of reg spec m = Some cls \<longrightarrow> set (cls_output_ports cls) \<subseteq> fst ` set out"
    using execute_node_total [OF run tot _ av] loop_atD(4) [OF at m] by blast
  have "\<exists>local'. seq_iteration env i rest (dict_set m out local) = TDone local'"
  proof (rule Cons.IH)
    show "scope_of spec (seen @ n # ns) n = (pre @ [m]) @ rest" using Cons.prems(1) by simp
    show "available reg spec (dict_set m out local) p" if "p \<in> insert n (set (pre @ [m]))" for p
      using that out(2) Cons.prems(2) [of p] by (cases "p = m") (auto simp: available_def)
    show "fst ` set (dict_set m out local) \<subseteq> insert n (set (pre @ [m]))" using Cons.prems(3) by auto
  qed
  with out(1) show ?case by (simp add: env iterator_env_def)
qed simp

lemma combine_member_available:
  "available reg spec (st_outputs (combine_member reg spec i fan_in vals dn fs member st)) m \<longleftrightarrow>
     m = member \<or> available reg spec (st_outputs st) m"
  by (auto simp: combine_member_def Let_def available_def member_ports_def image_image)

lemma fold_combine_available:
  "available reg spec (st_outputs (fold (combine_member reg spec i fan_in vals dn fs) ms st)) m \<longleftrightarrow>
     m \<in> set ms \<or> available reg spec (st_outputs st) m"
  by (induction ms arbitrary: st) (auto simp: combine_member_available)

section \<open>The loop\<close>

definition success_inv :: "'c registry \<Rightarrow> pipeline_spec \<Rightarrow> string list \<Rightarrow> run_state \<Rightarrow> bool" where
  "success_inv reg spec seen st \<longleftrightarrow> st_errors st = [] \<and>
     (\<forall>m \<in> set seen. result_status st m \<noteq> None) \<and>
     (\<forall>m. result_status st m \<noteq> None \<longrightarrow> available reg spec (st_outputs st) m)"

lemma success_node:
  assumes at: "loop_at reg spec seen (n # ns)" and tot: "total_nodes reg spec" and inv: "success_inv reg spec seen st"
  shows "\<exists>st'. run_node reg spec n run st = Inr (False, st') \<and> success_inv reg spec (seen @ [n]) st'"
proof -
  have run: "runnable reg spec" using at by (simp add: loop_at_def)
  have "available reg spec (st_outputs st) (es_from e)" if "e \<in> set (ps_edges spec)" "es_to e = n" for e
  proof -
    have "(es_from e, n) \<in> (edge_rel spec)\<^sup>+" using edge_relI that by blast
    then show ?thesis using loop_atD(5) [OF at] inv by (auto simp: success_inv_def)
  qed
  from execute_node_total [OF run tot loop_atD(1) [OF at] this] obtain out where
    out: "fst (execute_node reg spec n run (st_outputs st) None) = Inr out"
    "\<forall>cls. node_cls_of reg spec n = Some cls \<longrightarrow> set (cls_output_ports cls) \<subseteq> fst ` set out" by blast
  have "\<exists>abort st'. run_node reg spec n run st = Inr (abort, st')"
    using out(1) by (cases "execute_node reg spec n run (st_outputs st) None") (auto simp: run_node_def Let_def)
  then obtain abort st' where turn: "run_node reg spec n run st = Inr (abort, st')" by blast
  from turn show ?thesis
  proof (cases rule: run_node_cases)
    case (ok out')
    have "available reg spec (st_outputs st') n" using out ok(2,3) by (simp add: available_def)
    then have "success_inv reg spec (seen @ [n]) st'"
      using inv ok(4,5) available_set [of reg spec "st_outputs st" _ n out'] by (auto simp: success_inv_def ok(3))
    with turn ok(1) show ?thesis by simp
  qed (use out(1) in simp)
qed

lemma success_iterator:
  assumes at: "loop_at reg spec seen (n # ns)" and tot: "total_nodes reg spec" and self: "self_contained reg spec"
    and fan: "is_fan_out reg spec n" and inv: "success_inv reg spec seen st"
    and cap: "1 \<le> eo_max_concurrency (rc_options run)"
  shows "\<exists>st'. run_iterator reg spec sched n (scope_of spec (seen @ n # ns) n) run st = Some (Inr (False, st')) \<and>
    success_inv reg spec (seen @ [n]) st'"
proof -
  define scope where "scope = scope_of spec (seen @ n # ns) n"
  have run: "runnable reg spec" using at by (simp add: loop_at_def)
  have seen: "available reg spec (st_outputs st) p" if "p \<in> set seen" for p
    using inv that by (auto simp: success_inv_def)
  have "available reg spec (st_outputs st) (es_from e)" if "e \<in> set (ps_edges spec)" "es_to e = n" for e
  proof -
    have "(es_from e, n) \<in> (edge_rel spec)\<^sup>+" using edge_relI that by blast
    then show ?thesis using loop_atD(5) [OF at] seen by blast
  qed
  from prepare_node_total [OF run tot loop_atD(1) [OF at] this] obtain cls c inputs ctx where
    p: "prepare_node reg spec n run (st_outputs st) None = Inr (cls, c, inputs, ctx)"
    "node_cls_of reg spec n = Some cls" "total_call cls c inputs" by blast
  have "cls_fan_out cls" using fan p(2) by (simp add: is_fan_out_def)
  then obtain vals lg where "cls_get_values cls c inputs ctx = (Inr vals, lg)"
    using p(3) unfolding total_call_def by metis
  with p(1) have iv: "iterator_values reg spec n run (st_outputs st) = (Inr (cls, c, vals), lg)"
    by (simp add: iterator_values_def)
  define env where "env = iterator_env reg spec run n scope (st_outputs st) vals"
  define fin where "fin = run_schedule env sched (fan_start (length vals) (iteration_cap cls c run))"
  have iter: "\<exists>local. iteration env i = TDone local" for i
  proof -
    have "\<exists>local. seq_iteration env i scope (fe_init env i) = TDone local"
    proof (rule seq_iteration_total [OF at tot self fan seen])
      show "scope_of spec (seen @ n # ns) n = [] @ scope" by (simp add: scope_def)
      show "env = iterator_env reg spec run n (scope_of spec (seen @ n # ns) n) (st_outputs st) vals"
        by (simp add: env_def scope_def)
      have "cls_fan_out cls" using fan p(2) by (simp add: is_fan_out_def)
      then show "available reg spec (fe_init env i) x" if "x \<in> insert n (set [])" for x
        using that p(2,3) by (auto simp: env_def iterator_env_def available_def total_call_def)
      show "fst ` set (fe_init env i) \<subseteq> insert n (set [])" by (simp add: env_def iterator_env_def)
    qed
    moreover have "fe_scope env = scope" by (simp add: env_def iterator_env_def)
    ultimately show ?thesis by (simp add: iteration_def)
  qed
  have "\<not> failed_task (iteration env i)" for i using iter [of i] by auto
  then have tasks: "fs_tasks fin = map (iteration env) [0..<length vals]"
    unfolding fin_def by (intro run_schedule_sequential [OF iteration_cap_pos [OF cap]]) simp
  have all_done: "\<exists>local. t = TDone local" if "t \<in> set (fs_tasks fin)" for t
    using that iter by (auto simp: tasks)
  have "task_failures ts = []" "task_crashes ts = []" if "\<And>t. t \<in> set ts \<Longrightarrow> \<exists>local. t = TDone local" for ts
    using that by (induction ts) force+
  with all_done have none: "task_failures (fs_tasks fin) = []" "task_crashes (fs_tasks fin) = []" by blast+
  have "\<not> list_ex unfinished (fs_tasks fin)" using all_done by (fastforce simp: list_ex_iff)
  with none iv obtain abort st' where
    turn: "run_iterator reg spec sched n scope run st = Some (Inr (abort, st'))"
    unfolding run_iterator_def Let_def
    by (cases "finish_iterator reg spec (eo_continue_on_error (rc_options run)) n scope (cls_fan_in cls c) vals
          (fs_tasks fin) [] (log_event_to (fs_log fin) (log_event_to (lg @ [log_msg LInfo (Some n)
            (fan_out_msg (length vals) (length scope))]) st))")
      (simp add: env_def [symmetric] fin_def [symmetric] iteration_failures_def)
  from turn have "\<not> abort \<and> success_inv reg spec (seen @ [n]) st'"
  proof (cases rule: run_iterator_cases)
    case (finished cls' c' vals' lg' env' fin' fs evs)
    with iv have "fs = []" using none by (simp add: env_def fin_def)
    from finished(7) show ?thesis
    proof (cases rule: finish_iterator_cases)
      case combined
      have "available reg spec (st_outputs st') m \<longleftrightarrow> m \<in> set (n # scope) \<or> available reg spec (st_outputs st) m" for m
        unfolding combined(4) fold_combine_available by simp
      with inv combined(2,3,5) \<open>fs = []\<close> show ?thesis by (auto simp: success_inv_def)
    qed (use \<open>fs = []\<close> in simp)
  qed (use iv in simp)
  with turn show ?thesis by (auto simp: scope_def)
qed

lemma run_loop_success:
  assumes "loop_at reg spec seen ns" and "topo = seen @ ns" and "success_inv reg spec seen st"
    and tot: "total_nodes reg spec" and self: "self_contained reg spec" and cap: "1 \<le> eo_max_concurrency (rc_options run)"
  shows "\<exists>st'. run_loop reg spec sched topo run ns False st = Some (Inr st') \<and> st_errors st' = []"
  using assms(1-3)
proof (induction ns arbitrary: seen st)
  case (Cons n ns)
  have topo: "topo = (seen @ [n]) @ ns" using Cons.prems(2) by simp
  note step = Cons.IH [OF loop_atD(3) [OF Cons.prems(1)] topo]
  show ?case
  proof (cases "result_status st n")
    case (Some s)
    with Cons.prems(3) have "success_inv reg spec (seen @ [n]) st" by (auto simp: success_inv_def)
    with step [of st] Some show ?thesis by (simp add: has_result_iff has_result_status del: dict_has_iff)
  next
    case None
    then have fresh: "\<not> dict_has (st_results st) n"
      by (simp add: has_result_iff has_result_status del: dict_has_iff)
    show ?thesis
    proof (cases "is_fan_out reg spec n")
      case True
      obtain st1 where "run_iterator reg spec (sched n) n (scope_of spec topo n) run st = Some (Inr (False, st1))"
        "success_inv reg spec (seen @ [n]) st1"
        using success_iterator [OF Cons.prems(1) tot self True Cons.prems(3) cap] Cons.prems(2) by blast
      with step [of st1] fresh True show ?thesis by (simp del: dict_has_iff)
    next
      case False
      obtain st1 where "run_node reg spec n run st = Inr (False, st1)" "success_inv reg spec (seen @ [n]) st1"
        using success_node [OF Cons.prems(1) tot Cons.prems(3)] by blast
      with step [of st1] fresh False show ?thesis by (simp del: dict_has_iff)
    qed
  qed
qed (simp add: success_inv_def)


end
