(* ===== verification/Node_Contract.thy ===== *)
theory Node_Contract
  imports Engine_Success
begin

text \<open>
  What the engine relies on of a node type, as the locale \<open>node_class\<close>, and what it gives in return: every
  error of a run over such node types went through the redactor of the run, on whatever path it was
  reported (configuration, inputs, the node itself, an iteration of a fan-out).
\<close>

definition redacted :: "string list \<Rightarrow> node_error \<Rightarrow> bool" where
  "redacted vs e \<longleftrightarrow> (\<forall>t \<in> set (error_texts e). \<exists>u. t = redact vs u)"

definition redacted_exn :: "string list \<Rightarrow> exn \<Rightarrow> bool" where
  "redacted_exn vs x \<longleftrightarrow> (case x of NodeExecutionError e \<Rightarrow> redacted vs e | _ \<Rightarrow> True)"

lemma redacted_exn_iff [simp]: "redacted_exn vs (NodeExecutionError e) \<longleftrightarrow> redacted vs e"
  by (simp add: redacted_exn_def)

lemma redacted_exn_other [simp]:
  "redacted_exn vs (ValueError m)" "redacted_exn vs (KeyError m)" "redacted_exn vs (TypeError m)"
  "redacted_exn vs (IndexError m)" "redacted_exn vs (OverflowError m)" "redacted_exn vs (ZeroDivisionError m)"
  "redacted_exn vs (ReferenceResolutionError m)" "redacted_exn vs (PathNotFoundError m)"
  "redacted_exn vs (SecretNotFoundError m)" "redacted_exn vs (SSRFBlockedError m)"
  "redacted_exn vs (ExpressionError m)" "redacted_exn vs (OtherException t m)"
  by (simp_all add: redacted_exn_def)

lemma redacted_ctx_error [simp, intro]:
  "nc_redactor ctx = vs \<Longrightarrow> redacted_exn vs (ctx_error ctx cat m st rs att det)"
  using ctx_error_texts [of ctx cat m st rs att det] ctx_error_structured [of ctx cat m st rs att det]
  by (auto simp: redacted_def)

text \<open>
  The contract of a node type: a successful run fills every declared output port, and structured errors are
  built with \<open>ctx.error\<close>. Other exceptions may escape; the engine wraps those of \<open>run\<close>.
\<close>

locale node_class =
  fixes cls :: "'c node_cls"
  assumes run_ports: "cls_run cls c inputs ctx = (Inr out, lg) \<Longrightarrow> set (cls_output_ports cls) \<subseteq> fst ` set out"
    and run_error: "cls_run cls c inputs ctx = (Inl x, lg) \<Longrightarrow> redacted_exn (nc_redactor ctx) x"
    and values_error: "cls_get_values cls c inputs ctx = (Inl x, lg) \<Longrightarrow> redacted_exn (nc_redactor ctx) x"
begin

lemma wrapped_run_error:
  assumes "cls_run cls c inputs ctx = (Inl x, lg)"
  shows "redacted_exn (nc_redactor ctx)
    (case x of NodeExecutionError e \<Rightarrow> NodeExecutionError e
     | _ \<Rightarrow> ctx_err ctx UNKNOWN (exn_type x @ '': '' @ exn_str x))"
  using run_error [OF assms] by (cases x) simp_all

end

definition contract_registry :: "'c registry \<Rightarrow> bool" where
  "contract_registry reg \<longleftrightarrow> (\<forall>t cls. dict_get reg t = Some cls \<longrightarrow> node_class cls)"

section \<open>Preparing and executing a node\<close>

lemma gather_inputs_redacted:
  "gather_inputs ctx view es inputs = Inl x \<Longrightarrow> redacted_exn (nc_redactor ctx) x"
  by (induction ctx view es inputs rule: gather_inputs.induct) (auto split: option.splits)

lemma resolve_node_config_redacted:
  assumes "resolve_node_config ctx refs cfg = Inl x"
  shows "redacted_exn (nc_redactor ctx) x"
proof -
  obtain y where y: "resolve_config refs (JDict cfg) = Inl y"
    using assms by (cases "resolve_config refs (JDict cfg)")
      (auto simp: resolve_node_config_def simp del: resolve_config.simps split: json.splits)
  then obtain k p where "resolve_reference k p refs = Inl y" using resolve_config_Inl by blast
  from resolve_reference_Inl [OF this] y assms show ?thesis
    by (auto simp: ref_exn_def resolve_node_config_def simp del: resolve_config.simps)
qed

lemma prepare_node_redacted:
  assumes "prepare_node reg spec n run view iter = Inl x"
  shows "redacted_exn (rc_redactor run) x"
proof (cases "\<exists>m cls. dict_get (graph_nodes spec) n = Some m \<and> dict_get reg (ns_type m) = Some cls")
  case True
  then obtain m cls where m: "dict_get (graph_nodes spec) n = Some m" "dict_get reg (ns_type m) = Some cls" by blast
  let ?ctx = "\<lparr>nc_run = run, nc_node_id = ns_id m, nc_node_type = ns_type m, nc_iter = iter\<rparr>"
  let ?refs = "\<lparr>rx_upstream = map (\<lambda>p. (fst p, primary (snd p))) view, rx_iter = iter\<rparr>"
  show ?thesis
  proof (cases "resolve_node_config ?ctx ?refs (ns_config m)")
    case (Inl y)
    with assms m resolve_node_config_redacted [OF Inl] show ?thesis by (simp add: prepare_node_def Let_def)
  next
    case (Inr d)
    show ?thesis
    proof (cases "cls_config_model cls d")
      case (Inl errs)
      with assms m Inr show ?thesis by (auto simp: prepare_node_def Let_def)
    next
      case (Inr c)
      with assms m \<open>resolve_node_config ?ctx ?refs (ns_config m) = Inr d\<close>
      have "gather_inputs ?ctx view (in_edges spec n) [] = Inl x"
        by (simp add: prepare_node_def Let_def sbind_eq_Inl)
      from gather_inputs_redacted [OF this] show ?thesis by simp
    qed
  qed
next
  case False
  with assms show ?thesis by (auto simp: prepare_node_def split: option.splits)
qed

lemma prepare_node_contract:
  assumes "contract_registry reg" and "prepare_node reg spec n run view iter = Inr (cls, c, inputs, ctx)"
  shows "node_class cls" and "nc_run ctx = run"
  by (rule prepare_node_Inr [OF assms(2)], use assms(1) in \<open>simp add: contract_registry_def\<close>)+

lemma execute_node_redacted:
  assumes "contract_registry reg" and "fst (execute_node reg spec n run view iter) = Inl x"
  shows "redacted_exn (rc_redactor run) x"
proof (cases "prepare_node reg spec n run view iter")
  case (Inl y)
  with assms(2) prepare_node_redacted [OF Inl] show ?thesis by (simp add: execute_node_def)
next
  case (Inr q)
  then obtain cls c inputs ctx where p: "prepare_node reg spec n run view iter = Inr (cls, c, inputs, ctx)"
    by (cases q) blast
  then obtain y lg where y: "cls_run cls c inputs ctx = (Inl y, lg)"
    using assms(2) by (cases "cls_run cls c inputs ctx"; cases "fst (cls_run cls c inputs ctx)")
      (auto simp: execute_node_def)
  from node_class.wrapped_run_error [OF prepare_node_contract(1) [OF assms(1) p] y] p y assms(2)
    prepare_node_contract(2) [OF assms(1) p]
  show ?thesis by (cases y) (auto simp: execute_node_def)
qed

lemma iterator_values_redacted:
  assumes "contract_registry reg" and "iterator_values reg spec n run outs = (Inl x, lg)"
  shows "redacted_exn (rc_redactor run) x"
proof (cases "prepare_node reg spec n run outs None")
  case (Inl y)
  with assms(2) prepare_node_redacted [OF Inl] show ?thesis by (simp add: iterator_values_def)
next
  case (Inr q)
  then obtain cls c inputs ctx where p: "prepare_node reg spec n run outs None = Inr (cls, c, inputs, ctx)"
    by (cases q) blast
  then have "cls_get_values cls c inputs ctx = (Inl x, lg)"
    using assms(2) by (auto simp: iterator_values_def split: sum.splits prod.splits)
  with node_class.values_error [OF prepare_node_contract(1) [OF assms(1) p]] prepare_node_contract(2) [OF assms(1) p]
  show ?thesis by auto
qed

section \<open>Iterations\<close>

lemma json_strings_dict_set:
  "t \<in> set (json_strings (JDict (dict_set k v d))) \<Longrightarrow> t \<in> set (json_strings v) \<or> t \<in> set (json_strings (JDict d))"
  by (induction k v d rule: dict_set.induct) (auto split: if_splits)

lemma iteration_details_redacted:
  assumes "redacted (rc_redactor run) e"
  shows "redacted (rc_redactor run) (iteration_details run vals i e)"
  unfolding redacted_def
proof
  fix t assume "t \<in> set (error_texts (iteration_details run vals i e))"
  then consider (old) "t \<in> set (error_texts e)" | (iter) "t = redact (rc_redactor run) (take 200 (py_repr (vals ! i)))"
    by (auto simp: error_texts_def iteration_details_def dict_update_def simp del: json_strings.simps(2)
        split: option.splits dest!: json_strings_dict_set) auto
  then show "\<exists>u. t = redact (rc_redactor run) u" using assms by cases (auto simp: redacted_def)
qed

lemma seq_iteration_redacted:
  assumes "\<And>i n local x. fst (fe_exec env i n local) = Inl x \<Longrightarrow> redacted_exn vs x"
    and "\<And>i e. redacted vs e \<Longrightarrow> redacted vs (fe_wrap env i e)"
    and "seq_iteration env i ns local = TFail n e"
  shows "redacted vs e"
  using assms(3)
proof (induction ns arbitrary: local)
  case (Cons m ns)
  show ?case
  proof (cases "fst (fe_exec env i m local)")
    case (Inl x)
    with Cons.prems assms(1) [OF Inl] assms(2) show ?thesis by (cases x) auto
  qed (use Cons in simp)
qed simp

lemma task_failures_redacted:
  assumes "contract_registry reg"
    and "env = iterator_env reg spec run n scope outs vals"
    and "(m, e) \<in> set (task_failures (fs_tasks (run_schedule env cs (fan_start k cap))))"
  shows "redacted (rc_redactor run) e"
proof -
  have "TFail m e \<in> set (fs_tasks (run_schedule env cs (fan_start k cap)))"
    using task_failures_mem [OF assms(3)] .
  then obtain i where "iteration env i = TFail m e" by (rule run_schedule_fail_iteration)
  then show ?thesis
    unfolding iteration_def
    by (rule seq_iteration_redacted [rotated 2])
      (auto simp: assms(2) iterator_env_def intro: execute_node_redacted [OF assms(1)] iteration_details_redacted)
qed

section \<open>The run\<close>

lemma skip_nodes_errors [simp]: "st_errors (skip_nodes spec ns st) = st_errors st"
  by (induction spec ns st rule: skip_nodes.induct) (simp_all del: dict_has_iff)

lemma run_node_redacted:
  assumes "contract_registry reg" and "run_node reg spec n run st = Inr (abort, st')"
    and "\<forall>e \<in> set (st_errors st). redacted (rc_redactor run) e"
  shows "\<forall>e \<in> set (st_errors st'). redacted (rc_redactor run) e"
  using assms(2)
proof (cases rule: run_node_cases)
  case (failed e)
  with assms(3) execute_node_redacted [OF assms(1) failed(2)] show ?thesis by auto
qed (use assms(3) in simp)

lemma run_iterator_redacted:
  assumes "contract_registry reg" and "run_iterator reg spec sched i scope run st = Some (Inr (abort, st'))"
    and "\<forall>e \<in> set (st_errors st). redacted (rc_redactor run) e"
  shows "\<forall>e \<in> set (st_errors st'). redacted (rc_redactor run) e"
  using assms(2)
proof (cases rule: run_iterator_cases)
  case (novalues e lg)
  with assms(3) iterator_values_redacted [OF assms(1) novalues(2)] show ?thesis by auto
next
  case (finished cls c vals lg env fin fs evs)
  have "redacted (rc_redactor run) e" if "(m, e) \<in> set fs" for m e
    using task_failures_redacted [OF assms(1) finished(2)] that finished(3,6) by auto
  moreover have "st_errors st' = st_errors st @ map snd fs"
    using finished(7) by (cases rule: finish_iterator_cases) simp_all
  ultimately show ?thesis using assms(3) by auto
qed

lemma run_loop_redacted:
  assumes "contract_registry reg" and "run_loop reg spec sched topo run ns abort st = Some (Inr st')"
    and "\<forall>e \<in> set (st_errors st). redacted (rc_redactor run) e"
  shows "\<forall>e \<in> set (st_errors st'). redacted (rc_redactor run) e"
  using assms(2,3)
proof (induction ns arbitrary: abort st)
  case (Cons n ns)
  consider (old) "dict_has (st_results st) n" | (skip) "\<not> dict_has (st_results st) n" "abort"
    | (fan) abort' st1 where "\<not> dict_has (st_results st) n" "\<not> abort" "is_fan_out reg spec n"
        "run_iterator reg spec (sched n) n (scope_of spec topo n) run st = Some (Inr (abort', st1))"
        "run_loop reg spec sched topo run ns abort' st1 = Some (Inr st')"
    | (node) abort' st1 where "\<not> dict_has (st_results st) n" "\<not> abort" "\<not> is_fan_out reg spec n"
        "run_node reg spec n run st = Inr (abort', st1)"
        "run_loop reg spec sched topo run ns abort' st1 = Some (Inr st')"
    using Cons.prems(1) by (auto simp del: dict_has_iff split: if_splits option.splits sum.splits)
  then show ?case
  proof cases
    case fan
    show ?thesis by (rule Cons.IH [OF fan(5) run_iterator_redacted [OF assms(1) fan(4) Cons.prems(2)]])
  next
    case node
    show ?thesis by (rule Cons.IH [OF node(5) run_node_redacted [OF assms(1) node(4) Cons.prems(2)]])
  qed (use Cons in \<open>simp_all del: dict_has_iff skip_nodes.simps\<close>)
qed simp

lemma execute_pipeline_redacted:
  assumes "contract_registry reg" and "runnable reg spec"
    and "execute_pipeline reg sched spec secrets options = Some (Inr rr)"
  shows "\<forall>e \<in> set (rr_errors rr). redacted (make_redactor (dict_values secrets)) e"
proof -
  obtain topo st where "run_loop reg spec sched topo (run_context_of secrets options) topo False
      (log_event_to [log_msg LInfo None (starting_msg spec topo)] empty_state) = Some (Inr st)"
    and rr: "rr = run_result_of spec st"
    by (rule execute_runnable_Inr [OF assms(2,3)])
  from run_loop_redacted [OF assms(1) this(1)] rr show ?thesis
    by (simp add: empty_state_def run_context_of_def run_result_of_def Let_def)
qed

end
