(* ===== verification/Builtin_Nodes.thy ===== *)
theory Builtin_Nodes
  imports Merge_Node Transform_Node Api_Source Engine_Determinism Node_Contract
begin

text \<open>
  The classes \<open>ApiSourceNode\<close>, \<open>IteratorNode\<close>, \<open>MergeNode\<close> and \<open>TransformNode\<close> as entries of the node
  registry, and the engine on pipelines made of them.

  The field types of a configuration model are checked by pydantic, a parameter (\<open>pydantic\<close>); the models'
  own validators run on what it delivers. The locale \<open>node_class\<close> states what the engine relies on of a
  node type; it is interpreted on these classes.
\<close>

section \<open>The classes\<close>

datatype builtin_config =
    CApiSource api_config
  | CIterator iterator_config
  | CMerge merge_config
  | CTransform "transform_op list"

record pydantic =
  pd_api :: "json dict \<Rightarrow> config_errors + api_config"
  pd_iterator :: "json dict \<Rightarrow> config_errors + iterator_config"
  pd_merge :: "json dict \<Rightarrow> config_errors + merge_config"
  pd_transform :: "json dict \<Rightarrow> config_errors + transform_op list"

definition wrong_config :: exn where
  "wrong_config = OtherException ''TypeError'' ''configuration of another node type''"

definition no_values :: "'c \<Rightarrow> node_inputs \<Rightarrow> node_ctx \<Rightarrow> json list logged" where
  "no_values c inputs ctx = (Inl (OtherException ''AssertionError'' []), [])"

definition api_cls :: "pydantic \<Rightarrow> api_world \<Rightarrow> builtin_config node_cls" where
  "api_cls pd w =
     \<lparr>cls_name = ''ApiSourceNode'',
      cls_config_model = (\<lambda>d. sbind (pd_api pd d) (\<lambda>c. sbind (api_validators c) (\<lambda>c. Inr (CApiSource c)))),
      cls_input_ports = [''in''], cls_output_ports = [''out''], cls_allow_multi_input = False, cls_fan_out = False,
      cls_required_input_ports = (\<lambda>c. []), cls_check_spec = (\<lambda>c counts. []),
      cls_run = (\<lambda>c inputs ctx. case c of CApiSource cfg \<Rightarrow> api_run w cfg inputs ctx | _ \<Rightarrow> (Inl wrong_config, [])),
      cls_get_values = no_values, cls_fan_in = (\<lambda>c. ''concat''), cls_max_concurrency = (\<lambda>c. None)\<rparr>"

definition iterator_cls :: "pydantic \<Rightarrow> builtin_config node_cls" where
  "iterator_cls pd =
     \<lparr>cls_name = ''IteratorNode'',
      cls_config_model = (\<lambda>d. sbind (pd_iterator pd d) (\<lambda>c. sbind (iterator_validators c) (\<lambda>c. Inr (CIterator c)))),
      cls_input_ports = [''in''], cls_output_ports = [''out''], cls_allow_multi_input = False, cls_fan_out = True,
      cls_required_input_ports = (\<lambda>c. case c of CIterator cfg \<Rightarrow> iterator_required_ports cfg | _ \<Rightarrow> []),
      cls_check_spec = (\<lambda>c counts. []),
      cls_run = (\<lambda>c inputs ctx. case c of
          CIterator cfg \<Rightarrow> (iterator_run cfg inputs ctx, []) | _ \<Rightarrow> (Inl wrong_config, [])),
      cls_get_values = (\<lambda>c inputs ctx. case c of
          CIterator cfg \<Rightarrow> (iterator_get_values cfg inputs ctx, []) | _ \<Rightarrow> (Inl wrong_config, [])),
      cls_fan_in = (\<lambda>c. case c of CIterator cfg \<Rightarrow> ic_fan_in cfg | _ \<Rightarrow> ''concat''),
      cls_max_concurrency = (\<lambda>c. case c of CIterator cfg \<Rightarrow> ic_max_concurrency cfg | _ \<Rightarrow> None)\<rparr>"

definition merge_cls :: "pydantic \<Rightarrow> builtin_config node_cls" where
  "merge_cls pd =
     \<lparr>cls_name = ''MergeNode'',
      cls_config_model = (\<lambda>d. sbind (pd_merge pd d) (\<lambda>c. sbind (merge_validators c) (\<lambda>c. Inr (CMerge c)))),
      cls_input_ports = [''in''], cls_output_ports = [''out''], cls_allow_multi_input = True, cls_fan_out = False,
      cls_required_input_ports = (\<lambda>c. [''in'']),
      cls_check_spec = (\<lambda>c counts. case c of CMerge cfg \<Rightarrow> merge_check_spec cfg counts | _ \<Rightarrow> []),
      cls_run = (\<lambda>c inputs ctx. case c of CMerge cfg \<Rightarrow> merge_run cfg inputs ctx | _ \<Rightarrow> (Inl wrong_config, [])),
      cls_get_values = no_values, cls_fan_in = (\<lambda>c. ''concat''), cls_max_concurrency = (\<lambda>c. None)\<rparr>"

definition transform_cls :: "pydantic \<Rightarrow> py_lib \<Rightarrow> builtin_config node_cls" where
  "transform_cls pd lib =
     \<lparr>cls_name = ''TransformNode'',
      cls_config_model = (\<lambda>d. sbind (pd_transform pd d) (\<lambda>c. Inr (CTransform c))),
      cls_input_ports = [''in''], cls_output_ports = [''out''], cls_allow_multi_input = False, cls_fan_out = False,
      cls_required_input_ports = (\<lambda>c. [''in'']), cls_check_spec = (\<lambda>c counts. []),
      cls_run = (\<lambda>c inputs ctx. case c of
          CTransform ops \<Rightarrow> transform_run lib ops inputs ctx | _ \<Rightarrow> (Inl wrong_config, [])),
      cls_get_values = no_values, cls_fan_in = (\<lambda>c. ''concat''), cls_max_concurrency = (\<lambda>c. None)\<rparr>"

text \<open>Importing the modules runs \<open>register_node\<close> on an initially empty registry.\<close>

definition same_class :: "builtin_config node_cls \<Rightarrow> builtin_config node_cls \<Rightarrow> bool" where
  "same_class a b \<longleftrightarrow> cls_name a = cls_name b"

definition import_nodes :: "pydantic \<Rightarrow> py_lib \<Rightarrow> api_world \<Rightarrow> exn + builtin_config registry" where
  "import_nodes pd lib w =
     sbind (register_node same_class ''api_source'' (api_cls pd w) [])
       (\<lambda>reg. sbind (register_node same_class ''iterator'' (iterator_cls pd) reg)
         (\<lambda>reg. sbind (register_node same_class ''merge'' (merge_cls pd) reg)
           (register_node same_class ''transform'' (transform_cls pd lib))))"

definition node_registry :: "pydantic \<Rightarrow> py_lib \<Rightarrow> api_world \<Rightarrow> builtin_config registry" where
  "node_registry pd lib w = (case import_nodes pd lib w of Inr reg \<Rightarrow> reg | Inl e \<Rightarrow> [])"

lemma node_registry_eq:
  "node_registry pd lib w =
     [(''api_source'', api_cls pd w), (''iterator'', iterator_cls pd), (''merge'', merge_cls pd),
      (''transform'', transform_cls pd lib)]"
  by (simp add: node_registry_def import_nodes_def register_node_def)

lemma node_registry_get:
  "dict_get (node_registry pd lib w) t = Some cls \<longleftrightarrow>
     t = ''api_source'' \<and> cls = api_cls pd w \<or> t = ''iterator'' \<and> cls = iterator_cls pd \<or>
     t = ''merge'' \<and> cls = merge_cls pd \<or> t = ''transform'' \<and> cls = transform_cls pd lib"
  unfolding node_registry_eq by (simp split: if_split) blast

section \<open>The classes keep the contract\<close>

lemma redacted_path_error: "get_path_opt v p = Inl x \<Longrightarrow> redacted_exn vs x"
  by (auto dest!: get_path_opt_Inl)

lemma extract_field_redacted: "extract_field ctx f i rs = Inl x \<Longrightarrow> redacted_exn (nc_redactor ctx) x"
  by (induction ctx f i rs rule: extract_field.induct)
    (auto simp: sbind_eq_Inl redacted_path_error split: option.splits)

lemma iterator_values_redacted_exn:
  "iterator_get_values cfg inputs ctx = Inl x \<Longrightarrow> redacted_exn (nc_redactor ctx) x"
  by (auto simp: iterator_get_values_def extract_field_redacted
      split: iter_mode.splits json.splits option.splits list.splits)

interpretation iterator: node_class "iterator_cls pd" for pd
proof unfold_locales
  fix c inputs ctx out lg
  assume "cls_run (iterator_cls pd) c inputs ctx = (Inr out, lg)"
  then show "set (cls_output_ports (iterator_cls pd)) \<subseteq> fst ` set out"
    by (auto simp: iterator_cls_def iterator_run_def sbind_eq_Inr split: builtin_config.splits)
next
  fix c inputs ctx x lg
  assume "cls_run (iterator_cls pd) c inputs ctx = (Inl x, lg)"
  then show "redacted_exn (nc_redactor ctx) x"
    by (auto simp: iterator_cls_def iterator_run_def sbind_eq_Inl wrong_config_def iterator_values_redacted_exn
        split: builtin_config.splits)
next
  fix c inputs ctx x lg
  assume "cls_get_values (iterator_cls pd) c inputs ctx = (Inl x, lg)"
  then show "redacted_exn (nc_redactor ctx) x"
    by (auto simp: iterator_cls_def wrong_config_def iterator_values_redacted_exn
        split: builtin_config.splits)
qed

lemma key_of_redacted: "key_of r ks = Inl x \<Longrightarrow> redacted_exn vs x"
  by (induction r ks rule: key_of.induct) (auto simp: sbind_eq_Inl redacted_path_error split: option.splits)

lemma build_index_redacted: "build_index ks rs ix keyless = Inl x \<Longrightarrow> redacted_exn vs x"
proof (induction rs arbitrary: ix keyless)
  case (Cons r rs)
  show ?case
  proof (cases "key_of r ks")
    case (Inr k)
    with Cons show ?thesis by (cases k) auto
  qed (use Cons.prems key_of_redacted in auto)
qed simp

lemma probe_redacted: "probe cfg ix ls matched out = Inl x \<Longrightarrow> redacted_exn vs x"
proof (induction ls arbitrary: matched out)
  case (Cons l ls)
  show ?case
  proof (cases "key_of l (join_keys cfg)")
    case (Inr k)
    define ms where "ms = (case k of None \<Rightarrow> [] | Some k \<Rightarrow> index_get k ix)"
    show ?thesis using Cons Inr by (cases "ms = []") (simp_all add: ms_def [symmetric])
  qed (use Cons.prems key_of_redacted in auto)
qed simp

lemma merge_join_redacted: "merge_join cfg streams ctx = Inl x \<Longrightarrow> redacted_exn (nc_redactor ctx) x"
  by (auto simp: merge_join_def join_records_def sbind_eq_Inl build_index_redacted probe_redacted
      split: list.splits prod.splits)

lemma no_values_redacted: "no_values c inputs ctx = (Inl x, lg) \<Longrightarrow> redacted_exn vs x"
  by (auto simp: no_values_def redacted_exn_def)

interpretation merge: node_class "merge_cls pd" for pd
proof unfold_locales
  fix c inputs ctx out lg
  assume "cls_run (merge_cls pd) c inputs ctx = (Inr out, lg)"
  then show "set (cls_output_ports (merge_cls pd)) \<subseteq> fst ` set out"
    by (auto simp: merge_cls_def merge_run_def Let_def split: builtin_config.splits sum.splits)
next
  fix c inputs ctx x lg
  assume "cls_run (merge_cls pd) c inputs ctx = (Inl x, lg)"
  then show "redacted_exn (nc_redactor ctx) x"
    by (auto simp: merge_cls_def merge_run_def Let_def wrong_config_def merge_join_redacted
        split: builtin_config.splits sum.splits merge_strategy.splits)
next
  fix c inputs ctx x lg
  assume "cls_get_values (merge_cls pd) c inputs ctx = (Inl x, lg)"
  then show "redacted_exn (nc_redactor ctx) x" by (auto simp: merge_cls_def no_values_redacted)
qed

text \<open>\<open>re.search\<close> raises \<open>re.error\<close> on a bad pattern, never an error of this program.\<close>

definition search_ok :: "py_lib \<Rightarrow> bool" where
  "search_ok lib \<longleftrightarrow> (\<forall>p s e. pl_search lib p s \<noteq> Inl (NodeExecutionError e))"

lemma compare_values_redacted:
  assumes "search_ok lib" and "compare_values lib op a b = Inl x"
  shows "redacted_exn vs x"
proof -
  have catch_Inl: "catch_type_error r = Inl x \<Longrightarrow> r = Inl x \<and> (\<forall>m. x \<noteq> TypeError m)" for r
    by (auto simp: catch_type_error_def split: sum.splits exn.splits)
  have py_in_Inl: "py_in a b = Inl x \<Longrightarrow> \<exists>m. x = TypeError m" for a b
    by (cases "(a, b)" rule: py_in.cases) (auto split: json.splits)
  have ordering_Inl: "py_ordering n c a b = Inl x \<Longrightarrow> \<exists>m. x = TypeError m" for n c
    by (auto simp: py_ordering_def split: option.splits prod.splits)
  show ?thesis
  proof (cases op)
    case CRegex
    with assms catch_Inl show ?thesis by (cases x) (auto simp: search_ok_def redacted_exn_def)
  qed (use assms(2) in \<open>auto simp: sbind_eq_Inl dest!: catch_Inl py_in_Inl ordering_Inl\<close>)
qed

lemma eval_predicate_redacted:
  assumes "search_ok lib"
  shows "eval_predicate lib r p = Inl x \<Longrightarrow> redacted_exn vs x"
    and "eval_all lib r ps = Inl x \<Longrightarrow> redacted_exn vs x"
    and "eval_any lib r ps = Inl x \<Longrightarrow> redacted_exn vs x"
  using assms compare_values_redacted [OF assms]
  by (induction lib r p and lib r ps and lib r ps rule: eval_predicate_eval_all_eval_any.induct)
    (auto simp: eval_condition_def sbind_eq_Inl redacted_path_error split: option.splits if_splits)

lemma project_redacted: "project fs r acc = Inl x \<Longrightarrow> redacted_exn vs x"
  by (induction fs r acc rule: project.induct) (auto simp: sbind_eq_Inl redacted_path_error)

lemma filter_redacted: "search_ok lib \<Longrightarrow> filter_records lib p rs = Inl x \<Longrightarrow> redacted_exn vs x"
  by (induction lib p rs rule: filter_records.induct) (auto simp: sbind_eq_Inl eval_predicate_redacted)

lemma computed_error_redacted [simp]: "redacted_exn (nc_redactor ctx) (computed_error ctx target src i x)"
  by (auto simp: computed_error_def split: exn.splits)

lemma compute_redacted:
  "compute_records lib ctx target src e i rs = Inl x \<Longrightarrow> redacted_exn (nc_redactor ctx) x"
  by (induction lib ctx target src e i rs rule: compute_records.induct)
    (auto simp: sbind_eq_Inl split: sum.splits)

lemma apply_op_redacted:
  assumes "search_ok lib" and "apply_op lib ctx op rs = Inl x"
  shows "redacted_exn (nc_redactor ctx) x"
  using assms
  by (cases op) (auto simp: filter_redacted compute_redacted dest!: mapM_Inl dest: project_redacted split: sum.splits)

lemma apply_ops_redacted:
  "search_ok lib \<Longrightarrow> apply_ops lib ctx ops rs = Inl x \<Longrightarrow> redacted_exn (nc_redactor ctx) x"
  by (induction lib ctx ops rs rule: apply_ops.induct) (auto simp: sbind_eq_Inl apply_op_redacted)

lemma transform_class: "search_ok lib \<Longrightarrow> node_class (transform_cls pd lib)"
proof unfold_locales
  fix c inputs ctx out lg
  assume "cls_run (transform_cls pd lib) c inputs ctx = (Inr out, lg)"
  then show "set (cls_output_ports (transform_cls pd lib)) \<subseteq> fst ` set out"
    by (auto simp: transform_cls_def transform_run_def
        split: builtin_config.splits sum.splits option.splits list.splits)
next
  fix c inputs ctx x lg
  assume "search_ok lib" and "cls_run (transform_cls pd lib) c inputs ctx = (Inl x, lg)"
  then show "redacted_exn (nc_redactor ctx) x"
    by (auto simp: transform_cls_def transform_run_def wrong_config_def apply_ops_redacted
       
        split: builtin_config.splits sum.splits option.splits list.splits)
next
  fix c inputs ctx x lg
  assume "cls_get_values (transform_cls pd lib) c inputs ctx = (Inl x, lg)"
  then show "redacted_exn (nc_redactor ctx) x" by (auto simp: transform_cls_def no_values_redacted)
qed

lemma next_markup_redacted: "next_markup s = Inl x \<Longrightarrow> redacted_exn vs x"
proof -
  have spec: "scan_spec d acc t = Inl x \<Longrightarrow> \<exists>m. x = ValueError m" for d acc t
    by (induction d acc t rule: scan_spec.induct) (auto split: if_splits)
  have name: "scan_name br acc t = Inl x \<Longrightarrow> \<exists>m. x = ValueError m" for br acc t
    by (induction br acc t rule: scan_name.induct) (auto split: if_splits)
  have fld: "\<exists>m. x = ValueError m" if "parse_field t = Inl x" for t
  proof (cases "scan_name False [] t")
    case (Inl y)
    with that name show ?thesis by (auto simp: parse_field_def)
  next
    case (Inr p)
    obtain n stop r where p: "p = (n, stop, r)" by (cases p)
    show ?thesis
      using that spec unfolding parse_field_def Inr p
      by (cases stop; cases r; cases "tl r") (auto simp: sbind_eq_Inl split: if_splits)
  qed
  assume "next_markup s = Inl x"
  then have "\<exists>m. x = ValueError m"
    using fld by (cases "dropWhile (\<lambda>c. \<not> is_brace c) s") (auto simp: next_markup_def Let_def sbind_eq_Inl split: if_splits)
  then show ?thesis by auto
qed

lemma fill_field_redacted: "fill_field url params ctx fld = Inl x \<Longrightarrow> redacted_exn (nc_redactor ctx) x"
  by (auto simp: fill_field_def split: prod.splits if_splits option.splits)

lemma format_url_redacted:
  assumes "format_url url params ctx = Inl x"
  shows "redacted_exn (nc_redactor ctx) x"
proof -
  have "format_from url params ctx s = Inl x \<Longrightarrow> redacted_exn (nc_redactor ctx) x" for s
  proof (induction url params ctx s rule: format_from.induct)
    case (1 url params ctx s)
    show ?case
    proof (cases "s = []")
      case False
      show ?thesis
      proof (cases "next_markup s")
        case (Inl y)
        with 1 False next_markup_redacted [OF Inl] show ?thesis by (simp add: format_from.simps [of url params ctx s])
      next
        case (Inr p)
        obtain lit fld rest where p: "p = (lit, fld, rest)" by (cases p)
        define v where "v = (case fld of None \<Rightarrow> Inr [] | Some f \<Rightarrow> fill_field url params ctx f)"
        have "v = Inl y \<Longrightarrow> redacted_exn (nc_redactor ctx) y" for y
          by (auto simp: v_def fill_field_redacted split: option.splits)
        with 1 False Inr p show ?thesis
          by (auto simp: format_from.simps [of url params ctx s] v_def [symmetric] sbind_eq_Inl)
      qed
    qed (use 1 in \<open>simp add: format_from.simps\<close>)
  qed
  with assms show ?thesis by (simp add: format_url_def)
qed

text \<open>The resolver raises errors of the operating system, never an error of this program.\<close>

definition resolver_ok :: "resolver \<Rightarrow> bool" where
  "resolver_ok dns \<longleftrightarrow> (\<forall>h p e. dns h p \<noteq> Inl (NodeExecutionError e))"

lemma guard_url_redacted:
  assumes "resolver_ok (aw_dns w)" and "guard_url w url summary ctx = Inl x"
  shows "redacted_exn (nc_redactor ctx) x"
proof -
  have res: "resolve_host (aw_dns w) h p \<noteq> Inl (NodeExecutionError e)" for h p e
    using assms(1) by (cases "aw_dns w (bare_host h) p") (auto simp: resolve_host_def resolver_ok_def split: option.splits)
  have "urlsplit url \<noteq> Inl (NodeExecutionError e)" for e
    by (auto simp: urlsplit_def Let_def split: prod.splits if_splits)
  moreover have "url_port parts \<noteq> Inl (NodeExecutionError e)" for parts e
    by (auto simp: url_port_def Let_def split: if_splits)
  ultimately have "ensure_url_allowed (aw_dns w) url policy \<noteq> Inl (NodeExecutionError e)" for policy e
    using res by (auto simp: ensure_url_allowed_def sbind_eq_Inl split: option.splits)
  with assms(2) show ?thesis
    by (auto simp: guard_url_def split: sum.splits exn.splits if_splits)
qed

lemma auth_parts_redacted: "auth_parts cfg ctx = Inl x \<Longrightarrow> redacted_exn (nc_redactor ctx) x"
  by (auto simp: auth_parts_def sbind_eq_Inl get_secret_def split: option.splits)

lemma request_json_redacted:
  "request_json w cfg url headers params ctx sent = (Inl x, r) \<Longrightarrow> redacted_exn (nc_redactor ctx) x"
  by (auto simp: request_json_def Let_def response_data_def split: prod.splits sum.splits if_splits)

lemma to_records_redacted: "to_records d path ctx summary = Inl x \<Longrightarrow> redacted_exn (nc_redactor ctx) x"
  by (auto simp: to_records_def sbind_eq_Inl redacted_path_error split: option.splits if_splits)

lemma next_params_redacted: "next_params pg d items params = Inl x \<Longrightarrow> redacted_exn vs x"
proof -
  have "redacted_exn vs x" if "py_to_int v = Inl x" for v
    using that
    by (cases v rule: py_to_int.cases)
      (auto simp: sbind_eq_Inl py_int_def split: option.splits if_splits ext.splits)
  then have "int_param params k = Inl x \<Longrightarrow> redacted_exn vs x" for k
    by (auto simp: int_param_def sbind_eq_Inl split: option.splits json.splits) (metis json.exhaust)
  then show "next_params pg d items params = Inl x \<Longrightarrow> ?thesis"
    by (auto simp: next_params_def sbind_eq_Inl redacted_path_error Let_def split: page_type.splits if_splits)
qed

lemma fetch_pages_redacted:
  "fetch_pages w cfg url headers ctx n params sent acc = (Inl x, r) \<Longrightarrow> redacted_exn (nc_redactor ctx) x"
proof (induction w cfg url headers ctx n params sent acc arbitrary: r rule: fetch_pages.induct)
  case (1 w cfg url headers ctx n params sent acc)
  obtain res sent' lg where q: "request_json w cfg url headers params ctx sent = (res, sent', lg)" by (metis prod_cases3)
  note unfold = fetch_pages.simps [of w cfg url headers ctx n params sent acc] q
  show ?case
  proof (cases res)
    case (Inl y)
    with 1 request_json_redacted [of w cfg url headers params ctx sent y] show ?thesis by (auto simp: unfold)
  next
    case (Inr p)
    obtain d summary where p: "p = (d, summary)" by (cases p)
    show ?thesis
    proof (cases "to_records d (page_items_path cfg) ctx summary")
      case (Inl y)
      with 1 \<open>res = Inr p\<close> p to_records_redacted [OF Inl] show ?thesis by (auto simp: unfold)
    next
      case items: (Inr items)
      show ?thesis
      proof (cases "ac_pagination cfg")
        case None
        with 1 \<open>res = Inr p\<close> p items show ?thesis by (auto simp: unfold)
      next
        case (Some pg)
        show ?thesis
        proof (cases "next_params pg d items params")
          case (Inl y)
          with 1 \<open>res = Inr p\<close> p items Some next_params_redacted [OF Inl] show ?thesis by (auto simp: unfold)
        next
          case nxt: (Inr params')
          show ?thesis
            using "1.prems" "1.IH" [OF q [symmetric] \<open>res = Inr p\<close> p [symmetric] refl items Some nxt] \<open>res = Inr p\<close> p items Some nxt
            by (auto simp: unfold split: option.splits if_splits prod.splits)
        qed
      qed
    qed
  qed
qed

lemma api_class: "resolver_ok (aw_dns w) \<Longrightarrow> node_class (api_cls pd w)"
proof unfold_locales
  fix c inputs ctx out lg
  assume "cls_run (api_cls pd w) c inputs ctx = (Inr out, lg)"
  then show "set (cls_output_ports (api_cls pd w)) \<subseteq> fst ` set out"
    by (auto simp: api_cls_def api_run_def Let_def split: builtin_config.splits sum.splits prod.splits)
next
  fix c inputs ctx x lg
  assume ok: "resolver_ok (aw_dns w)" and run: "cls_run (api_cls pd w) c inputs ctx = (Inl x, lg)"
  have fetch: "fetch_all w cfg url headers params ctx sent = (Inl x, r) \<Longrightarrow> redacted_exn (nc_redactor ctx) x"
    for cfg url headers params sent r
    by (auto simp: fetch_all_def dest!: fetch_pages_redacted split: sum.splits prod.splits)
  from run show "redacted_exn (nc_redactor ctx) x"
    by (auto simp: api_cls_def api_run_def Let_def wrong_config_def
        format_url_redacted guard_url_redacted [OF ok] auth_parts_redacted fetch
        split: builtin_config.splits sum.splits prod.splits)
next
  fix c inputs ctx x lg
  assume "cls_get_values (api_cls pd w) c inputs ctx = (Inl x, lg)"
  then show "redacted_exn (nc_redactor ctx) x" by (auto simp: api_cls_def no_values_redacted)
qed

lemma node_registry_contract:
  "search_ok lib \<Longrightarrow> resolver_ok (aw_dns w) \<Longrightarrow> contract_registry (node_registry pd lib w)"
  by (auto simp: contract_registry_def node_registry_get transform_class api_class
      intro: iterator.node_class_axioms merge.node_class_axioms)


section \<open>Example runs\<close>

text \<open>
  Three iterations of a transformation; pydantic is replaced by functions that deliver fixed configurations,
  the one of the transformation depending on whether the document gives one.
\<close>

definition demo_node :: "string \<Rightarrow> string \<Rightarrow> json dict \<Rightarrow> node_spec" where
  "demo_node n t cfg = \<lparr>ns_id = n, ns_type = t, ns_config = cfg\<rparr>"

definition demo_doc :: "json dict \<Rightarrow> pipeline_spec" where
  "demo_doc cfg =
     \<lparr>ps_id = ''p'', ps_nodes = [demo_node ''it'' ''iterator'' [], demo_node ''t'' ''transform'' cfg],
      ps_edges = [\<lparr>es_from = ''it'', es_from_port = ''out'', es_to = ''t'', es_to_port = ''in''\<rparr>]\<rparr>"

definition demo_pd :: pydantic where
  "demo_pd =
     \<lparr>pd_api = (\<lambda>d. Inr demo_api), pd_iterator = (\<lambda>d. Inr demo_range),
      pd_merge = (\<lambda>d. Inr \<lparr>mc_strategy = SConcat, mc_keys = None, mc_how = HInner, mc_suffix = ''_right''\<rparr>),
      pd_transform = (\<lambda>d. Inr (if d = [] then [SelectOp [''value'']] else [ComputedOp ''y'' ''s3cret +'']))\<rparr>"

definition demo_run :: "json dict \<Rightarrow> (exn + run_result) option" where
  "demo_run cfg =
     execute_pipeline (node_registry demo_pd demo_lib demo_world) (\<lambda>i. [Advance 0, Advance 1]) (demo_doc cfg)
       [(''TOKEN'', ''s3cret'')] default_options"

definition failing_config :: "json dict" where
  "failing_config = [(''ops'', JNull)]"

lemma demo_runnable: "runnable (node_registry demo_pd demo_lib demo_world) (demo_doc [])"
  by (rule validate_Nil_runnable) code_simp

lemma demo_failing_runnable: "runnable (node_registry demo_pd demo_lib demo_world) (demo_doc failing_config)"
  by (rule validate_Nil_runnable) code_simp

lemma demo_refs_ok: "refs_ok (demo_doc [])"
proof -
  have "list_all (\<lambda>n. find_references (JDict (ns_config n)) = []) (ps_nodes (demo_doc []))" by code_simp
  then show ?thesis by (auto simp: refs_ok_def list_all_iff)
qed

lemma demo_range_values: "iterator_get_values demo_range inputs ctx = Inr [JInt 10, JInt 6, JInt 2]"
proof -
  have "map JInt (py_range 10 1 (- 4)) = [JInt 10, JInt 6, JInt 2]" by code_simp
  then show ?thesis by (simp add: iterator_get_values_def demo_range_def)
qed

lemma demo_iterator_config: "cls_config_model (iterator_cls demo_pd) d = Inr c \<longleftrightarrow> c = CIterator demo_range"
proof -
  have "iterator_validators demo_range = Inr demo_range" by code_simp
  then show ?thesis by (auto simp: iterator_cls_def demo_pd_def)
qed

lemma demo_values_ok: "values_ok (node_registry demo_pd demo_lib demo_world) spec"
proof -
  have "cls = iterator_cls demo_pd" if "dict_get (node_registry demo_pd demo_lib demo_world) t = Some cls" "cls_fan_out cls" for t cls
    using that by (auto simp: node_registry_get api_cls_def merge_cls_def transform_cls_def)
  moreover have "fst (cls_get_values (iterator_cls demo_pd) (CIterator demo_range) inputs ctx) \<noteq> Inl e" for inputs ctx e
    by (simp add: iterator_cls_def demo_range_values)
  ultimately show ?thesis unfolding values_ok_def by (metis demo_iterator_config fst_conv)
qed

theorem execute_pipeline_returns_witness:
  "\<exists>rr. execute_pipeline (node_registry demo_pd demo_lib demo_world) (\<lambda>i. []) (demo_doc []) [] default_options = Some (Inr rr)"
  by (rule execute_pipeline_returns [OF demo_refs_ok demo_values_ok]) (simp add: default_options_def)

lemma demo_failing_run:
  obtains rr e where "demo_run failing_config = Some (Inr rr)" "rr_status rr = RunFailed" "rr_errors rr = [e]"
    "ne_message e = ''invalid expression '' @ repr_str ''*** +'' @ '': invalid syntax''"
proof -
  have "case demo_run failing_config of
      Some (Inr rr) \<Rightarrow> rr_status rr = RunFailed \<and>
        map ne_message (rr_errors rr) = [''invalid expression '' @ repr_str ''*** +'' @ '': invalid syntax'']
    | _ \<Rightarrow> False" by code_simp
  then show thesis using that by (auto split: option.splits sum.splits)
qed

theorem execute_pipeline_results_witness:
  "\<exists>rr. demo_run failing_config = Some (Inr rr) \<and> rr_status rr = RunFailed \<and>
     set (dict_keys (rr_node_results rr)) = {''it'', ''t''} \<and>
     list_ex (\<lambda>r. nr_status (snd r) = FAILED) (rr_node_results rr)"
proof -
  obtain rr where rr: "demo_run failing_config = Some (Inr rr)" "rr_status rr = RunFailed"
    by (rule demo_failing_run)
  moreover have "set (map ns_id (ps_nodes (demo_doc failing_config))) = {''it'', ''t''}"
    by (simp add: demo_doc_def demo_node_def)
  ultimately show ?thesis
    using execute_pipeline_results [OF demo_failing_runnable, of "\<lambda>i. [Advance 0, Advance 1]"] by (auto simp: demo_run_def)
qed

theorem execute_pipeline_invalid_witness:
  "\<exists>rr. execute_pipeline ([] :: builtin_config registry) (\<lambda>i. []) (demo_doc []) [] default_options = Some (Inr rr) \<and>
     rr_status rr = RunFailed \<and> rr_node_results rr = [] \<and> length (rr_errors rr) = 2"
proof -
  have "\<not> runnable ([] :: builtin_config registry) (demo_doc [])"
    unfolding runnable_def by (auto simp: config_ok_def demo_doc_def)
  from execute_pipeline_invalid [OF this, of "\<lambda>i. []" "[]" default_options] obtain rr where
    rr: "execute_pipeline ([] :: builtin_config registry) (\<lambda>i. []) (demo_doc []) [] default_options = Some (Inr rr)"
    "rr_status rr = RunFailed" "rr_node_results rr = []"
    "map ne_message (rr_errors rr) = map vi_message (validate_pipeline ([] :: builtin_config registry) (demo_doc []))"
    by blast
  moreover have "length (validate_pipeline ([] :: builtin_config registry) (demo_doc [])) = 2" by code_simp
  ultimately show ?thesis by (metis length_map)
qed

theorem execute_pipeline_deterministic_witness:
  "map_option (map_sum id (\<lambda>rr. rr\<lparr>rr_logs := []\<rparr>))
     (execute_pipeline (node_registry demo_pd demo_lib demo_world) (\<lambda>i. []) (demo_doc failing_config) []
       (default_options\<lparr>eo_continue_on_error := True\<rparr>)) =
   map_option (map_sum id (\<lambda>rr. rr\<lparr>rr_logs := []\<rparr>))
     (execute_pipeline (node_registry demo_pd demo_lib demo_world) (\<lambda>i. [Advance 2, Advance 0, Advance 2]) (demo_doc failing_config) []
       (default_options\<lparr>eo_continue_on_error := True\<rparr>))"
  by (rule execute_pipeline_deterministic) (simp_all add: default_options_def)

lemma wired_one: "wired spec n inputs \<Longrightarrow> edges_into spec n p = [e] \<Longrightarrow> \<exists>rs. dict_get inputs p = Some [rs]"
  unfolding wired_def by (cases "dict_get inputs p") (auto dest!: spec [of _ p] simp: length_Suc_conv)

lemma demo_total_nodes: "total_nodes (node_registry demo_pd demo_lib demo_world) (demo_doc [])"
proof -
  have static: "static_config (JDict [])" by (simp add: static_config_def has_references_def)
  have it: "total_call (iterator_cls demo_pd) c inputs" if "cls_config_model (iterator_cls demo_pd) [] = Inr c" for c inputs
    using that [unfolded demo_iterator_config]
    by (simp add: total_call_def iterator_cls_def iterator_run_def demo_range_values)
  have no_bad: "\<not> bad_index ''value''" "split_path ''value'' = [''value'']" by code_simp+
  have proj: "\<exists>out. project [''value''] r [] = Inr out" for r
    using get_path_opt_Inl [of "JDict r" "[''value'']"] no_bad
    by (cases "get_path_opt (JDict r) [''value'']") (auto simp: no_bad(2))
  have all: "\<exists>out. mapM (\<lambda>r. project [''value''] r []) rs = Inr out" for rs
    using mapM_Inl [of "\<lambda>r. project [''value''] r []" rs] proj by (metis Inl_Inr_False sumE)
  have run: "\<exists>out lg. transform_run demo_lib [SelectOp [''value'']] inputs ctx = (Inr [(''out'', out)], lg)"
    if "dict_get inputs ''in'' = Some [rs]" for inputs ctx rs
  proof -
    obtain out where "mapM (\<lambda>r. project [''value''] r []) rs = Inr out" using all by blast
    with that show ?thesis by (simp add: transform_run_def del: project.simps)
  qed
  have t: "total_call (transform_cls demo_pd demo_lib) c inputs"
    if "cls_config_model (transform_cls demo_pd demo_lib) [] = Inr c" "wired (demo_doc []) ''t'' inputs" for c inputs
  proof -
    have "edges_into (demo_doc []) ''t'' ''in'' = [\<lparr>es_from = ''it'', es_from_port = ''out'', es_to = ''t'', es_to_port = ''in''\<rparr>]"
      by code_simp
    from wired_one [OF that(2) this] obtain rs where "dict_get inputs ''in'' = Some [rs]" by blast
    with that(1) run [OF this] show ?thesis
      by (fastforce simp: total_call_def transform_cls_def demo_pd_def)
  qed
  show ?thesis
    using static it t by (auto simp: total_nodes_def demo_doc_def demo_node_def node_registry_get)
qed

lemma demo_self_contained: "self_contained (node_registry demo_pd demo_lib demo_world) (demo_doc [])"
proof -
  have "set (iterator_ids (node_registry demo_pd demo_lib demo_world) (demo_doc [])) = {''it''}"
    by (simp add: iterator_ids_def demo_doc_def demo_node_def node_registry_eq fan_out_type_def iterator_cls_def transform_cls_def)
  then show ?thesis by (simp add: self_contained_def demo_doc_def)
qed



end
