(* ===== verification/Json_Text.thy ===== *)
theory Json_Text
  imports Py_Value
begin

text \<open>
  JSON as text: \<open>json.loads\<close> and \<open>json.dumps\<close> of the standard library, with and without an indent, as the file
  nodes and the \<open>decrypt\<close> node use them. The reader accepts what CPython's scanner accepts, \<open>NaN\<close> and the
  infinities included; \<^const>\<open>None\<close> is its \<open>ValueError\<close>. Text has code points below 256, so what an
  escape above stands for is the parameter \<open>wide\<close>. The recursion limit is left out.
\<close>

section \<open>Reading\<close>

definition is_json_ws :: "char \<Rightarrow> bool" where
  "is_json_ws c \<longleftrightarrow> c \<in> {CHR '' '', char_of (9 :: nat), char_of (10 :: nat), char_of (13 :: nat)}"

definition skip_ws :: "string \<Rightarrow> string" where
  "skip_ws s = dropWhile is_json_ws s"

definition hex_digit :: "char \<Rightarrow> nat option" where
  "hex_digit c = (let n = of_char c :: nat in
     if 48 \<le> n \<and> n \<le> 57 then Some (n - 48) else if 97 \<le> n \<and> n \<le> 102 then Some (n - 87)
     else if 65 \<le> n \<and> n \<le> 70 then Some (n - 55) else None)"

definition hex4 :: "string \<Rightarrow> nat option" where
  "hex4 s =
     (case map hex_digit (take 4 s) of
        [Some a, Some b, Some c, Some d] \<Rightarrow> Some (((a * 16 + b) * 16 + c) * 16 + d)
      | _ \<Rightarrow> None)"

definition backslash :: char where "backslash = char_of (92 :: nat)"

definition simple_escape :: "char \<Rightarrow> char option" where
  "simple_escape c =
     (if c = dq_char \<or> c = backslash \<or> c = CHR ''/'' then Some c
      else if c = CHR ''b'' then Some (char_of (8 :: nat)) else if c = CHR ''f'' then Some (char_of (12 :: nat))
      else if c = CHR ''n'' then Some (char_of (10 :: nat)) else if c = CHR ''r'' then Some (char_of (13 :: nat))
      else if c = CHR ''t'' then Some (char_of (9 :: nat)) else None)"

definition code_text :: "(nat \<Rightarrow> string) \<Rightarrow> nat \<Rightarrow> string" where
  "code_text wide n = (if n < 256 then [char_of n] else wide n)"

text \<open>A \<open>\uXXXX\<close> escape: its characters and the text after it; a high surrogate takes a low one along.\<close>

definition unicode_escape :: "(nat \<Rightarrow> string) \<Rightarrow> string \<Rightarrow> (string \<times> string) option" where
  "unicode_escape wide s =
     (case hex4 s of
        None \<Rightarrow> None
      | Some n \<Rightarrow>
          (let rest = drop 4 s
           in if 55296 \<le> n \<and> n \<le> 56319 \<and> take 2 rest = [backslash, CHR ''u''] then
                (case hex4 (drop 2 rest) of
                   Some m \<Rightarrow>
                     if 56320 \<le> m \<and> m \<le> 57343
                     then Some (wide (65536 + (n - 55296) * 1024 + (m - 56320)), drop 6 rest)
                     else Some (code_text wide n, rest)
                 | None \<Rightarrow> Some (code_text wide n, rest))
              else Some (code_text wide n, rest)))"

lemma unicode_escape_length: "unicode_escape wide s = Some (t, r) \<Longrightarrow> length r \<le> length s"
  by (auto simp: unicode_escape_def Let_def split: option.splits if_splits)

function scan_string :: "(nat \<Rightarrow> string) \<Rightarrow> string \<Rightarrow> (string \<times> string) option" where
  "scan_string wide [] = None"
| "scan_string wide (c # cs) =
     (if c = dq_char then Some ([], cs)
      else if c = backslash then
        (case cs of
           [] \<Rightarrow> None
         | e # ds \<Rightarrow>
             if e = CHR ''u'' then
               (case unicode_escape wide ds of
                  None \<Rightarrow> None
                | Some (t, r) \<Rightarrow> map_option (\<lambda>(u, r'). (t @ u, r')) (scan_string wide r))
             else
               (case simple_escape e of
                  None \<Rightarrow> None
                | Some x \<Rightarrow> map_option (\<lambda>(u, r'). (x # u, r')) (scan_string wide ds)))
      else if (of_char c :: nat) < 32 then None
      else map_option (\<lambda>(u, r'). (c # u, r')) (scan_string wide cs))"
  by pat_completeness auto
termination
  by (relation "measure (\<lambda>(wide, s). length s)") (auto dest: unicode_escape_length)

text \<open>Numbers: an integer unless a fraction or an exponent follows; \<open>int\<close> refuses more than 4300 digits.\<close>

definition digits_prefix :: "string \<Rightarrow> string \<times> string" where
  "digits_prefix s = (takeWhile is_ascii_digit s, dropWhile is_ascii_digit s)"

definition scan_fraction :: "string \<Rightarrow> string \<times> string" where
  "scan_fraction s =
     (case s of
        c # cs \<Rightarrow> if c = CHR ''.'' \<and> fst (digits_prefix cs) \<noteq> [] then digits_prefix cs else ([], s)
      | [] \<Rightarrow> ([], s))"

definition scan_exponent :: "string \<Rightarrow> int option \<times> string" where
  "scan_exponent s =
     (case s of
        c # cs \<Rightarrow>
          if c = CHR ''e'' \<or> c = CHR ''E'' then
            (let (neg, ds) = (case cs of d # ds \<Rightarrow>
                   if d = CHR ''-'' then (True, ds) else if d = CHR ''+'' then (False, ds) else (False, cs)
                 | [] \<Rightarrow> (False, cs));
                 (digits, rest) = digits_prefix ds
             in if digits = [] then (None, s)
                else (Some (if neg then - int (digits_val digits) else int (digits_val digits)), rest))
          else (None, s)
      | [] \<Rightarrow> (None, s))"

definition signed_float :: "bool \<Rightarrow> rat \<Rightarrow> pyfloat" where
  "signed_float neg q = (if q = 0 then FNum neg 0 0 else to_float (if neg then - q else q))"

definition scan_number :: "bool \<Rightarrow> string \<Rightarrow> (json \<times> string) option" where
  "scan_number neg s =
     (let (whole, r) =
          (case s of c # cs \<Rightarrow> if c = CHR ''0'' then ([c], cs) else digits_prefix s | [] \<Rightarrow> ([], []))
      in if whole = [] then None
         else
           (let (frac, r1) = scan_fraction r; (e, r2) = scan_exponent r1
            in if frac = [] \<and> e = None then
                 (if 4300 < length whole then None
                  else Some (JInt ((if neg then - 1 else 1) * int (digits_val whole)), r))
               else Some (JFloat (signed_float neg
                      (of_nat (digits_val (whole @ frac)) * pow10 ((case e of Some x \<Rightarrow> x | None \<Rightarrow> 0) - int (length frac)))), r2)))"

definition scan_word :: "string \<Rightarrow> json \<Rightarrow> string \<Rightarrow> (json \<times> string) option" where
  "scan_word w v s = (if starts_with w s then Some (v, drop (length w) s) else None)"

definition scan_atom :: "string \<Rightarrow> (json \<times> string) option" where
  "scan_atom s =
     (case s of
        [] \<Rightarrow> None
      | c # cs \<Rightarrow>
          if c = CHR ''n'' then scan_word ''null'' JNull s
          else if c = CHR ''t'' then scan_word ''true'' (JBool True) s
          else if c = CHR ''f'' then scan_word ''false'' (JBool False) s
          else if c = CHR ''N'' then scan_word ''NaN'' (JFloat FNan) s
          else if c = CHR ''I'' then scan_word ''Infinity'' (JFloat (FInf False)) s
          else if c = CHR ''-'' then
            (if starts_with ''Infinity'' cs then Some (JFloat (FInf True), drop 8 cs) else scan_number True cs)
          else scan_number False s)"

lemma skip_ws_length: "length (skip_ws s) \<le> length s"
  by (simp add: skip_ws_def length_dropWhile_le)

lemma skip_ws_Cons: "skip_ws s = c # r \<Longrightarrow> length r < length s"
  using skip_ws_length [of s] by simp

text \<open>
  Values, the items of an array after its bracket or a comma, the members of an object likewise. The
  comparisons of lengths always hold; they are there for termination.
\<close>

function (sequential) scan_value :: "(nat \<Rightarrow> string) \<Rightarrow> string \<Rightarrow> (json \<times> string) option"
  and scan_items :: "(nat \<Rightarrow> string) \<Rightarrow> string \<Rightarrow> (json list \<times> string) option"
  and scan_members :: "(nat \<Rightarrow> string) \<Rightarrow> string \<Rightarrow> ((string \<times> json) list \<times> string) option" where
  "scan_value wide [] = None"
| "scan_value wide (c # cs) =
     (if c = dq_char then map_option (\<lambda>(t, r). (JStr t, r)) (scan_string wide cs)
      else if c = CHR ''['' then
        (case skip_ws cs of
           d # r \<Rightarrow> if d = CHR '']'' then Some (JList [], r)
                   else map_option (\<lambda>(xs, r'). (JList xs, r')) (scan_items wide cs)
         | [] \<Rightarrow> None)
      else if c = CHR ''{'' then
        (case skip_ws cs of
           d # r \<Rightarrow> if d = CHR ''}'' then Some (JDict [], r)
                   else map_option (\<lambda>(ps, r'). (JDict (dict_of ps), r')) (scan_members wide cs)
         | [] \<Rightarrow> None)
      else scan_atom (c # cs))"
| "scan_items wide s =
     (case scan_value wide (skip_ws s) of
        None \<Rightarrow> None
      | Some (v, r) \<Rightarrow>
          if length r \<le> length s then
            (case skip_ws r of
               [] \<Rightarrow> None
             | d # r' \<Rightarrow>
                 if d = CHR '']'' then Some ([v], r')
                 else if d = CHR '','' then map_option (\<lambda>(vs, r''). (v # vs, r'')) (scan_items wide r')
                 else None)
          else None)"
| "scan_members wide s =
     (case skip_ws s of
        [] \<Rightarrow> None
      | q # s1 \<Rightarrow>
          if q \<noteq> dq_char then None
          else case scan_string wide s1 of
            None \<Rightarrow> None
          | Some (k, s2) \<Rightarrow>
              (case skip_ws s2 of
                 [] \<Rightarrow> None
               | c # s3 \<Rightarrow>
                   if c \<noteq> CHR '':'' \<or> length s \<le> length s3 then None
                   else case scan_value wide (skip_ws s3) of
                     None \<Rightarrow> None
                   | Some (v, r) \<Rightarrow>
                       if length r \<le> length s then
                         (case skip_ws r of
                            [] \<Rightarrow> None
                          | d # r' \<Rightarrow>
                              if d = CHR ''}'' then Some ([(k, v)], r')
                              else if d = CHR '','' then map_option (\<lambda>(ps, r''). ((k, v) # ps, r'')) (scan_members wide r')
                              else None)
                       else None))"
  by pat_completeness auto

termination
  by (relation "measure (\<lambda>x. case x of
        Inl (wide, s) \<Rightarrow> 2 * length s
      | Inr (Inl (wide, s)) \<Rightarrow> 2 * length s + 1
      | Inr (Inr (wide, s)) \<Rightarrow> 2 * length s + 1)")
    (auto simp: less_Suc_eq_le skip_ws_length dest!: skip_ws_Cons intro: order.trans [OF skip_ws_length])

definition json_loads :: "(nat \<Rightarrow> string) \<Rightarrow> string \<Rightarrow> json option" where
  "json_loads wide s =
     (case scan_value wide (skip_ws s) of
        Some (v, r) \<Rightarrow> if skip_ws r = [] then Some v else None
      | None \<Rightarrow> None)"

section \<open>Writing\<close>

text \<open>The white space \<open>json.dumps\<close> puts after an opening bracket, after a comma and before a closing bracket.\<close>

record layout =
  lay_open :: "nat \<Rightarrow> string"
  lay_comma :: "nat \<Rightarrow> string"
  lay_close :: "nat \<Rightarrow> string"

definition new_line :: "nat \<Rightarrow> nat \<Rightarrow> string" where
  "new_line k depth = char_of (10 :: nat) # replicate (k * depth) CHR '' ''"

definition layout_of :: "nat option \<Rightarrow> layout" where
  "layout_of indent =
     (case indent of
        None \<Rightarrow> \<lparr>lay_open = (\<lambda>_. []), lay_comma = (\<lambda>_. '' ''), lay_close = (\<lambda>_. [])\<rparr>
      | Some k \<Rightarrow> \<lparr>lay_open = (\<lambda>d. new_line k (Suc d)), lay_comma = (\<lambda>d. new_line k (Suc d)), lay_close = new_line k\<rparr>)"

fun print_json :: "layout \<Rightarrow> nat \<Rightarrow> json \<Rightarrow> string" where
  "print_json lay d JNull = ''null''"
| "print_json lay d (JBool b) = (if b then ''true'' else ''false'')"
| "print_json lay d (JInt i) = int_str i"
| "print_json lay d (JFloat f) = dumps_float f"
| "print_json lay d (JStr s) = dumps_str s"
| "print_json lay d (JList xs) =
     (if xs = [] then ''[]''
      else ''['' @ lay_open lay d @ join_with ('','' @ lay_comma lay d) (map (print_json lay (Suc d)) xs)
        @ lay_close lay d @ '']'')"
| "print_json lay d (JDict ps) =
     (if ps = [] then ''{}''
      else ''{'' @ lay_open lay d
        @ join_with ('','' @ lay_comma lay d) (map (\<lambda>p. dumps_str (fst p) @ '': '' @ print_json lay (Suc d) (snd p)) ps)
        @ lay_close lay d @ ''}'')"

definition dumps :: "nat option \<Rightarrow> json \<Rightarrow> string" where
  "dumps indent v = print_json (layout_of indent) 0 v"

text \<open>Without an indent this is the printer the join keys use.\<close>

lemma print_json_compact: "print_json (layout_of None) d v = json_dumps False v"
proof (induction v arbitrary: d)
  case (JList xs)
  then have "map (print_json (layout_of None) (Suc d)) xs = map (json_dumps False) xs" by simp
  then show ?case by (simp add: layout_of_def cong: map_cong)
next
  case (JDict ps)
  then have "map (\<lambda>p. dumps_str (fst p) @ '': '' @ print_json (layout_of None) (Suc d) (snd p)) ps =
      map (\<lambda>p. dumps_str (fst p) @ '': '' @ json_dumps False (snd p)) ps" by auto
  then show ?case by (simp add: layout_of_def comp_def cong: map_cong)
qed simp_all

section \<open>Reading what was written\<close>

definition all_ws :: "string \<Rightarrow> bool" where
  "all_ws s \<longleftrightarrow> list_all is_json_ws s"

definition layout_ok :: "layout \<Rightarrow> bool" where
  "layout_ok lay \<longleftrightarrow> (\<forall>d. all_ws (lay_open lay d) \<and> all_ws (lay_comma lay d) \<and> all_ws (lay_close lay d))"

lemma layout_of_ok: "layout_ok (layout_of indent)"
  by (auto simp: layout_ok_def layout_of_def all_ws_def new_line_def is_json_ws_def list_all_iff split: option.split)

lemma skip_ws_append: "all_ws w \<Longrightarrow> skip_ws (w @ s) = skip_ws s"
  by (induction w) (auto simp: all_ws_def skip_ws_def)

lemma skip_ws_no: "\<not> is_json_ws c \<Longrightarrow> skip_ws (c # s) = c # s"
  by (simp add: skip_ws_def)

lemma code_eq_iff: "(of_char c :: nat) = n \<longleftrightarrow> n < 256 \<and> c = char_of n"
  using char_of_char [of c, where ?'a = nat] of_char_mod_256 [of c, where ?'a = nat] by auto

lemma eq_char_of_iff: "c = char_of n \<longleftrightarrow> take_bit 8 n = (of_char c :: nat)"
  using char_of_eq_iff [of n c] by (simp only: eq_commute [of c])

lemmas char_codes = char_of_eq_iff eq_char_of_iff

lemma is_dq: "c = dq_char \<longleftrightarrow> (of_char c :: nat) = 34" "dq_char = c \<longleftrightarrow> (of_char c :: nat) = 34"
  by (auto simp: dq_char_def code_eq_iff)

lemma is_backslash: "c = backslash \<longleftrightarrow> (of_char c :: nat) = 92" "backslash = c \<longleftrightarrow> (of_char c :: nat) = 92"
  by (auto simp: backslash_def code_eq_iff)

text \<open>Strings.\<close>

lemma hex_digit_char: "k < 16 \<Longrightarrow> hex_digit (hex_char k) = Some k"
  by (auto simp: hex_digit_def hex_char_def Let_def)

lemma unicode_escape_byte:
  assumes "n < 256"
  shows "unicode_escape wide (CHR ''0'' # CHR ''0'' # hex_char (n div 16) # hex_char (n mod 16) # s) = Some ([char_of n], s)"
proof -
  have "n div 16 < 16" using assms by simp
  moreover have "hex_digit CHR ''0'' = Some 0" by (simp add: hex_digit_def)
  ultimately have "hex4 (CHR ''0'' # CHR ''0'' # hex_char (n div 16) # hex_char (n mod 16) # s) = Some n"
    by (simp add: hex4_def hex_digit_char)
  with assms show ?thesis by (simp add: unicode_escape_def code_text_def)
qed

lemma scan_dumps_char:
  "scan_string wide (dumps_char c @ s) = map_option (\<lambda>(u, r). (c # u, r)) (scan_string wide s)"
proof -
  let ?n = "of_char c :: nat"
  have c: "c = char_of ?n" and lt: "?n < 256" by simp_all
  have codes: "(of_char dq_char :: nat) = 34" "(of_char backslash :: nat) = 92"
    by (simp_all add: dq_char_def backslash_def)
  consider (quote) "?n = 34 \<or> ?n = 92" | (ctl) "?n \<in> {8, 9, 10, 12, 13}"
    | (code) "?n \<notin> {34, 92, 8, 9, 10, 12, 13}" "?n < 32 \<or> 127 \<le> ?n" | (plain) "32 \<le> ?n" "?n < 127" "?n \<noteq> 34" "?n \<noteq> 92"
    by force
  then show ?thesis
  proof cases
    case quote
    then have "simple_escape c = Some c" "c \<noteq> CHR ''u''" "dumps_char c = [backslash, c]"
      by (auto simp: simple_escape_def is_dq is_backslash dumps_char_def backslash_def [symmetric])
    then show ?thesis by (simp add: is_dq codes)
  next
    case ctl
    define e where "e = (if ?n = 8 then CHR ''b'' else if ?n = 9 then CHR ''t'' else if ?n = 10 then CHR ''n''
      else if ?n = 12 then CHR ''f'' else CHR ''r'')"
    have "simple_escape e = Some c" "e \<noteq> CHR ''u''" "dumps_char c = [backslash, e]"
      using ctl by (auto simp: e_def simple_escape_def dumps_char_def backslash_def [symmetric] is_dq is_backslash char_codes)
    then show ?thesis by (simp add: is_dq codes)
  next
    case code
    then have "dumps_char c = [backslash, CHR ''u'', CHR ''0'', CHR ''0'', hex_char (?n div 16), hex_char (?n mod 16)]"
      by (auto simp: dumps_char_def backslash_def Let_def)
    with unicode_escape_byte [OF lt, of wide s] show ?thesis by (simp add: is_dq codes)
  next
    case plain
    then have "dumps_char c = [c]" by (auto simp: dumps_char_def)
    with plain show ?thesis by (simp add: is_dq is_backslash)
  qed
qed

lemma scan_dumps_str: "scan_string wide (concat (map dumps_char t) @ dq_char # r) = Some (t, r)"
proof (induction t)
  case (Cons c t)
  then show ?case by (simp add: scan_dumps_char)
qed simp

text \<open>Integers.\<close>

lemma digit_char_props: "is_ascii_digit (digit_char n)" "digit_val (digit_char n) = n mod 10"
  by (simp_all add: is_ascii_digit_def digit_val_def digit_char_def)

lemma digits_val_snoc: "digits_val (s @ [c]) = 10 * digits_val s + digit_val c"
  by (simp add: digits_val_def)

lemma nat_str_props:
  "nat_str n \<noteq> [] \<and> list_all is_ascii_digit (nat_str n) \<and> digits_val (nat_str n) = n \<and>
   (0 < n \<longrightarrow> hd (nat_str n) \<noteq> CHR ''0'')"
proof (induction n rule: nat_str.induct)
  case (1 n)
  show ?case
  proof (cases "n < 10")
    case True
    have "digit_char n \<noteq> CHR ''0''" if "0 < n"
    proof
      assume "digit_char n = CHR ''0''"
      then have "digit_val (digit_char n) = digit_val CHR ''0''" by simp
      with that True show False by (simp add: digit_char_props) (simp add: digit_val_def)
    qed
    with True show ?thesis
      by (simp add: nat_str.simps [of n] digit_char_props) (simp add: digits_val_def digit_char_props)
  next
    case False
    with 1 have "digits_val (nat_str n) = n"
      by (simp add: nat_str.simps [of n] digits_val_snoc digit_char_props)
    with False 1 show ?thesis by (simp add: nat_str.simps [of n] digit_char_props hd_append)
  qed
qed

definition ender :: "string \<Rightarrow> bool" where
  "ender r \<longleftrightarrow> r = [] \<or> is_json_ws (hd r) \<or> hd r \<in> {CHR '','', CHR '']'', CHR ''}''}"

lemma ender_not_number:
  assumes "ender r"
  shows "takeWhile is_ascii_digit r = []" "dropWhile is_ascii_digit r = r" "scan_fraction r = ([], r)" "scan_exponent r = (None, r)"
proof -
  have "is_ascii_digit (hd r) = False \<and> hd r \<noteq> CHR ''.'' \<and> hd r \<noteq> CHR ''e'' \<and> hd r \<noteq> CHR ''E''" if "r \<noteq> []"
    using assms that by (auto simp: ender_def is_json_ws_def is_ascii_digit_def char_codes)
  then show "takeWhile is_ascii_digit r = []" "dropWhile is_ascii_digit r = r" "scan_fraction r = ([], r)" "scan_exponent r = (None, r)"
    by (cases r; simp add: scan_fraction_def scan_exponent_def)+
qed

lemma scan_nat_str:
  assumes "ender r" and "length (nat_str n) \<le> 4300"
  shows "scan_number neg (nat_str n @ r) = Some (JInt ((if neg then - 1 else 1) * int n), r)"
proof -
  obtain c cs where s: "nat_str n = c # cs" using nat_str_props [of n] by (cases "nat_str n") auto
  have whole: "(case nat_str n @ r of c # cs \<Rightarrow> if c = CHR ''0'' then ([c], cs) else digits_prefix (nat_str n @ r)
      | [] \<Rightarrow> ([], [])) = (nat_str n, r)"
  proof (cases "n = 0")
    case True
    then show ?thesis by (simp add: nat_str.simps digit_char_def char_codes)
  next
    case False
    have "takeWhile is_ascii_digit (nat_str n @ r) = nat_str n" "dropWhile is_ascii_digit (nat_str n @ r) = r"
      using nat_str_props [of n] ender_not_number [OF assms(1)]
      by (simp_all add: list_all_iff takeWhile_append2 dropWhile_append2)
    with False s nat_str_props [of n] show ?thesis by (simp add: digits_prefix_def)
  qed
  have "digits_val (nat_str n) = n" using nat_str_props by blast
  then show ?thesis
    unfolding scan_number_def whole using assms(2) s by (simp add: ender_not_number [OF assms(1)])
qed

lemma scan_int_str:
  assumes "ender r" and "length (nat_str (nat \<bar>i\<bar>)) \<le> 4300"
  shows "scan_atom (int_str i @ r) = Some (JInt i, r)"
proof -
  obtain c cs where s: "nat_str (nat \<bar>i\<bar>) = c # cs" "is_ascii_digit c"
    using nat_str_props [of "nat \<bar>i\<bar>"] by (cases "nat_str (nat \<bar>i\<bar>)") auto
  have c: "c \<notin> set ''ntfNI-''" using s(2) by (auto simp: is_ascii_digit_def)
  show ?thesis
  proof (cases "i < 0")
    case True
    with s c scan_nat_str [OF assms, of True] show ?thesis
      by (simp add: int_str_def scan_atom_def starts_with_def)
  next
    case False
    with s c scan_nat_str [OF assms, of False] show ?thesis
      by (simp add: int_str_def scan_atom_def)
  qed
qed

text \<open>
  Documents without floating-point numbers, whose integers have at most 4300 digits and whose dictionaries
  have distinct keys.
\<close>

fun plain_json :: "json \<Rightarrow> bool" where
  "plain_json (JInt i) = (length (nat_str (nat \<bar>i\<bar>)) \<le> 4300)"
| "plain_json (JFloat f) = False"
| "plain_json (JList xs) = list_all plain_json xs"
| "plain_json (JDict d) = (wf_dict d \<and> list_all (\<lambda>p. plain_json (snd p)) d)"
| "plain_json _ = True"

lemma print_json_head:
  assumes "plain_json v"
  shows "\<exists>c cs. print_json lay d v = c # cs \<and> \<not> is_json_ws c \<and> c \<noteq> CHR '']'' \<and> c \<noteq> CHR ''}''"
proof (cases v)
  case (JInt i)
  obtain c cs where "nat_str (nat \<bar>i\<bar>) = c # cs" "is_ascii_digit c"
    using nat_str_props [of "nat \<bar>i\<bar>"] by (cases "nat_str (nat \<bar>i\<bar>)") auto
  moreover from this have "\<not> is_json_ws c \<and> c \<noteq> CHR '']'' \<and> c \<noteq> CHR ''}''"
    by (auto simp: is_ascii_digit_def is_json_ws_def)
  ultimately show ?thesis using JInt by (auto simp: int_str_def is_json_ws_def char_codes)
next
  case (JStr t)
  have "\<not> is_json_ws dq_char" "dq_char \<noteq> CHR '']''" "dq_char \<noteq> CHR ''}''"
    by (simp_all add: is_json_ws_def dq_char_def char_codes)
  with JStr show ?thesis by (simp add: dumps_str_def)
qed (use assms in \<open>auto simp: is_json_ws_def char_codes\<close>)

lemma skip_ws_print: "plain_json v \<Longrightarrow> skip_ws (print_json lay d v @ r) = print_json lay d v @ r"
  using print_json_head [of v lay d] by (auto simp: skip_ws_no)

lemma join_with_Cons: "xs \<noteq> [] \<Longrightarrow> join_with sep (x # xs) = x @ sep @ join_with sep xs"
  by (cases xs) simp_all

lemma scan_items_print:
  assumes lay: "layout_ok lay" and "xs \<noteq> []"
    and IH: "\<And>x r. x \<in> set xs \<Longrightarrow> ender r \<Longrightarrow> scan_value wide (print_json lay (Suc d) x @ r) = Some (x, r)"
    and plain: "list_all plain_json xs" and "all_ws w"
  shows "scan_items wide (w @ join_with ('','' @ lay_comma lay d) (map (print_json lay (Suc d)) xs) @ lay_close lay d @ CHR '']'' # r) =
    Some (xs, r)"
  using assms(2-)
proof (induction xs arbitrary: w)
  case (Cons x xs)
  define rest where "rest = (if xs = [] then lay_close lay d @ CHR '']'' # r
    else CHR '','' # lay_comma lay d @ join_with ('','' @ lay_comma lay d) (map (print_json lay (Suc d)) xs) @ lay_close lay d @ CHR '']'' # r)"
  have eq: "w @ join_with ('','' @ lay_comma lay d) (map (print_json lay (Suc d)) (x # xs)) @ lay_close lay d @ CHR '']'' # r
      = w @ print_json lay (Suc d) x @ rest" by (simp add: rest_def join_with_Cons)
  have close: "all_ws (lay_close lay d)" and comma: "all_ws (lay_comma lay d)" using lay by (simp_all add: layout_ok_def)
  then have "ender rest" by (cases "lay_close lay d") (auto simp: rest_def ender_def all_ws_def)
  then have v: "scan_value wide (skip_ws (w @ print_json lay (Suc d) x @ rest)) = Some (x, rest)"
    using Cons.prems by (simp add: skip_ws_append skip_ws_print)
  show ?case
  proof (cases "xs = []")
    case True
    then have "skip_ws rest = CHR '']'' # r" using close by (simp add: rest_def skip_ws_append skip_ws_no is_json_ws_def char_codes)
    with v True show ?thesis unfolding eq by (subst scan_items.simps) simp
  next
    case False
    have "scan_items wide (lay_comma lay d @ join_with ('','' @ lay_comma lay d) (map (print_json lay (Suc d)) xs) @ lay_close lay d @ CHR '']'' # r) = Some (xs, r)"
      using Cons.prems comma False by (intro Cons.IH) auto
    moreover have "skip_ws rest = rest" using False by (simp add: rest_def skip_ws_no is_json_ws_def char_codes)
    ultimately show ?thesis using v False unfolding eq by (subst scan_items.simps) (simp add: rest_def)
  qed
qed simp

lemma scan_members_print:
  assumes lay: "layout_ok lay" and "ps \<noteq> []"
    and IH: "\<And>p r. p \<in> set ps \<Longrightarrow> ender r \<Longrightarrow> scan_value wide (print_json lay (Suc d) (snd p) @ r) = Some (snd p, r)"
    and plain: "list_all (\<lambda>p. plain_json (snd p)) ps" and "all_ws w"
  shows "scan_members wide (w @ join_with ('','' @ lay_comma lay d)
      (map (\<lambda>p. dumps_str (fst p) @ '': '' @ print_json lay (Suc d) (snd p)) ps) @ lay_close lay d @ CHR ''}'' # r) =
    Some (ps, r)"
  using assms(2-)
proof (induction ps arbitrary: w)
  case (Cons p ps)
  let ?one = "\<lambda>p. dumps_str (fst p) @ '': '' @ print_json lay (Suc d) (snd p)"
  define rest where "rest = (if ps = [] then lay_close lay d @ CHR ''}'' # r
    else CHR '','' # lay_comma lay d @ join_with ('','' @ lay_comma lay d) (map ?one ps) @ lay_close lay d @ CHR ''}'' # r)"
  define val where "val = print_json lay (Suc d) (snd p) @ rest"
  have eq: "w @ join_with ('','' @ lay_comma lay d) (map ?one (p # ps)) @ lay_close lay d @ CHR ''}'' # r
      = w @ dq_char # concat (map dumps_char (fst p)) @ dq_char # CHR '':'' # CHR '' '' # val"
    by (simp add: rest_def val_def join_with_Cons dumps_str_def)
  have close: "all_ws (lay_close lay d)" and comma: "all_ws (lay_comma lay d)" using lay by (simp_all add: layout_ok_def)
  then have "ender rest" by (cases "lay_close lay d") (auto simp: rest_def ender_def all_ws_def)
  then have v: "scan_value wide val = Some (snd p, rest)" "skip_ws (CHR '' '' # val) = val"
    using Cons.prems skip_ws_append [of "'' ''" val]
    by (simp_all add: val_def skip_ws_print all_ws_def is_json_ws_def)
  have k: "skip_ws (w @ dq_char # concat (map dumps_char (fst p)) @ dq_char # CHR '':'' # CHR '' '' # val)
      = dq_char # concat (map dumps_char (fst p)) @ dq_char # CHR '':'' # CHR '' '' # val"
    "skip_ws (CHR '':'' # CHR '' '' # val) = CHR '':'' # CHR '' '' # val"
    using Cons.prems by (simp_all add: skip_ws_append skip_ws_no is_json_ws_def dq_char_def char_codes)
  show ?case
  proof (cases "ps = []")
    case True
    then have "skip_ws rest = CHR ''}'' # r" using close by (simp add: rest_def skip_ws_append skip_ws_no is_json_ws_def char_codes)
    with v k True show ?thesis unfolding eq
      by (subst scan_members.simps) (simp add: scan_dumps_str val_def)
  next
    case False
    have "scan_members wide (lay_comma lay d @ join_with ('','' @ lay_comma lay d) (map ?one ps) @ lay_close lay d @ CHR ''}'' # r) = Some (ps, r)"
      using Cons.prems comma False by (intro Cons.IH) auto
    moreover have "skip_ws rest = rest" using False by (simp add: rest_def skip_ws_no is_json_ws_def char_codes)
    ultimately show ?thesis using v k False unfolding eq
      by (subst scan_members.simps) (simp add: scan_dumps_str val_def rest_def)
  qed
qed simp

lemma scan_value_print:
  assumes "layout_ok lay" and "plain_json v" and "ender r"
  shows "scan_value wide (print_json lay d v @ r) = Some (v, r)"
  using assms(2,3)
proof (induction v arbitrary: d r)
  case (JInt i)
  obtain c cs where s: "int_str i = c # cs" "c = CHR ''-'' \<or> is_ascii_digit c"
    using nat_str_props [of "nat i"] by (cases "i < 0"; cases "nat_str (nat i)") (auto simp: int_str_def)
  then have "c \<noteq> dq_char" "c \<noteq> CHR ''[''" "c \<noteq> CHR ''{''" by (auto simp: is_ascii_digit_def dq_char_def char_codes)
  with JInt scan_int_str [of r i] s show ?case by simp
next
  case (JStr t)
  then show ?case by (simp add: dumps_str_def scan_dumps_str)
next
  case (JList xs)
  show ?case
  proof (cases "xs = []")
    case False
    have ws: "all_ws (lay_open lay d)" using assms(1) by (simp add: layout_ok_def)
    have items: "scan_items wide (lay_open lay d @ join_with ('','' @ lay_comma lay d) (map (print_json lay (Suc d)) xs)
        @ lay_close lay d @ CHR '']'' # r) = Some (xs, r)"
      using JList False assms(1) ws by (intro scan_items_print) (auto simp: list_all_iff)
    obtain x xs' where xs: "xs = x # xs'" using False by (cases xs) auto
    obtain c cs where c: "print_json lay (Suc d) x = c # cs" "\<not> is_json_ws c" "c \<noteq> CHR '']''"
      using JList.prems print_json_head [of x lay "Suc d"] by (auto simp: xs)
    have "\<exists>cs'. skip_ws (lay_open lay d @ join_with ('','' @ lay_comma lay d) (map (print_json lay (Suc d)) xs)
        @ lay_close lay d @ CHR '']'' # r) = c # cs'"
      using c ws by (cases xs') (auto simp: xs skip_ws_append skip_ws_no)
    with items False c show ?thesis by (auto simp: is_dq)
  qed (simp add: is_dq skip_ws_no is_json_ws_def char_codes)
next
  case (JDict ps)
  show ?case
  proof (cases "ps = []")
    case False
    let ?one = "\<lambda>p. dumps_str (fst p) @ '': '' @ print_json lay (Suc d) (snd p)"
    have ws: "all_ws (lay_open lay d)" using assms(1) by (simp add: layout_ok_def)
    have members: "scan_members wide (lay_open lay d @ join_with ('','' @ lay_comma lay d) (map ?one ps)
        @ lay_close lay d @ CHR ''}'' # r) = Some (ps, r)"
      using JDict False assms(1) ws by (intro scan_members_print) (auto simp: list_all_iff)
    obtain p ps' where ps: "ps = p # ps'" using False by (cases ps) auto
    have "\<exists>cs'. skip_ws (lay_open lay d @ join_with ('','' @ lay_comma lay d) (map ?one ps)
        @ lay_close lay d @ CHR ''}'' # r) = dq_char # cs'"
      using ws by (cases ps') (auto simp: ps dumps_str_def skip_ws_append skip_ws_no is_json_ws_def dq_char_def char_codes)
    with members False JDict.prems show ?thesis by (auto simp: is_dq dict_of_id)
  qed (simp add: is_dq skip_ws_no is_json_ws_def char_codes dict_of_def)
qed (simp_all add: scan_atom_def scan_word_def starts_with_def is_dq)

lemma json_loads_dumps: "plain_json v \<Longrightarrow> json_loads wide (dumps indent v) = Some v"
  using scan_value_print [OF layout_of_ok, of v "[]" wide indent 0] skip_ws_print [of v _ 0 "[]"]
  by (simp add: json_loads_def dumps_def ender_def) (simp add: skip_ws_def)

end
