(* ===== verification/Fileio.thy ===== *)
theory Fileio
  imports Json_Text Paths Run_Context
begin

text \<open>
  \<open>etl_core/fileio.py\<close> and the nodes \<open>file_source\<close> and \<open>file_sink\<close>: the access policy, the formats, reading and
  writing records.

  A file system maps absolute locations (lists of names) to directories, files and symbolic links; the root
  is a directory. Text files hold text with code points below 256. The standard library's view of it is
  modelled: \<open>Path.resolve\<close> (CPython 3.11 and 3.12, where a loop of links is a \<open>RuntimeError\<close>), \<open>exists\<close>,
  universal newlines. The data frames of csv and parquet files are the fields of \<open>frame_lib\<close>, the texts of
  parse errors are parameters. Permissions are left out.
\<close>

section \<open>Paths and links\<close>

type_synonym location = "string list"

datatype fs_entry = FDir | FFile string | FLink bool location
type_synonym file_system = "(location \<times> fs_entry) list"

record py_path =
  pp_absolute :: bool
  pp_parts :: location

definition parse_path :: "string \<Rightarrow> py_path" where
  "parse_path s =
     \<lparr>pp_absolute = starts_with ''/'' s, pp_parts = filter (\<lambda>c. c \<noteq> [] \<and> c \<noteq> ''.'') (split_on CHR ''/'' s)\<rparr>"

definition path_str :: "location \<Rightarrow> string" where
  "path_str p = ''/'' @ join_with ''/'' p"

definition entry :: "file_system \<Rightarrow> location \<Rightarrow> fs_entry option" where
  "entry fs p = (if p = [] then Some FDir else dict_get fs p)"

definition links :: "file_system \<Rightarrow> location set" where
  "links fs = {p \<in> fst ` set fs. \<exists>a t. entry fs p = Some (FLink a t)}"

lemma finite_links: "finite (links fs)"
  by (simp add: links_def)

lemma link_unvisited:
  assumes "entry fs q = Some (FLink a t)" and "q \<notin> set vis"
  shows "card (links fs - insert q (set vis)) < card (links fs - set vis)"
proof (rule psubset_card_mono)
  have "q \<in> links fs" using assms(1) dict_get_SomeD [of fs q] by (auto simp: links_def entry_def split: if_splits)
  with assms(2) show "links fs - insert q (set vis) \<subset> links fs - set vis" by blast
qed (simp add: finite_links)

text \<open>
  Following a path from the real location \<open>p\<close>: \<open>vis\<close> are the links being followed, and coming back to one of
  them is a loop. The strict walk is the one of the operating system, which needs every component to exist;
  the other one takes missing components as they are written.
\<close>

function walk :: "bool \<Rightarrow> file_system \<Rightarrow> location list \<Rightarrow> location \<Rightarrow> location \<Rightarrow> location option" where
  "walk strict fs vis p [] = Some p"
| "walk strict fs vis p (c # cs) =
     (if strict \<and> entry fs p \<noteq> Some FDir then None
      else if c = [] \<or> c = ''.'' then walk strict fs vis p cs
      else if c = ''..'' then walk strict fs vis (butlast p) cs
      else case entry fs (p @ [c]) of
          Some (FLink absolute target) \<Rightarrow>
            if p @ [c] \<in> set vis then None
            else (case walk strict fs ((p @ [c]) # vis) (if absolute then [] else p) target of
                None \<Rightarrow> None
              | Some p' \<Rightarrow> walk strict fs vis p' cs)
        | None \<Rightarrow> if strict then None else walk strict fs vis (p @ [c]) cs
        | _ \<Rightarrow> walk strict fs vis (p @ [c]) cs)"
  by pat_completeness auto
termination
  by (relation "inv_image (less_than <*lex*> less_than)
        (\<lambda>(strict, fs, vis, p, cs). (card (links fs - set vis), length cs))")
    (auto dest: link_unvisited)

record os_env =
  os_cwd :: location
  os_home :: "string \<Rightarrow> location option"

text \<open>\<open>Path.expanduser\<close>, \<open>Path.exists\<close> and \<open>Path.resolve\<close>.\<close>

definition expanduser :: "os_env \<Rightarrow> py_path \<Rightarrow> exn + py_path" where
  "expanduser env path =
     (case pp_parts path of
        c # cs \<Rightarrow>
          if \<not> pp_absolute path \<and> starts_with ''~'' c then
            (case os_home env (drop 1 c) of
               Some home \<Rightarrow> Inr \<lparr>pp_absolute = True, pp_parts = home @ cs\<rparr>
             | None \<Rightarrow> Inl (OtherException ''RuntimeError'' ''Could not determine home directory.''))
          else Inr path
      | [] \<Rightarrow> Inr path)"

definition start_of :: "os_env \<Rightarrow> py_path \<Rightarrow> location" where
  "start_of env path = (if pp_absolute path then [] else os_cwd env)"

definition path_exists :: "os_env \<Rightarrow> file_system \<Rightarrow> py_path \<Rightarrow> bool" where
  "path_exists env fs path \<longleftrightarrow> walk True fs [] [] (start_of env path @ pp_parts path) \<noteq> None"

definition path_resolve :: "os_env \<Rightarrow> file_system \<Rightarrow> py_path \<Rightarrow> exn + location" where
  "path_resolve env fs path =
     (case walk False fs [] [] (start_of env path @ pp_parts path) of
        Some p \<Rightarrow> Inr p
      | None \<Rightarrow> Inl (OtherException ''RuntimeError'' ''Symlink loop''))"

section \<open>Real locations\<close>

text \<open>A location none of whose ancestors, itself included, is a link: opening it follows no link.\<close>

definition canonical :: "file_system \<Rightarrow> location \<Rightarrow> bool" where
  "canonical fs p \<longleftrightarrow> (\<forall>i < length p. p ! i \<notin> {[], ''.'', ''..''} \<and>
     (\<forall>a t. entry fs (take (Suc i) p) \<noteq> Some (FLink a t)))"

lemma canonical_Nil [simp]: "canonical fs []"
  by (simp add: canonical_def)

lemma canonical_snoc:
  "canonical fs (p @ [c]) \<longleftrightarrow>
     canonical fs p \<and> c \<notin> {[], ''.'', ''..''} \<and> (\<forall>a t. entry fs (p @ [c]) \<noteq> Some (FLink a t))"
  unfolding canonical_def by (auto simp: nth_append less_Suc_eq all_conj_distrib)

lemma canonical_butlast: "canonical fs p \<Longrightarrow> canonical fs (butlast p)"
  by (cases p rule: rev_cases) (simp_all add: canonical_snoc)

lemma walk_canonical: "walk strict fs vis p cs = Some q \<Longrightarrow> canonical fs p \<Longrightarrow> canonical fs q"
proof (induction strict fs vis p cs arbitrary: q rule: walk.induct)
  case (2 strict fs vis p c cs)
  show ?case
  proof (cases "c = [] \<or> c = ''.'' \<or> c = ''..''")
    case True
    with 2 show ?thesis by (auto simp: canonical_butlast split: if_splits)
  next
    case False
    show ?thesis
    proof (cases "\<exists>a t. entry fs (p @ [c]) = Some (FLink a t)")
      case True
      then obtain a t where link: "entry fs (p @ [c]) = Some (FLink a t)" by blast
      with False "2.prems"(1) obtain p' where p': "\<not> (strict \<and> entry fs p \<noteq> Some FDir)" "p @ [c] \<notin> set vis"
        "walk strict fs ((p @ [c]) # vis) (if a then [] else p) t = Some p'" "walk strict fs vis p' cs = Some q"
        by (auto split: if_splits option.splits)
      have "canonical fs p'" using "2.IH"(6) [OF p'(1) _ _ link refl p'(2)] p'(3) False "2.prems"(2) by simp
      with "2.IH"(7) [OF p'(1) _ _ link refl p'(2,3,4)] False show ?thesis by simp
    next
      case nolink: False
      then have "canonical fs (p @ [c])" using False "2.prems"(2) by (auto simp: canonical_snoc)
      with "2.IH"(3,4,5) "2.prems"(1) False nolink show ?thesis
        by (auto split: if_splits option.splits fs_entry.splits)
    qed
  qed
qed simp

lemma canonical_append:
  assumes "canonical fs (p @ cs)"
  shows "canonical fs p"
  unfolding canonical_def
proof (intro allI impI)
  fix i assume i: "i < length p"
  then have "(p @ cs) ! i = p ! i" "take (Suc i) (p @ cs) = take (Suc i) p" by (simp_all add: nth_append)
  with assms i show "p ! i \<notin> {[], ''.'', ''..''} \<and> (\<forall>a t. entry fs (take (Suc i) p) \<noteq> Some (FLink a t))"
    unfolding canonical_def by (metis length_append trans_less_add1)
qed

lemma walk_fixed: "canonical fs (p @ cs) \<Longrightarrow> walk False fs vis p cs = Some (p @ cs)"
proof (induction cs arbitrary: p)
  case (Cons c cs)
  have "canonical fs (p @ [c])" using canonical_append [of fs "p @ [c]" cs] Cons.prems by simp
  with Cons show ?case by (auto simp: canonical_snoc split: option.splits fs_entry.splits)
qed simp

section \<open>The access policy\<close>

datatype file_exn = FileAccessError string | FileFormatError string | FileOther exn

text \<open>The longest existing ancestor of a path, by dropping names from its end.\<close>

function nearest_existing :: "os_env \<Rightarrow> file_system \<Rightarrow> py_path \<Rightarrow> py_path" where
  "nearest_existing env fs path =
     (if path_exists env fs path \<or> pp_parts path = [] then path
      else nearest_existing env fs (path\<lparr>pp_parts := butlast (pp_parts path)\<rparr>))"
  by pat_completeness auto
termination
  by (relation "measure (\<lambda>(env, fs, path). length (pp_parts path))") auto

declare nearest_existing.simps [simp del]

definition realpath :: "os_env \<Rightarrow> file_system \<Rightarrow> py_path \<Rightarrow> exn + location" where
  "realpath env fs target =
     (let existing = nearest_existing env fs target; tail = drop (length (pp_parts existing)) (pp_parts target)
      in sbind (path_resolve env fs existing) (\<lambda>anchor.
           if tail = [] then Inr anchor
           else path_resolve env fs \<lparr>pp_absolute = True, pp_parts = anchor @ tail\<rparr>))"

fun find_base :: "os_env \<Rightarrow> file_system \<Rightarrow> location \<Rightarrow> string list \<Rightarrow> exn + bool" where
  "find_base env fs resolved [] = Inr False"
| "find_base env fs resolved (base # bases) =
     sbind (expanduser env (parse_path base)) (\<lambda>b.
       sbind (path_resolve env fs b) (\<lambda>base_resolved.
         if take (length base_resolved) resolved = base_resolved then Inr True
         else find_base env fs resolved bases))"

definition outside_msg :: "string \<Rightarrow> string list \<Rightarrow> string" where
  "outside_msg path dirs =
     ''path '' @ repr_str path @ '' is outside the allowed directories ('' @ join_with '', '' dirs @
     ''); adjust the file access policy if intentional''"

definition policy_resolve :: "os_env \<Rightarrow> file_system \<Rightarrow> file_policy \<Rightarrow> string \<Rightarrow> file_exn + location" where
  "policy_resolve env fs policy path =
     (case sbind (expanduser env (parse_path path)) (realpath env fs) of
        Inl e \<Rightarrow> Inl (FileOther e)
      | Inr resolved \<Rightarrow>
          if fp_allowed_dirs policy = [] then Inr resolved
          else (case find_base env fs resolved (fp_allowed_dirs policy) of
              Inl e \<Rightarrow> Inl (FileOther e)
            | Inr True \<Rightarrow> Inr resolved
            | Inr False \<Rightarrow> Inl (FileAccessError (outside_msg path (fp_allowed_dirs policy)))))"

section \<open>Formats\<close>

datatype file_format = Csv | Json | Jsonl | Parquet

fun format_name :: "file_format \<Rightarrow> string" where
  "format_name Csv = ''csv''"
| "format_name Json = ''json''"
| "format_name Jsonl = ''jsonl''"
| "format_name Parquet = ''parquet''"

definition EXTENSIONS :: "file_format dict" where
  "EXTENSIONS = [(''.csv'', Csv), (''.json'', Json), (''.jsonl'', Jsonl), (''.ndjson'', Jsonl),
     (''.parquet'', Parquet), (''.pq'', Parquet)]"

text \<open>\<open>Path.suffix\<close>: from the last dot of the final name, unless the dot is its first or last character.\<close>

definition path_suffix :: "py_path \<Rightarrow> string" where
  "path_suffix path =
     (case rev (pp_parts path) of
        [] \<Rightarrow> []
      | name # _ \<Rightarrow>
          (let ext = rev (takeWhile (\<lambda>c. c \<noteq> CHR ''.'') (rev name)); stem = length name - length ext
           in if 1 < stem \<and> ext \<noteq> [] then CHR ''.'' # ext else []))"

definition infer_format :: "string \<Rightarrow> file_exn + file_format" where
  "infer_format path =
     (case dict_get EXTENSIONS (lower_str (path_suffix (parse_path path))) of
        Some fmt \<Rightarrow> Inr fmt
      | None \<Rightarrow> Inl (FileFormatError (''cannot infer format from path '' @ repr_str path @
          ''; set 'format' explicitly (one of csv, json, jsonl, parquet)'')))"

section \<open>Reading\<close>

text \<open>Text mode turns every line ending into a newline; iteration over a file splits after each.\<close>

fun universal_newlines :: "string \<Rightarrow> string" where
  "universal_newlines [] = []"
| "universal_newlines (c # cs) =
     (if c = char_of (13 :: nat)
      then (if starts_with [char_of (10 :: nat)] cs then [] else [char_of (10 :: nat)]) @ universal_newlines cs
      else c # universal_newlines cs)"

definition file_lines :: "string \<Rightarrow> string list" where
  "file_lines s = split_on (char_of (10 :: nat)) s"

record read_options =
  ro_limit :: "nat option"
  ro_has_header :: bool
  ro_delimiter :: string
  ro_infer_schema :: bool
  ro_records_path :: "string option"

text \<open>polars (data frames from and to files, with its own exceptions) and the texts of JSON errors.\<close>

record frame_lib =
  fl_read_csv :: "string \<Rightarrow> read_options \<Rightarrow> exn + records"
  fl_read_parquet :: "string \<Rightarrow> nat option \<Rightarrow> exn + records"
  fl_write_csv :: "records \<Rightarrow> string \<Rightarrow> bool \<Rightarrow> exn + string"
  fl_write_parquet :: "records \<Rightarrow> exn + string"
  fl_json_error :: "string \<Rightarrow> string"
  fl_wide :: "nat \<Rightarrow> string"

definition coerce_item :: "json \<Rightarrow> record_t" where
  "coerce_item item = (case item of JDict d \<Rightarrow> d | _ \<Rightarrow> [(''value'', item)])"

text \<open>Opening a location: a loop of links, a directory and a missing file are errors of the operating system.\<close>

definition os_error :: "string \<Rightarrow> nat \<Rightarrow> string \<Rightarrow> location \<Rightarrow> file_exn" where
  "os_error kind errno what p =
     FileOther (OtherException kind (''[Errno '' @ nat_str errno @ ''] '' @ what @ '': '' @ repr_str (path_str p)))"

definition read_file :: "file_system \<Rightarrow> location \<Rightarrow> file_exn + string" where
  "read_file fs p =
     (case walk True fs [] [] p of
        None \<Rightarrow> Inl (os_error ''FileNotFoundError'' 2 ''No such file or directory'' p)
      | Some q \<Rightarrow> (case entry fs q of
            Some (FFile content) \<Rightarrow> Inr content
          | _ \<Rightarrow> Inl (os_error ''IsADirectoryError'' 21 ''Is a directory'' p)))"

definition read_json :: "frame_lib \<Rightarrow> file_system \<Rightarrow> location \<Rightarrow> string option \<Rightarrow> nat option \<Rightarrow> file_exn + records" where
  "read_json lib fs p records_path limit =
     sbind (read_file fs p) (\<lambda>content.
       let s = universal_newlines content
       in case json_loads (fl_wide lib) s of
           None \<Rightarrow> Inl (FileFormatError (path_str p @ '' is not valid JSON: '' @ fl_json_error lib s))
         | Some data \<Rightarrow>
             sbind (case records_path of
                 None \<Rightarrow> Inr data
               | Some rp \<Rightarrow>
                   if rp = [] then Inr data
                   else (case get_path data (split_path rp) of
                       Inr v \<Rightarrow> Inr v
                     | Inl (PathNotFoundError m) \<Rightarrow>
                         Inl (FileFormatError (''records_path '' @ repr_str rp @ '' not found in '' @ path_str p @ '': '' @ m))
                     | Inl e \<Rightarrow> Inl (FileOther e)))
               (\<lambda>data.
                 let items = (case data of JList xs \<Rightarrow> xs | _ \<Rightarrow> [data]); recs = map coerce_item items
                 in Inr (case limit of Some n \<Rightarrow> take n recs | None \<Rightarrow> recs)))"

fun jsonl_loop :: "frame_lib \<Rightarrow> location \<Rightarrow> nat option \<Rightarrow> nat \<Rightarrow> records \<Rightarrow> string list \<Rightarrow> file_exn + records" where
  "jsonl_loop lib p limit line_no recs [] = Inr recs"
| "jsonl_loop lib p limit line_no recs (raw # rest) =
     (let line = strip_ws raw
      in if line = [] then jsonl_loop lib p limit (Suc line_no) recs rest
         else case json_loads (fl_wide lib) line of
             None \<Rightarrow> Inl (FileFormatError (path_str p @ '' line '' @ nat_str line_no @ '' is not valid JSON: '' @ fl_json_error lib line))
           | Some v \<Rightarrow>
               (let recs = recs @ [coerce_item v]
                in case limit of
                    Some n \<Rightarrow> if n \<le> length recs then Inr recs else jsonl_loop lib p limit (Suc line_no) recs rest
                  | None \<Rightarrow> jsonl_loop lib p limit (Suc line_no) recs rest))"

definition read_jsonl :: "frame_lib \<Rightarrow> file_system \<Rightarrow> location \<Rightarrow> nat option \<Rightarrow> file_exn + records" where
  "read_jsonl lib fs p limit =
     sbind (read_file fs p) (\<lambda>content. jsonl_loop lib p limit 1 [] (file_lines (universal_newlines content)))"

definition lift_exn :: "exn + 'a \<Rightarrow> file_exn + 'a" where
  "lift_exn = map_sum FileOther id"

definition read_records :: "frame_lib \<Rightarrow> file_system \<Rightarrow> location \<Rightarrow> file_format \<Rightarrow> read_options \<Rightarrow> file_exn + records" where
  "read_records lib fs p fmt opts =
     (if walk True fs [] [] p = None then Inl (FileAccessError (''file not found: '' @ path_str p))
      else case fmt of
          Json \<Rightarrow> read_json lib fs p (ro_records_path opts) (ro_limit opts)
        | Jsonl \<Rightarrow> read_jsonl lib fs p (ro_limit opts)
        | Csv \<Rightarrow> sbind (read_file fs p) (\<lambda>content. lift_exn (fl_read_csv lib content opts))
        | Parquet \<Rightarrow> sbind (read_file fs p) (\<lambda>content. lift_exn (fl_read_parquet lib content (ro_limit opts))))"

definition default_read :: read_options where
  "default_read = \<lparr>ro_limit = None, ro_has_header = True, ro_delimiter = '','', ro_infer_schema = True, ro_records_path = None\<rparr>"

section \<open>Writing\<close>

datatype write_mode = Overwrite | Append | ErrorIfExists

record write_options =
  wo_mode :: write_mode
  wo_make_parents :: bool
  wo_has_header :: bool
  wo_delimiter :: string
  wo_json_indent :: "nat option"

text \<open>Rows for a data frame: the union of the columns in the order they are met, nested values as JSON text.\<close>

definition frame_columns :: "records \<Rightarrow> string list" where
  "frame_columns recs = rev (remdups (rev (concat (map dict_keys recs))))"

definition frame_cell :: "json \<Rightarrow> json" where
  "frame_cell v = (case v of JDict d \<Rightarrow> JStr (dumps None v) | JList xs \<Rightarrow> JStr (dumps None v) | _ \<Rightarrow> v)"

definition frame_rows :: "records \<Rightarrow> records" where
  "frame_rows recs =
     map (\<lambda>r. map (\<lambda>k. (k, case dict_get r k of Some v \<Rightarrow> frame_cell v | None \<Rightarrow> JNull)) (frame_columns recs)) recs"

definition jsonl_text :: "records \<Rightarrow> string" where
  "jsonl_text recs = concat (map (\<lambda>r. dumps None (JDict r) @ [char_of (10 :: nat)]) recs)"

text \<open>\<open>parent.mkdir(parents=True, exist_ok=True)\<close>: the missing ancestors, from the root down.\<close>

fun make_dirs :: "file_system \<Rightarrow> location \<Rightarrow> location \<Rightarrow> file_exn + file_system" where
  "make_dirs fs p [] = Inr fs"
| "make_dirs fs p (c # cs) =
     (case entry fs (p @ [c]) of
        None \<Rightarrow> make_dirs (fs @ [(p @ [c], FDir)]) (p @ [c]) cs
      | Some FDir \<Rightarrow> make_dirs fs (p @ [c]) cs
      | _ \<Rightarrow> Inl (if cs = [] then os_error ''FileExistsError'' 17 ''File exists'' (p @ [c])
                  else os_error ''NotADirectoryError'' 20 ''Not a directory'' (p @ c # cs)))"

definition write_file :: "file_system \<Rightarrow> location \<Rightarrow> string \<Rightarrow> file_exn + file_system" where
  "write_file fs p content =
     (if entry fs (butlast p) \<noteq> Some FDir then Inl (os_error ''FileNotFoundError'' 2 ''No such file or directory'' p)
      else case entry fs p of
          Some FDir \<Rightarrow> Inl (os_error ''IsADirectoryError'' 21 ''Is a directory'' p)
        | _ \<Rightarrow> Inr (dict_set p (FFile content) fs))"

definition encode_records :: "frame_lib \<Rightarrow> file_format \<Rightarrow> write_options \<Rightarrow> records \<Rightarrow> file_exn + string" where
  "encode_records lib fmt opts recs =
     (case fmt of
        Jsonl \<Rightarrow> Inr (jsonl_text recs)
      | Json \<Rightarrow> Inr (dumps (wo_json_indent opts) (records_json recs))
      | Csv \<Rightarrow> lift_exn (fl_write_csv lib (frame_rows recs) (wo_delimiter opts) (wo_has_header opts))
      | Parquet \<Rightarrow> lift_exn (fl_write_parquet lib (frame_rows recs)))"

text \<open>Directories that were created stay when a later step fails.\<close>

definition write_records :: "frame_lib \<Rightarrow> file_system \<Rightarrow> records \<Rightarrow> location \<Rightarrow> file_format \<Rightarrow> write_options \<Rightarrow>
    (file_exn + nat) \<times> file_system" where
  "write_records lib fs recs p fmt opts =
     (let there = walk True fs [] [] p \<noteq> None
      in if wo_mode opts = ErrorIfExists \<and> there
         then (Inl (FileAccessError (''refusing to overwrite existing file: '' @ path_str p)), fs)
         else case (if wo_make_parents opts then make_dirs fs [] (butlast p) else Inr fs) of
             Inl e \<Rightarrow> (Inl e, fs)
           | Inr fs1 \<Rightarrow>
               (case sbind (if wo_mode opts = Append \<and> there
                      then sbind (read_records lib fs1 p fmt default_read) (\<lambda>old. Inr (old @ recs)) else Inr recs)
                    (\<lambda>combined. sbind (encode_records lib fmt opts combined) (write_file fs1 p)) of
                  Inl e \<Rightarrow> (Inl e, fs1)
                | Inr fs2 \<Rightarrow> (Inr (length recs), fs2)))"

section \<open>Reading what was written\<close>

lemma universal_newlines_id: "char_of (13 :: nat) \<notin> set s \<Longrightarrow> universal_newlines s = s"
  by (induction s) auto

lemma set_join_with: "set (join_with sep xs) \<subseteq> set sep \<union> (\<Union>x \<in> set xs. set x)"
  by (induction sep xs rule: join_with.induct) auto

lemma hex_char_code: "k < 16 \<Longrightarrow> 32 \<le> (of_char (hex_char k) :: nat)"
  by (simp add: hex_char_def)

lemma dumps_char_codes: "x \<in> set (dumps_char c) \<Longrightarrow> 32 \<le> (of_char x :: nat)"
  using of_char_mod_256 [of c, where ?'a = nat]
  by (auto simp: dumps_char_def Let_def hex_char_code less_mult_imp_div_less split: if_splits)

lemma nat_str_codes: "x \<in> set (nat_str n) \<Longrightarrow> 32 \<le> (of_char x :: nat)"
  using nat_str_props [of n] by (auto simp: list_all_iff is_ascii_digit_def)

lemma dumps_str_codes: "x \<in> set (dumps_str t) \<Longrightarrow> 32 \<le> (of_char x :: nat)"
  by (auto simp: dumps_str_def dq_char_def dumps_char_codes)

definition layout_chars :: "layout \<Rightarrow> char set" where
  "layout_chars lay = (\<Union>d. set (lay_open lay d) \<union> set (lay_comma lay d) \<union> set (lay_close lay d))"

lemma print_json_codes:
  "plain_json v \<Longrightarrow> x \<in> set (print_json lay d v) \<Longrightarrow> 32 \<le> (of_char x :: nat) \<or> x \<in> layout_chars lay"
proof (induction v arbitrary: d)
  case (JInt i)
  then show ?case by (auto simp: int_str_def nat_str_codes split: if_splits)
next
  case (JStr t)
  then show ?case by (simp add: dumps_str_codes)
next
  case (JList xs)
  have "x \<in> set ''[],'' \<or> x \<in> layout_chars lay \<or> (\<exists>v \<in> set xs. x \<in> set (print_json lay (Suc d) v))"
    using JList.prems(2) set_join_with [of "'','' @ lay_comma lay d" "map (print_json lay (Suc d)) xs"]
    by (auto simp: layout_chars_def split: if_splits)
  with JList show ?case by (auto simp: list_all_iff)
next
  case (JDict ps)
  have "x \<in> set ''{},: '' \<or> x \<in> layout_chars lay \<or> (\<exists>p \<in> set ps. x \<in> set (dumps_str (fst p)) \<or> x \<in> set (print_json lay (Suc d) (snd p)))"
    using JDict.prems(2) set_join_with [of "'','' @ lay_comma lay d" "map (\<lambda>p. dumps_str (fst p) @ '': '' @ print_json lay (Suc d) (snd p)) ps"]
    by (auto simp: layout_chars_def split: if_splits)
  with JDict show ?case by (auto simp: list_all_iff dumps_str_codes)
qed (auto split: if_splits)

lemma dumps_no_cr: "plain_json v \<Longrightarrow> char_of (13 :: nat) \<notin> set (dumps indent v)"
proof
  assume "plain_json v" "char_of (13 :: nat) \<in> set (dumps indent v)"
  then have "char_of (13 :: nat) \<in> layout_chars (layout_of indent)"
    unfolding dumps_def by (auto dest: print_json_codes)
  then show False by (auto simp: layout_chars_def layout_of_def new_line_def char_codes split: option.splits)
qed

lemma dumps_no_lf: "plain_json v \<Longrightarrow> char_of (10 :: nat) \<notin> set (dumps None v)"
proof
  assume "plain_json v" "char_of (10 :: nat) \<in> set (dumps None v)"
  then have "char_of (10 :: nat) \<in> layout_chars (layout_of None)"
    unfolding dumps_def by (auto dest: print_json_codes)
  then show False by (auto simp: layout_chars_def layout_of_def char_codes)
qed

definition plain_records :: "records \<Rightarrow> bool" where
  "plain_records recs \<longleftrightarrow> plain_json (records_json recs)"

lemma coerce_records: "map (coerce_item \<circ> JDict) recs = recs"
  by (simp add: coerce_item_def comp_def)

lemma read_json_text:
  assumes "plain_records recs" and "read_file fs p = Inr (dumps indent (records_json recs))"
  shows "read_json lib fs p None None = Inr recs"
  using assms
  by (simp add: plain_records_def read_json_def universal_newlines_id dumps_no_cr json_loads_dumps Let_def
      records_json_def coerce_records)

lemma strip_ws_dict: "strip_ws (dumps None (JDict r)) = dumps None (JDict r)"
proof -
  obtain m where m: "dumps None (JDict r) = ''{'' @ m @ ''}''"
    by (cases "r = []") (auto simp: dumps_def layout_of_def intro: that [of "[]"] that)
  have "\<not> is_space CHR ''{''" "\<not> is_space CHR ''}''" by (simp_all add: is_space_def)
  then show ?thesis by (simp add: m strip_ws_def)
qed

lemma file_lines_jsonl:
  assumes "plain_records recs"
  shows "file_lines (universal_newlines (jsonl_text recs)) = map (\<lambda>r. dumps None (JDict r)) recs @ [[]]"
proof -
  have plain: "plain_json (JDict r)" if "r \<in> set recs" for r
    using assms that by (auto simp: plain_records_def records_json_def list_all_iff)
  then have "char_of (13 :: nat) \<notin> set (jsonl_text recs)"
    using dumps_no_cr by (auto simp: jsonl_text_def char_codes)
  then have id: "universal_newlines (jsonl_text recs) = jsonl_text recs" by (rule universal_newlines_id)
  have "split_on (char_of (10 :: nat)) (jsonl_text recs) = map (\<lambda>r. dumps None (JDict r)) recs @ [[]]"
    using plain
  proof (induction recs)
    case (Cons r recs)
    have "jsonl_text (r # recs) = dumps None (JDict r) @ char_of (10 :: nat) # jsonl_text recs" by (simp add: jsonl_text_def)
    with Cons dumps_no_lf [of "JDict r"] show ?case by (simp add: split_on_append)
  qed (simp add: jsonl_text_def)
  with id show ?thesis by (simp add: file_lines_def)
qed

lemma jsonl_loop_dumps:
  assumes "\<forall>r \<in> set recs. plain_json (JDict r)"
  shows "jsonl_loop lib p None n acc (map (\<lambda>r. dumps None (JDict r)) recs @ [[]]) = Inr (acc @ recs)"
  using assms
proof (induction recs arbitrary: n acc)
  case (Cons r recs)
  have "dumps None (JDict r) \<noteq> []" by (simp add: dumps_def)
  with Cons show ?case by (simp add: strip_ws_dict json_loads_dumps coerce_item_def)
qed (simp add: strip_ws_def)

lemma read_jsonl_text:
  assumes "plain_records recs" and "read_file fs p = Inr (jsonl_text recs)"
  shows "read_jsonl lib fs p None = Inr recs"
  using assms by (simp add: read_jsonl_def file_lines_jsonl)
    (subst jsonl_loop_dumps, auto simp: plain_records_def records_json_def list_all_iff)

section \<open>The policy confines every access\<close>

lemma path_resolve_canonical: "path_resolve env fs path = Inr p \<Longrightarrow> canonical fs p"
  by (auto simp: path_resolve_def split: option.splits intro: walk_canonical)

lemma realpath_canonical: "realpath env fs path = Inr p \<Longrightarrow> canonical fs p"
  by (auto simp: realpath_def Let_def sbind_eq_Inr path_resolve_canonical split: if_splits)

lemma find_base_True:
  "find_base env fs p bases = Inr True \<Longrightarrow>
     \<exists>base \<in> set bases. \<exists>b q. expanduser env (parse_path base) = Inr b \<and> path_resolve env fs b = Inr q \<and> take (length q) p = q"
  by (induction bases) (auto simp: sbind_eq_Inr split: if_splits)

text \<open>
  The location the policy returns lies inside the real location of an allowed directory, and opening it
  follows no link, whatever links, dots and missing components the configured path contains.
\<close>

lemma policy_resolve_canonical: "policy_resolve env fs policy path = Inr p \<Longrightarrow> canonical fs p"
  by (auto simp: policy_resolve_def sbind_eq_Inr realpath_canonical split: sum.splits bool.splits if_splits)

lemma policy_resolve_confined:
  assumes "policy_resolve env fs policy path = Inr p" and "fp_allowed_dirs policy \<noteq> []"
  shows "\<exists>base \<in> set (fp_allowed_dirs policy). \<exists>b r.
    expanduser env (parse_path base) = Inr b \<and> path_resolve env fs b = Inr r \<and> canonical fs r \<and> take (length r) p = r"
proof -
  have "find_base env fs p (fp_allowed_dirs policy) = Inr True"
    using assms by (auto simp: policy_resolve_def split: sum.splits bool.splits)
  from find_base_True [OF this] show ?thesis using path_resolve_canonical by blast
qed

definition demo_fs :: file_system where
  "demo_fs = [([''srv''], FDir), ([''srv'', ''data''], FDir), ([''srv'', ''data'', ''up''], FLink False [''..'', ''in'']),
     ([''srv'', ''in''], FDir)]"

definition demo_env :: os_env where
  "demo_env = \<lparr>os_cwd = [''srv''], os_home = (\<lambda>_. None)\<rparr>"

section \<open>Files keep their records\<close>

text \<open>File systems in which everything lies in a directory.\<close>

definition wf_fs :: "file_system \<Rightarrow> bool" where
  "wf_fs fs \<longleftrightarrow> (\<forall>q. entry fs q \<noteq> None \<longrightarrow> q \<noteq> [] \<longrightarrow> entry fs (butlast q) = Some FDir)"

lemma wf_fs_ancestor: "wf_fs fs \<Longrightarrow> entry fs (p @ c # cs) \<noteq> None \<Longrightarrow> entry fs p = Some FDir"
proof (induction cs rule: rev_induct)
  case Nil
  then show ?case unfolding wf_fs_def by (metis butlast_snoc snoc_eq_iff_butlast)
next
  case (snoc d cs)
  then have "entry fs (p @ c # cs) = Some FDir"
    unfolding wf_fs_def by (metis append_is_Nil_conv append_Cons append_assoc butlast_snoc list.distinct(1))
  with snoc show ?case by simp
qed

lemma walk_strict:
  "wf_fs fs \<Longrightarrow> canonical fs (p @ cs) \<Longrightarrow> entry fs (p @ cs) \<noteq> None \<Longrightarrow> walk True fs vis p cs = Some (p @ cs)"
proof (induction cs arbitrary: p)
  case (Cons c cs)
  have "canonical fs (p @ [c])" using canonical_append [of fs "p @ [c]" cs] Cons.prems(2) by simp
  moreover have "entry fs p = Some FDir" using wf_fs_ancestor Cons.prems by blast
  moreover have "entry fs (p @ [c]) \<noteq> None"
    using wf_fs_ancestor [of fs "p @ [c]"] Cons.prems by (cases cs) force+
  ultimately show ?case using Cons by (auto simp: canonical_snoc split: option.splits fs_entry.splits)
qed simp

definition extends :: "file_system \<Rightarrow> file_system \<Rightarrow> bool" where
  "extends fs fs' \<longleftrightarrow>
     (\<forall>q. entry fs q \<noteq> None \<longrightarrow> entry fs' q = entry fs q) \<and> (\<forall>q. entry fs q = None \<longrightarrow> entry fs' q \<in> {None, Some FDir})"

lemma extends_refl: "extends fs fs"
  by (simp add: extends_def)

lemma extends_trans: "extends fs fs' \<Longrightarrow> extends fs' fs'' \<Longrightarrow> extends fs fs''"
  unfolding extends_def by (metis insertE insertCI option.distinct(1) singletonD)

lemma extends_canonical: "extends fs fs' \<Longrightarrow> canonical fs p \<Longrightarrow> canonical fs' p"
  unfolding extends_def canonical_def by (metis (no_types) fs_entry.distinct(3) insertE option.distinct(1) option.inject singletonD)

lemma entry_snoc: "p \<noteq> [] \<Longrightarrow> entry (fs @ [(p, e)]) q = (if entry fs q = None \<and> q = p then Some e else entry fs q)"
  by (auto simp: entry_def map_add_def split: option.splits)

lemma make_dirs_spec:
  "make_dirs fs p cs = Inr fs' \<Longrightarrow> wf_fs fs \<Longrightarrow> entry fs p = Some FDir \<Longrightarrow>
     wf_fs fs' \<and> extends fs fs' \<and> entry fs' (p @ cs) = Some FDir"
proof (induction fs p cs rule: make_dirs.induct)
  case (2 fs p c cs)
  show ?case
  proof (cases "entry fs (p @ [c])")
    case None
    let ?fs = "fs @ [(p @ [c], FDir)]"
    have "wf_fs ?fs" using "2.prems"(2,3) unfolding wf_fs_def by (auto simp: entry_snoc)
    moreover have "extends fs ?fs" by (auto simp: extends_def entry_snoc)
    ultimately show ?thesis using None "2.IH"(1) [OF None] "2.prems" extends_trans by (auto simp: entry_snoc)
  next
    case (Some e)
    with "2.prems" have "e = FDir" by (cases e) auto
    with Some "2.IH"(2) [OF Some] "2.prems" show ?thesis by auto
  qed
qed (simp add: extends_refl)

lemma entry_set: "p \<noteq> [] \<Longrightarrow> entry (dict_set p e fs) q = (if q = p then Some e else entry fs q)"
  by (simp add: entry_def)

lemma write_file_spec:
  assumes "write_file fs p content = Inr fs'" and "wf_fs fs" and "canonical fs p"
  shows "read_file fs' p = Inr content" and "\<And>q. q \<noteq> p \<Longrightarrow> entry fs' q = entry fs q"
proof -
  have p: "p \<noteq> []" "entry fs (butlast p) = Some FDir" "entry fs p \<noteq> Some FDir" and fs': "fs' = dict_set p (FFile content) fs"
    using assms(1) by (auto simp: write_file_def entry_def split: if_splits option.splits fs_entry.splits)
  show same: "entry fs' q = entry fs q" if "q \<noteq> p" for q using that p(1) by (simp add: fs' entry_set)
  have new: "entry fs' p = Some (FFile content)" using p(1) by (simp add: fs' entry_set)
  have "wf_fs fs'"
    unfolding wf_fs_def
  proof (intro allI impI)
    fix q assume q: "entry fs' q \<noteq> None" "q \<noteq> []"
    then have dir: "entry fs (butlast q) = Some FDir"
      using p(2) assms(2) same [of q] unfolding wf_fs_def by (cases "q = p") auto
    moreover have "butlast q \<noteq> p" using dir p(3) by auto
    ultimately show "entry fs' (butlast q) = Some FDir" by (simp add: same)
  qed
  moreover have "canonical fs' p"
    using assms(3) unfolding canonical_def fs' by (auto simp: entry_set p(1))
  ultimately show "read_file fs' p = Inr content"
    using walk_strict [of fs' "[]" p "[]"] new by (simp add: read_file_def)
qed

lemma read_file_there: "read_file fs p = Inr content \<Longrightarrow> walk True fs [] [] p \<noteq> None"
  by (auto simp: read_file_def split: option.splits)

lemma read_encoded:
  assumes "encode_records lib fmt opts recs = Inr content" and "fmt = Json \<or> fmt = Jsonl"
    and "plain_records recs" and "read_file fs p = Inr content"
  shows "read_records lib fs p fmt default_read = Inr recs"
  using assms read_file_there [OF assms(4)]
  by (auto simp: encode_records_def read_records_def default_read_def read_json_text read_jsonl_text)

lemma walk_strict_there:
  "canonical fs (p @ cs) \<Longrightarrow> walk True fs vis p cs = Some q \<Longrightarrow> entry fs p \<noteq> None \<Longrightarrow> q = p @ cs \<and> entry fs (p @ cs) \<noteq> None"
proof (induction cs arbitrary: p)
  case (Cons c cs)
  have "canonical fs (p @ [c])" using canonical_append [of fs "p @ [c]" cs] Cons.prems(1) by simp
  with Cons.IH [of "p @ [c]"] Cons.prems show ?case
    by (auto simp: canonical_snoc split: option.splits fs_entry.splits if_splits)
qed simp

lemma read_records_extends:
  assumes "extends fs fs1" and "wf_fs fs" and "wf_fs fs1" and "canonical fs p" and "walk True fs [] [] p \<noteq> None"
  shows "read_records lib fs1 p fmt opts = read_records lib fs p fmt opts"
proof -
  have "entry fs p \<noteq> None" "walk True fs [] [] p = Some p"
    using assms(4,5) walk_strict_there [of fs "[]" p] by (auto simp: entry_def split: if_splits)
  moreover from this have "entry fs1 p = entry fs p" using assms(1) by (simp add: extends_def)
  moreover from calculation have "walk True fs1 [] [] p = Some p"
    using walk_strict [of fs1 "[]" p] assms(3,4) extends_canonical [OF assms(1)] by simp
  ultimately show ?thesis by (simp add: read_records_def read_file_def read_json_def read_jsonl_def cong: file_format.case_cong)
qed


definition demo_lib :: frame_lib where
  "demo_lib = \<lparr>fl_read_csv = (\<lambda>_ _. Inr []), fl_read_parquet = (\<lambda>_ _. Inr []), fl_write_csv = (\<lambda>_ _ _. Inr []),
     fl_write_parquet = (\<lambda>_. Inr []), fl_json_error = (\<lambda>_. []), fl_wide = (\<lambda>_. [])\<rparr>"

definition demo_write :: "write_mode \<Rightarrow> write_options" where
  "demo_write m = \<lparr>wo_mode = m, wo_make_parents = True, wo_has_header = True, wo_delimiter = '','', wo_json_indent = Some 2\<rparr>"

definition demo_file_rows :: records where
  "demo_file_rows = [[(''a'', JInt 1), (''b'', JList [JNull, JStr ''x'']) ]]"

lemma wf_demo_fs: "wf_fs demo_fs"
  by (auto simp: wf_fs_def entry_def demo_fs_def split: if_splits)


text \<open>
  A limit of zero is honoured by the JSON reader only: the loop over lines tests the limit after it has taken
  a record.
\<close>

lemma jsonl_limit_zero:
  "jsonl_loop demo_lib [] (Some 0) 1 [] [''1''] = Inr [[(''value'', JInt 1)]]"
  by code_simp

end
