(* ===== verification/File_Nodes.thy ===== *)
theory File_Nodes
  imports Fileio
begin

text \<open>
  The nodes \<open>file_source\<close> and \<open>file_sink\<close> (\<open>etl_core/nodes/file_source.py\<close>, \<open>file_sink.py\<close>): configuration,
  \<open>run\<close> on a file system, and what the access policy guarantees of them.
\<close>

section \<open>file_source\<close>

record file_source_config =
  fs_path :: string
  fs_format :: "file_format option"
  fs_options :: read_options

definition chosen_format :: "file_format option \<Rightarrow> string \<Rightarrow> file_exn + file_format" where
  "chosen_format fmt path = (case fmt of None \<Rightarrow> infer_format path | Some f \<Rightarrow> Inr f)"

definition run_policy :: "node_ctx \<Rightarrow> file_policy" where
  "run_policy ctx = eo_file_policy (rc_options (nc_run ctx))"

text \<open>Format and location, with the exceptions both nodes turn into configuration errors.\<close>

definition open_plan :: "os_env \<Rightarrow> file_system \<Rightarrow> file_format option \<Rightarrow> string \<Rightarrow> node_ctx \<Rightarrow> exn + (file_format \<times> location)" where
  "open_plan env fs fmt path ctx =
     (case sbind (chosen_format fmt path) (\<lambda>f. sbind (policy_resolve env fs (run_policy ctx) path) (\<lambda>p. Inr (f, p))) of
        Inl (FileFormatError m) \<Rightarrow> Inl (ctx_err ctx CONFIG m)
      | Inl (FileAccessError m) \<Rightarrow> Inl (ctx_err ctx CONFIG m)
      | Inl (FileOther e) \<Rightarrow> Inl e
      | Inr fp \<Rightarrow> Inr fp)"

definition read_msg :: "nat \<Rightarrow> string \<Rightarrow> file_format \<Rightarrow> string" where
  "read_msg n path fmt = ''read '' @ nat_str n @ '' record(s) from '' @ path @ '' ('' @ format_name fmt @ '')''"

definition file_source_run :: "os_env \<Rightarrow> frame_lib \<Rightarrow> file_system \<Rightarrow> file_source_config \<Rightarrow> node_inputs \<Rightarrow> node_ctx \<Rightarrow>
    node_outputs logged" where
  "file_source_run env lib fs cfg inputs ctx =
     (case open_plan env fs (fs_format cfg) (fs_path cfg) ctx of
        Inl e \<Rightarrow> (Inl e, [])
      | Inr (fmt, p) \<Rightarrow>
          (case read_records lib fs p fmt (fs_options cfg) of
             Inl (FileAccessError m) \<Rightarrow> (Inl (ctx_err ctx CONFIG m), [])
           | Inl (FileFormatError m) \<Rightarrow> (Inl (ctx_err ctx VALIDATION m), [])
           | Inl (FileOther e) \<Rightarrow> (Inl e, [])
           | Inr recs \<Rightarrow> (Inr [(''out'', recs)], [ctx_log ctx LInfo (read_msg (length recs) (fs_path cfg) fmt) None])))"

section \<open>file_sink\<close>

record file_sink_config =
  fk_path :: string
  fk_format :: "file_format option"
  fk_options :: write_options

definition mode_name :: "write_mode \<Rightarrow> string" where
  "mode_name m = (case m of Overwrite \<Rightarrow> ''overwrite'' | Append \<Rightarrow> ''append'' | ErrorIfExists \<Rightarrow> ''error'')"

definition write_failed_msg :: "string \<Rightarrow> file_format \<Rightarrow> exn \<Rightarrow> string" where
  "write_failed_msg path fmt e =
     ''failed to write '' @ path @ '' ('' @ format_name fmt @ ''): '' @ exn_type e @ '': '' @ exn_str e"

text \<open>
  \<open>os_errors\<close> tells which exceptions of the libraries are a \<open>ValueError\<close> or an \<open>OSError\<close>; the exceptions
  of the operating system in this model are.
\<close>

definition sink_error :: "(exn \<Rightarrow> bool) \<Rightarrow> string \<Rightarrow> file_format \<Rightarrow> node_ctx \<Rightarrow> file_exn \<Rightarrow> exn" where
  "sink_error os_errors path fmt ctx e =
     (case e of
        FileAccessError m \<Rightarrow> ctx_err ctx CONFIG m
      | FileFormatError m \<Rightarrow> ctx_err ctx CONFIG (write_failed_msg path fmt (OtherException ''FileFormatError'' m))
      | FileOther x \<Rightarrow> if os_errors x then ctx_err ctx CONFIG (write_failed_msg path fmt x) else x)"

definition sink_msg :: "records \<Rightarrow> nat \<Rightarrow> file_sink_config \<Rightarrow> file_format \<Rightarrow> node_ctx \<Rightarrow> log_event" where
  "sink_msg recs written cfg fmt ctx =
     (if recs = []
      then ctx_log ctx LWarning (''no input records; wrote an empty '' @ format_name fmt @ '' file to '' @ fk_path cfg) None
      else ctx_log ctx LInfo (''wrote '' @ nat_str written @ '' record(s) to '' @ fk_path cfg @ '' ('' @ format_name fmt @
             '', mode='' @ mode_name (wo_mode (fk_options cfg)) @ '')'') None)"

definition file_sink_run :: "(exn \<Rightarrow> bool) \<Rightarrow> os_env \<Rightarrow> frame_lib \<Rightarrow> file_system \<Rightarrow> file_sink_config \<Rightarrow> records \<Rightarrow> node_ctx \<Rightarrow>
    node_outputs logged \<times> file_system" where
  "file_sink_run os_errors env lib fs cfg recs ctx =
     (case open_plan env fs (fk_format cfg) (fk_path cfg) ctx of
        Inl e \<Rightarrow> ((Inl e, []), fs)
      | Inr (fmt, p) \<Rightarrow>
          (case write_records lib fs recs p fmt (fk_options cfg) of
             (Inl e, fs') \<Rightarrow> ((Inl (sink_error os_errors (fk_path cfg) fmt ctx e), []), fs')
           | (Inr written, fs') \<Rightarrow> ((Inr [(''out'', recs)], [sink_msg recs written cfg fmt ctx]), fs')))"

section \<open>Confinement\<close>

lemma make_dirs_changes:
  "make_dirs fs p cs = Inr fs' \<Longrightarrow> entry fs' q \<noteq> entry fs q \<Longrightarrow>
     take (length q) (p @ cs) = q \<and> entry fs q = None \<and> entry fs' q = Some FDir"
proof (induction fs p cs arbitrary: fs' rule: make_dirs.induct)
  case (2 fs p c cs)
  show ?case
  proof (cases "entry fs (p @ [c])")
    case None
    let ?fs = "fs @ [(p @ [c], FDir)]"
    show ?thesis
    proof (cases "entry fs' q = entry ?fs q")
      case True
      with "2.prems"(2) have "q = p @ [c]" by (auto simp: entry_snoc split: if_splits)
      with True None show ?thesis by (simp add: entry_snoc)
    next
      case False
      with None "2.IH"(1) [OF None, of fs'] "2.prems"(1) show ?thesis by (auto simp: entry_snoc split: if_splits)
    qed
  next
    case (Some e)
    with "2.prems"(1) have "e = FDir" by (cases e) (auto split: if_splits)
    with Some "2.IH"(2) [OF Some, of fs'] "2.prems" show ?thesis by simp
  qed
qed simp

lemma write_records_changes:
  assumes "write_records lib fs recs p fmt opts = (res, fs')" and "entry fs' q \<noteq> entry fs q"
  shows "q = p \<or> take (length q) p = q \<and> entry fs q = None \<and> entry fs' q = Some FDir"
proof (rule ccontr)
  assume no: "\<not> ?thesis"
  have keep: "entry fs2 q = entry fs1 q" if "write_file fs1 p content = Inr fs2" for fs1 fs2 content
    using that no by (auto simp: write_file_def entry_def split: if_splits option.splits fs_entry.splits)
  obtain fs1 where dirs: "(if wo_make_parents opts then make_dirs fs [] (butlast p) else Inr fs) = Inr fs1"
      and fs1: "entry fs' q = entry fs1 q"
    using assms keep unfolding write_records_def Let_def by (auto simp: sbind_eq_Inr split: if_splits sum.splits)
  with assms(2) make_dirs_changes [of fs "[]" "butlast p" fs1 q]
  have "take (length q) (butlast p) = q" "entry fs q = None" "entry fs' q = Some FDir" by (auto split: if_splits)
  moreover from this(1) have "take (length q) p = q"
    by (metis append_butlast_last_id append_eq_conv_conj append_take_drop_id butlast.simps(1) append_assoc)
  ultimately show False using no by blast
qed

definition allowed_root :: "os_env \<Rightarrow> file_system \<Rightarrow> file_policy \<Rightarrow> location \<Rightarrow> bool" where
  "allowed_root env fs policy r \<longleftrightarrow> canonical fs r \<and>
     (\<exists>base \<in> set (fp_allowed_dirs policy). \<exists>b. expanduser env (parse_path base) = Inr b \<and> path_resolve env fs b = Inr r)"

lemma open_plan_confined:
  assumes "open_plan env fs fmt path ctx = Inr (f, p)" and "fp_allowed_dirs (run_policy ctx) \<noteq> []"
  shows "canonical fs p \<and> (\<exists>r. allowed_root env fs (run_policy ctx) r \<and> take (length r) p = r)"
proof -
  have "policy_resolve env fs (run_policy ctx) path = Inr p"
    using assms(1) by (auto simp: open_plan_def sbind_eq_Inr split: sum.splits file_exn.splits)
  with policy_resolve_confined [OF this assms(2)] policy_resolve_canonical show ?thesis
    unfolding allowed_root_def by blast
qed

text \<open>
  C31. With allowed directories in the run's file policy the file nodes cannot leave them, whatever path they are
  configured with. A sink, whether it succeeds or fails, changes only locations inside the real location of an
  allowed directory, apart from creating missing ancestors of that directory. A source that delivers records
  has read them at a location inside an allowed directory that is reached without following a link.
\<close>

theorem file_nodes_confined:
  assumes "fp_allowed_dirs (run_policy ctx) \<noteq> []"
  shows "(\<forall>q. entry (snd (file_sink_run os_errors env lib fs sink recs ctx)) q \<noteq> entry fs q \<longrightarrow>
      (\<exists>r. allowed_root env fs (run_policy ctx) r \<and>
        (take (length r) q = r \<or>
         take (length q) r = q \<and> entry fs q = None \<and>
         entry (snd (file_sink_run os_errors env lib fs sink recs ctx)) q = Some FDir))) \<and>
    (\<forall>out. fst (file_source_run env lib fs source inputs ctx) = Inr out \<longrightarrow>
      (\<exists>p r fmt data. allowed_root env fs (run_policy ctx) r \<and> take (length r) p = r \<and> canonical fs p \<and>
        read_records lib fs p fmt (fs_options source) = Inr data \<and> out = [(''out'', data)]))"
proof (intro conjI allI impI)
  fix q
  assume changed: "entry (snd (file_sink_run os_errors env lib fs sink recs ctx)) q \<noteq> entry fs q"
  then obtain fmt p where plan: "open_plan env fs (fk_format sink) (fk_path sink) ctx = Inr (fmt, p)"
    by (auto simp: file_sink_run_def split: sum.splits)
  define fs' where "fs' = snd (write_records lib fs recs p fmt (fk_options sink))"
  have fs': "snd (file_sink_run os_errors env lib fs sink recs ctx) = fs'"
    by (auto simp: file_sink_run_def plan fs'_def split: sum.splits prod.splits)
  obtain r where r: "allowed_root env fs (run_policy ctx) r" "take (length r) p = r"
    using open_plan_confined [OF plan assms] by blast
  have "q = p \<or> take (length q) p = q \<and> entry fs q = None \<and> entry fs' q = Some FDir"
    using changed write_records_changes [of lib fs recs p fmt "fk_options sink" "fst (write_records lib fs recs p fmt (fk_options sink))" fs' q]
    unfolding fs' by (simp add: fs'_def)
  moreover have "take (length r) q = r \<or> take (length q) r = q" if "take (length q) p = q"
    using that r(2) by (metis linorder_le_cases min.absorb1 min.absorb2 take_take)
  ultimately show "\<exists>r. allowed_root env fs (run_policy ctx) r \<and>
      (take (length r) q = r \<or> take (length q) r = q \<and> entry fs q = None \<and>
       entry (snd (file_sink_run os_errors env lib fs sink recs ctx)) q = Some FDir)"
    unfolding fs' using r by blast
next
  fix out
  assume "fst (file_source_run env lib fs source inputs ctx) = Inr out"
  then obtain fmt p data where plan: "open_plan env fs (fs_format source) (fs_path source) ctx = Inr (fmt, p)"
    and data: "read_records lib fs p fmt (fs_options source) = Inr data" "out = [(''out'', data)]"
    by (auto simp: file_source_run_def split: sum.splits file_exn.splits)
  with open_plan_confined [OF plan assms] show "\<exists>p r fmt data. allowed_root env fs (run_policy ctx) r \<and>
      take (length r) p = r \<and> canonical fs p \<and> read_records lib fs p fmt (fs_options source) = Inr data \<and> out = [(''out'', data)]"
    by blast
qed

definition demo_file_ctx :: node_ctx where
  "demo_file_ctx = \<lparr>nc_run = \<lparr>rc_secrets = [], rc_options = default_options\<lparr>eo_file_policy := \<lparr>fp_allowed_dirs = [''in'']\<rparr>\<rparr>,
     rc_redactor = []\<rparr>, nc_node_id = ''w'', nc_node_type = ''file_sink'', nc_iter = None\<rparr>"

definition demo_sink :: "string \<Rightarrow> file_sink_config" where
  "demo_sink path = \<lparr>fk_path = path, fk_format = None, fk_options = demo_write Overwrite\<rparr>"

text \<open>Through the link \<open>data/up\<close> into the allowed directory; a path that climbs out of it is refused.\<close>

theorem file_nodes_confined_witness:
  "snd (file_sink_run (\<lambda>_. True) demo_env demo_lib demo_fs (demo_sink ''data/up/new.json'') demo_file_rows demo_file_ctx) =
     demo_fs @ [([''srv'', ''in'', ''new.json''], FFile (dumps (Some 2) (records_json demo_file_rows)))] \<and>
   snd (file_sink_run (\<lambda>_. True) demo_env demo_lib demo_fs (demo_sink ''in/../new.json'') demo_file_rows demo_file_ctx) = demo_fs \<and>
   (\<exists>r. allowed_root demo_env demo_fs (run_policy demo_file_ctx) r \<and> take (length r) [''srv'', ''in'', ''new.json''] = r)"
proof -
  have a: "snd (file_sink_run (\<lambda>_. True) demo_env demo_lib demo_fs (demo_sink ''data/up/new.json'') demo_file_rows demo_file_ctx) =
      demo_fs @ [([''srv'', ''in'', ''new.json''], FFile (dumps (Some 2) (records_json demo_file_rows)))]"
    and b: "snd (file_sink_run (\<lambda>_. True) demo_env demo_lib demo_fs (demo_sink ''in/../new.json'') demo_file_rows demo_file_ctx) = demo_fs"
    by code_simp+
  have policy: "fp_allowed_dirs (run_policy demo_file_ctx) \<noteq> []" by (simp add: run_policy_def demo_file_ctx_def)
  let ?q = "[''srv'', ''in'', ''new.json'']"
  have "entry demo_fs ?q = None" "entry (demo_fs @ [(?q, FFile (dumps (Some 2) (records_json demo_file_rows)))]) ?q \<noteq> Some FDir"
    "entry (demo_fs @ [(?q, FFile (dumps (Some 2) (records_json demo_file_rows)))]) ?q \<noteq> None"
    by (simp_all add: demo_fs_def entry_def)
  with file_nodes_confined [OF policy, of "\<lambda>_. True" demo_env demo_lib demo_fs "demo_sink ''data/up/new.json''" demo_file_rows, THEN conjunct1, rule_format, of ?q] a b
  show ?thesis by auto
qed

end
