(* ===== verification/Crypto.thy ===== *)
theory Crypto
  imports Json_Text Url
begin

text \<open>
  \<open>etl_core/crypto.py\<close>: encodings of keys and tokens, the two ciphers and their common interface.

  The primitives of the \<open>cryptography\<close> package (AES-GCM, Fernet) are fields of \<open>crypto_lib\<close>, and so are the
  texts of decoding errors and the decoding of UTF-8, which can give characters outside the model's text.
  What the code relies on is \<open>crypto_laws\<close>: decryption inverts encryption, an AES-GCM ciphertext is sixteen
  bytes longer than the plaintext. Base64 and hexadecimal are those of the standard library. The random
  bytes of an encryption are an argument.
\<close>

section \<open>Base64 and hexadecimal\<close>

type_synonym bytes = "nat list"

definition bytes_ok :: "bytes \<Rightarrow> bool" where
  "bytes_ok bs \<longleftrightarrow> list_all (\<lambda>b. b < 256) bs"

definition b64_val :: "char \<Rightarrow> nat option" where
  "b64_val c = (let n = of_char c :: nat in
     if 65 \<le> n \<and> n \<le> 90 then Some (n - 65) else if 97 \<le> n \<and> n \<le> 122 then Some (n - 71)
     else if 48 \<le> n \<and> n \<le> 57 then Some (n + 4) else if n = 43 then Some 62 else if n = 47 then Some 63 else None)"

text \<open>\<open>base64.b64decode(s, validate=True)\<close>; \<^const>\<open>None\<close> is the \<open>binascii.Error\<close>.\<close>

fun b64decode :: "string \<Rightarrow> bytes option" where
  "b64decode [] = Some []"
| "b64decode (a # b # c # d # rest) =
     (case (b64_val a, b64_val b) of
        (Some x, Some y) \<Rightarrow>
          if c = CHR ''='' then (if d = CHR ''='' \<and> rest = [] then Some [x * 4 + y div 16] else None)
          else (case b64_val c of
              None \<Rightarrow> None
            | Some z \<Rightarrow>
                if d = CHR ''='' then (if rest = [] then Some [x * 4 + y div 16, y mod 16 * 16 + z div 4] else None)
                else (case b64_val d of
                    None \<Rightarrow> None
                  | Some w \<Rightarrow>
                      map_option ((@) [x * 4 + y div 16, y mod 16 * 16 + z div 4, z mod 4 * 64 + w]) (b64decode rest)))
      | _ \<Rightarrow> None)"
| "b64decode _ = None"

definition is_hex_space :: "char \<Rightarrow> bool" where
  "is_hex_space c \<longleftrightarrow> (of_char c :: nat) \<in> {9, 10, 11, 12, 13, 32}"

fun fromhex :: "string \<Rightarrow> bytes option" where
  "fromhex [] = Some []"
| "fromhex (c # cs) =
     (if is_hex_space c then fromhex cs
      else case cs of
          [] \<Rightarrow> None
        | d # ds \<Rightarrow>
            (case (hex_digit c, hex_digit d) of
               (Some x, Some y) \<Rightarrow> map_option (Cons (x * 16 + y)) (fromhex ds)
             | _ \<Rightarrow> None))"

definition tohex :: "bytes \<Rightarrow> string" where
  "tohex bs = concat (map (\<lambda>b. [hex_char (b div 16), hex_char (b mod 16)]) bs)"

lemma b64_val_char:
  assumes "n < 64"
  shows "b64_val (b64_char n) = Some n" and "b64_char n \<noteq> CHR ''=''"
proof -
  show "b64_val (b64_char n) = Some n" using assms by (auto simp: b64_val_def b64_char_def Let_def)
  moreover have "b64_val CHR ''='' = None" by (simp add: b64_val_def)
  ultimately show "b64_char n \<noteq> CHR ''=''" by auto
qed

lemma div_16_less: "b < 256 \<Longrightarrow> b div 16 < (16 :: nat)"
  by (simp add: less_mult_imp_div_less)

lemma b64decode_encode: "bytes_ok bs \<Longrightarrow> b64decode (b64encode bs) = Some bs"
proof (induction bs rule: b64encode.induct)
  case (2 a)
  then have "a div 4 < 64" "a mod 4 * 16 < 64" by (auto simp: bytes_ok_def)
  then show ?case by (simp add: b64_val_char)
next
  case (3 a b)
  then have "a div 4 < 64" "a mod 4 * 16 + b div 16 < 64" "b mod 16 * 4 < 64" by (auto simp: bytes_ok_def)
  moreover have "b div 16 < 16" using "3.prems" div_16_less by (simp add: bytes_ok_def)
  then have "b div 16 div 16 = 0" "b div 16 mod 16 * 16 + b mod 16 = b" using div_mult_mod_eq [of b 16] by simp_all
  ultimately show ?case using "3.prems" by (simp add: b64_val_char bytes_ok_def)
next
  case (4 a b c rest)
  then have "a div 4 < 64" "a mod 4 * 16 + b div 16 < 64" "b mod 16 * 4 + c div 64 < 64" "c mod 64 < 64" "c div 64 < 4" "b div 16 < 16"
    using div_16_less [of b] by (auto simp: bytes_ok_def)
  then show ?case using 4 by (simp add: b64_val_char bytes_ok_def)
qed simp

lemma fromhex_tohex: "bytes_ok bs \<Longrightarrow> fromhex (tohex bs) = Some bs"
proof (induction bs)
  case (Cons b bs)
  have "b div 16 < 16" using Cons.prems div_16_less by (simp add: bytes_ok_def)
  moreover have "\<not> is_hex_space (hex_char k)" if "k < 16" for k
    using that by (auto simp: is_hex_space_def hex_char_def)
  ultimately show ?case using Cons by (simp add: tohex_def bytes_ok_def hex_digit_char)
qed (simp add: tohex_def)

lemma strip_ws_tohex: "bytes_ok bs \<Longrightarrow> strip_ws (tohex bs) = tohex bs"
proof -
  assume ok: "bytes_ok bs"
  have "\<not> is_space (hex_char k)" if "k < 16" for k using that by (auto simp: is_space_def hex_char_def Let_def)
  then have "\<forall>c \<in> set (tohex bs). \<not> is_space c"
    using ok div_16_less by (auto simp: tohex_def bytes_ok_def list_all_iff)
  then have "dropWhile is_space s = s" if "set s \<subseteq> set (tohex bs)" for s using that by (cases s) auto
  then show ?thesis by (simp add: strip_ws_def)
qed

section \<open>Ciphers\<close>

record crypto_lib =
  cy_gcm_encrypt :: "bytes \<Rightarrow> bytes \<Rightarrow> bytes \<Rightarrow> bytes option \<Rightarrow> bytes"
  cy_gcm_decrypt :: "bytes \<Rightarrow> bytes \<Rightarrow> bytes \<Rightarrow> bytes option \<Rightarrow> bytes option"
  cy_fernet_key :: "string \<Rightarrow> string option"
  cy_fernet_encrypt :: "string \<Rightarrow> bytes \<Rightarrow> bytes \<Rightarrow> string"
  cy_fernet_decrypt :: "string \<Rightarrow> string \<Rightarrow> bytes option"
  cy_decode_error :: "string \<Rightarrow> string \<Rightarrow> string"
  cy_utf8_decode :: "bytes \<Rightarrow> string option"
  cy_json_error :: "string \<Rightarrow> string"
  cy_wide :: "nat \<Rightarrow> string"

datatype key_encoding = EncBase64 | EncHex | EncRaw

fun encoding_name :: "key_encoding \<Rightarrow> string" where
  "encoding_name EncBase64 = ''base64''"
| "encoding_name EncHex = ''hex''"
| "encoding_name EncRaw = ''raw''"

definition decode_bytes :: "crypto_lib \<Rightarrow> string \<Rightarrow> key_encoding \<Rightarrow> string \<Rightarrow> string + bytes" where
  "decode_bytes lib value enc what =
     (case (case enc of EncBase64 \<Rightarrow> b64decode value | EncHex \<Rightarrow> fromhex (strip_ws value) | EncRaw \<Rightarrow> Some (utf8 value)) of
        Some bs \<Rightarrow> Inr bs
      | None \<Rightarrow> Inl (what @ '' is not valid '' @ encoding_name enc @ '': '' @ cy_decode_error lib (encoding_name enc) value))"

datatype cipher_t = AesGcmCipher bytes key_encoding "bytes option" | FernetCipher string

definition AESGCM_NONCE_BYTES :: nat where "AESGCM_NONCE_BYTES = 12"

definition AESGCM_KEY_SIZES :: "nat list" where "AESGCM_KEY_SIZES = [16, 24, 32]"

definition aesgcm_init :: "bytes \<Rightarrow> key_encoding \<Rightarrow> bytes option \<Rightarrow> string + cipher_t" where
  "aesgcm_init key token_encoding aad =
     (if length key \<notin> set AESGCM_KEY_SIZES
      then Inl (''AES-GCM key must be '' @ join_with ''/'' (map nat_str AESGCM_KEY_SIZES) @ '' bytes (got '' @
             nat_str (length key) @ ''); check the key and its encoding'')
      else Inr (AesGcmCipher key token_encoding aad))"

definition fernet_init :: "crypto_lib \<Rightarrow> string \<Rightarrow> string + cipher_t" where
  "fernet_init lib key =
     (case cy_fernet_key lib key of
        None \<Rightarrow> Inr (FernetCipher key)
      | Some err \<Rightarrow> Inl (''invalid Fernet key: '' @ err))"

fun cipher_decrypt :: "crypto_lib \<Rightarrow> cipher_t \<Rightarrow> string \<Rightarrow> string + bytes" where
  "cipher_decrypt lib (AesGcmCipher key enc aad) token =
     sbind (decode_bytes lib token enc ''ciphertext token'') (\<lambda>raw.
       if length raw < AESGCM_NONCE_BYTES + 16
       then Inl ''AES-GCM token too short to contain a nonce, ciphertext and tag''
       else (case cy_gcm_decrypt lib key (take AESGCM_NONCE_BYTES raw) (drop AESGCM_NONCE_BYTES raw) aad of
           Some p \<Rightarrow> Inr p
         | None \<Rightarrow> Inl ''AES-GCM authentication failed: wrong key/AAD or corrupted ciphertext''))"
| "cipher_decrypt lib (FernetCipher key) token =
     (case cy_fernet_decrypt lib key token of
        Some p \<Rightarrow> Inr p
      | None \<Rightarrow> Inl ''Fernet decryption failed: wrong key or corrupted/expired token'')"

fun cipher_encrypt :: "crypto_lib \<Rightarrow> cipher_t \<Rightarrow> bytes \<Rightarrow> bytes \<Rightarrow> string" where
  "cipher_encrypt lib (AesGcmCipher key enc aad) random plaintext =
     (let raw = random @ cy_gcm_encrypt lib key random plaintext aad
      in if enc = EncHex then tohex raw else b64encode raw)"
| "cipher_encrypt lib (FernetCipher key) random plaintext = cy_fernet_encrypt lib key random plaintext"

definition make_cipher :: "crypto_lib \<Rightarrow> string \<Rightarrow> string \<Rightarrow> key_encoding \<Rightarrow> key_encoding \<Rightarrow> bytes option \<Rightarrow> string + cipher_t" where
  "make_cipher lib algo key_material key_enc token_enc aad =
     (if algo = ''fernet'' then fernet_init lib key_material
      else if algo = ''aes-gcm'' then
        sbind (decode_bytes lib key_material key_enc ''AES-GCM key'') (\<lambda>key. aesgcm_init key token_enc aad)
      else Inl (''unknown algorithm '' @ repr_str algo @ '' (expected 'aes-gcm' or 'fernet')''))"

section \<open>The interface\<close>

text \<open>\<open>Cipher\<close>: what was encrypted with usable random bytes decrypts to the plaintext.\<close>

locale cipher =
  fixes encrypt :: "bytes \<Rightarrow> bytes \<Rightarrow> string" and decrypt :: "string \<Rightarrow> string + bytes"
    and usable :: "bytes \<Rightarrow> bytes \<Rightarrow> bool"
  assumes decrypt_encrypt: "usable random p \<Longrightarrow> decrypt (encrypt random p) = Inr p"
begin

lemma encrypt_inj:
  assumes "usable r p" and "usable r' p'" and "encrypt r p = encrypt r' p'"
  shows "p = p'"
  using decrypt_encrypt [OF assms(1)] decrypt_encrypt [OF assms(2)] assms(3) by simp

end

definition crypto_laws :: "crypto_lib \<Rightarrow> bool" where
  "crypto_laws lib \<longleftrightarrow>
     (\<forall>k n p a. bytes_ok p \<longrightarrow> cy_gcm_decrypt lib k n (cy_gcm_encrypt lib k n p a) a = Some p \<and>
        length (cy_gcm_encrypt lib k n p a) = length p + 16 \<and> bytes_ok (cy_gcm_encrypt lib k n p a)) \<and>
     (\<forall>k r p. bytes_ok p \<longrightarrow> cy_fernet_decrypt lib k (cy_fernet_encrypt lib k r p) = Some p) \<and>
     (\<forall>s. cy_utf8_decode lib (utf8 s) = Some s)"

fun cipher_usable :: "crypto_lib \<Rightarrow> cipher_t \<Rightarrow> bytes \<Rightarrow> bytes \<Rightarrow> bool" where
  "cipher_usable lib (AesGcmCipher key enc aad) random p \<longleftrightarrow>
     crypto_laws lib \<and> bytes_ok p \<and> bytes_ok random \<and> length random = AESGCM_NONCE_BYTES \<and> enc \<noteq> EncRaw"
| "cipher_usable lib (FernetCipher key) random p \<longleftrightarrow> crypto_laws lib \<and> bytes_ok p"

lemma cipher_round_trip:
  "cipher_usable lib c random p \<Longrightarrow> cipher_decrypt lib c (cipher_encrypt lib c random p) = Inr p"
proof (cases c)
  case (AesGcmCipher key enc aad)
  assume "cipher_usable lib c random p"
  then have ok: "crypto_laws lib" "bytes_ok p" "bytes_ok random" "length random = 12" "enc \<noteq> EncRaw"
    by (simp_all add: AesGcmCipher AESGCM_NONCE_BYTES_def)
  define raw where "raw = random @ cy_gcm_encrypt lib key random p aad"
  have raw: "bytes_ok raw" "28 \<le> length raw" "take 12 raw = random" "drop 12 raw = cy_gcm_encrypt lib key random p aad"
    using ok by (auto simp: raw_def crypto_laws_def bytes_ok_def)
  have "decode_bytes lib (cipher_encrypt lib c random p) enc ''ciphertext token'' = Inr raw"
    using raw(1) ok(5) by (cases enc)
      (simp_all add: AesGcmCipher decode_bytes_def raw_def [symmetric] b64decode_encode fromhex_tohex strip_ws_tohex)
  moreover have "cy_gcm_decrypt lib key (take 12 raw) (drop 12 raw) aad = Some p"
    using ok(1,2) by (simp add: raw(3,4) crypto_laws_def)
  ultimately show ?thesis using raw(2) unfolding AesGcmCipher cipher_decrypt.simps by (simp add: AESGCM_NONCE_BYTES_def)
qed (auto simp: crypto_laws_def)

interpretation model_cipher: cipher "cipher_encrypt lib c" "cipher_decrypt lib c" "cipher_usable lib c" for lib c
  by unfold_locales (rule cipher_round_trip)

text \<open>A library that meets the laws, for examples: no secrecy, but everything decrypts to what was encrypted.\<close>

definition demo_crypto :: crypto_lib where
  "demo_crypto = \<lparr>cy_gcm_encrypt = (\<lambda>k n p a. p @ replicate 16 0), cy_gcm_decrypt = (\<lambda>k n p a. Some (take (length p - 16) p)),
     cy_fernet_key = (\<lambda>k. None), cy_fernet_encrypt = (\<lambda>k r p. b64encode p), cy_fernet_decrypt = (\<lambda>k t. b64decode t),
     cy_decode_error = (\<lambda>_ _. []), cy_utf8_decode = (\<lambda>b. Some (latin_decode b)), cy_json_error = (\<lambda>_. []), cy_wide = (\<lambda>_. [])\<rparr>"

lemma demo_crypto_laws: "crypto_laws demo_crypto"
  by (auto simp: crypto_laws_def demo_crypto_def b64decode_encode latin_decode_utf8 bytes_ok_def list_all_iff)

end
