(* ===== verification/Decrypt_Node.thy ===== *)
theory Decrypt_Node
  imports Crypto Paths Run_Context
begin

text \<open>
  \<open>etl_core/nodes/decrypt.py\<close>: field-level decryption. A record is copied and its configured fields are
  replaced one after the other; the first problem ends the node with an error.
\<close>

section \<open>The node\<close>

datatype decrypt_output = OutText | OutJson | OutBase64
datatype on_missing = MissError | MissSkip

record decrypt_config =
  dc_algo :: string
  dc_secret_ref :: string
  dc_fields :: "string list"
  dc_key_encoding :: key_encoding
  dc_token_encoding :: key_encoding
  dc_aad :: "string option"
  dc_output :: decrypt_output
  dc_on_missing :: on_missing

definition decrypt_error :: "node_ctx \<Rightarrow> string \<Rightarrow> nat \<Rightarrow> string \<Rightarrow> exn" where
  "decrypt_error ctx field index message =
     ctx_error ctx DECRYPTION message None None 1 (Some [(''field'', JStr field), (''record_index'', JInt (int index))])"

definition field_msg :: "string \<Rightarrow> nat \<Rightarrow> string \<Rightarrow> string" where
  "field_msg field index what = ''field '' @ repr_str field @ '' in record '' @ nat_str index @ what"

definition decrypt_value :: "crypto_lib \<Rightarrow> cipher_t \<Rightarrow> string \<Rightarrow> json \<Rightarrow> nat \<Rightarrow> decrypt_config \<Rightarrow> node_ctx \<Rightarrow> exn + json" where
  "decrypt_value lib c field token index cfg ctx =
     (case token of
        JStr t \<Rightarrow>
          (case cipher_decrypt lib c t of
             Inl m \<Rightarrow> Inl (decrypt_error ctx field index (field_msg field index ('': '' @ m)))
           | Inr plaintext \<Rightarrow>
               if dc_output cfg = OutBase64 then Inr (JStr (b64encode plaintext))
               else (case cy_utf8_decode lib plaintext of
                   None \<Rightarrow> Inl (decrypt_error ctx field index (field_msg field index
                     '': plaintext is not valid UTF-8 (use output 'bytes_base64' for binary data)''))
                 | Some s \<Rightarrow>
                     if dc_output cfg = OutJson then
                       (case json_loads (cy_wide lib) s of
                          Some v \<Rightarrow> Inr v
                        | None \<Rightarrow> Inl (decrypt_error ctx field index (field_msg field index
                            ('': decrypted text is not valid JSON: '' @ cy_json_error lib s))))
                     else Inr (JStr s)))
      | _ \<Rightarrow> Inl (decrypt_error ctx field index (field_msg field index
               ('' is '' @ type_name token @ '', not a string token to decrypt''))))"

fun decrypt_fields :: "crypto_lib \<Rightarrow> cipher_t \<Rightarrow> nat \<Rightarrow> decrypt_config \<Rightarrow> node_ctx \<Rightarrow> string list \<Rightarrow> json \<Rightarrow> nat \<Rightarrow> exn + (json \<times> nat)" where
  "decrypt_fields lib c index cfg ctx [] rec n = Inr (rec, n)"
| "decrypt_fields lib c index cfg ctx (field # rest) rec n =
     sbind (get_path_opt rec (split_path field)) (\<lambda>found.
       case found of
         None \<Rightarrow>
           if dc_on_missing cfg = MissSkip then decrypt_fields lib c index cfg ctx rest rec n
           else Inl (decrypt_error ctx field index (''field '' @ repr_str field @ '' is missing from record '' @ nat_str index))
       | Some token \<Rightarrow>
           sbind (decrypt_value lib c field token index cfg ctx) (\<lambda>v.
             sbind (set_path rec (split_path field) v) (\<lambda>rec'.
               decrypt_fields lib c index cfg ctx rest rec' (Suc n))))"

fun decrypt_records :: "crypto_lib \<Rightarrow> cipher_t \<Rightarrow> nat \<Rightarrow> decrypt_config \<Rightarrow> node_ctx \<Rightarrow> records \<Rightarrow> nat \<Rightarrow> exn + (json list \<times> nat)" where
  "decrypt_records lib c index cfg ctx [] n = Inr ([], n)"
| "decrypt_records lib c index cfg ctx (r # rs) n =
     sbind (decrypt_fields lib c index cfg ctx (dc_fields cfg) (JDict r) n) (\<lambda>(v, n).
       sbind (decrypt_records lib c (Suc index) cfg ctx rs n) (\<lambda>(vs, n). Inr (v # vs, n)))"

definition as_record :: "json \<Rightarrow> record_t" where
  "as_record v = (case v of JDict d \<Rightarrow> d | _ \<Rightarrow> [])"

definition decrypt_run :: "crypto_lib \<Rightarrow> decrypt_config \<Rightarrow> records \<Rightarrow> node_ctx \<Rightarrow> node_outputs logged" where
  "decrypt_run lib cfg recs ctx =
     (case get_secret ctx (dc_secret_ref cfg) of
        Inl e \<Rightarrow> (Inl e, [])
      | Inr key_material \<Rightarrow>
          (case make_cipher lib (dc_algo cfg) key_material (dc_key_encoding cfg) (dc_token_encoding cfg) (map_option utf8 (dc_aad cfg)) of
             Inl m \<Rightarrow> (Inl (ctx_err ctx DECRYPTION m), [])
           | Inr c \<Rightarrow>
               (case decrypt_records lib c 0 cfg ctx recs 0 of
                  Inl e \<Rightarrow> (Inl e, [])
                | Inr (vs, n) \<Rightarrow>
                    (Inr [(''out'', map as_record vs)],
                     [ctx_log ctx LInfo (''decrypted '' @ nat_str n @ '' field value(s) across '' @ nat_str (length vs) @ '' record(s)'') None]))))"

section \<open>Decryption restores what was encrypted\<close>

definition text_of :: "json \<Rightarrow> string" where
  "text_of v = (case v of JStr s \<Rightarrow> s | _ \<Rightarrow> [])"

text \<open>A record with the fields in \<open>F\<close> encrypted, \<open>random\<close> giving the random bytes of each field.\<close>

definition encrypt_record :: "crypto_lib \<Rightarrow> cipher_t \<Rightarrow> (string \<Rightarrow> bytes) \<Rightarrow> string set \<Rightarrow> record_t \<Rightarrow> record_t" where
  "encrypt_record lib c random F r =
     map (\<lambda>(k, v). (k, if k \<in> F then JStr (cipher_encrypt lib c (random k) (utf8 (text_of v))) else v)) r"

lemma encrypt_record_get:
  "dict_get (encrypt_record lib c random F r) k =
     map_option (\<lambda>v. if k \<in> F then JStr (cipher_encrypt lib c (random k) (utf8 (text_of v))) else v) (dict_get r k)"
  unfolding encrypt_record_def by (induction r) auto

lemma encrypt_record_restore:
  assumes "wf_dict r" and "dict_get r f = Some v"
  shows "dict_set f v (encrypt_record lib c random F r) = encrypt_record lib c random (F - {f}) r"
  using assms unfolding encrypt_record_def wf_dict_def
  by (induction r) (auto intro!: map_cong simp: image_iff, force)

definition top_level :: "string \<Rightarrow> bool" where
  "top_level f \<longleftrightarrow> f \<noteq> [] \<and> CHR ''.'' \<notin> set f"

lemma split_path_top: "top_level f \<Longrightarrow> split_path f = [f]"
  using split_path_join [of "[f]"] by (simp add: top_level_def)

lemma top_level_paths:
  "get_path_opt (JDict d) [f] = Inr (dict_get d f)"
  "dict_get d f = Some w \<Longrightarrow> set_path (JDict d) [f] v = Inr (JDict (dict_set f v d))"
  by (auto simp: get_path_opt_def set_path_def set_leaf_def split: option.splits)

text \<open>What the round trip needs of a record: its configured fields hold texts that can be encrypted.\<close>

definition encryptable :: "crypto_lib \<Rightarrow> cipher_t \<Rightarrow> (string \<Rightarrow> bytes) \<Rightarrow> string list \<Rightarrow> record_t \<Rightarrow> bool" where
  "encryptable lib c random fs r \<longleftrightarrow> wf_dict r \<and>
     list_all (\<lambda>f. case dict_get r f of Some (JStr t) \<Rightarrow> cipher_usable lib c (random f) (utf8 t) | _ \<Rightarrow> False) fs"

lemma usable_laws: "cipher_usable lib c random p \<Longrightarrow> crypto_laws lib"
  by (cases c) auto

lemma decrypt_fields_restore:
  assumes "encryptable lib c random fs r" and "dc_output cfg = OutText" and "list_all top_level fs" and "distinct fs"
  shows "decrypt_fields lib c index cfg ctx fs (JDict (encrypt_record lib c random (set fs) r)) n =
    Inr (JDict r, n + length fs)"
  using assms
proof (induction fs arbitrary: n)
  case Nil
  then show ?case by (simp add: encrypt_record_def)
next
  case (Cons f fs)
  from Cons.prems(1) obtain t where t: "dict_get r f = Some (JStr t)" "cipher_usable lib c (random f) (utf8 t)"
    by (auto simp: encryptable_def split: option.splits json.splits)
  have "cy_utf8_decode lib (utf8 t) = Some t" using usable_laws [OF t(2)] by (simp add: crypto_laws_def)
  then have v: "decrypt_value lib c f (JStr (cipher_encrypt lib c (random f) (utf8 t))) index cfg ctx = Inr (JStr t)"
    using Cons.prems(2) model_cipher.decrypt_encrypt [OF t(2)] by (simp add: decrypt_value_def)
  have path: "split_path f = [f]" using Cons.prems(3) by (simp add: split_path_top)
  have "insert f (set fs) - {f} = set fs" using Cons.prems(4) by auto
  then have "dict_set f (JStr t) (encrypt_record lib c random (insert f (set fs)) r) = encrypt_record lib c random (set fs) r"
    using encrypt_record_restore [OF _ t(1), of lib c random "insert f (set fs)"] Cons.prems(1) by (simp add: encryptable_def)
  moreover have "dict_get (encrypt_record lib c random (insert f (set fs)) r) f = Some (JStr (cipher_encrypt lib c (random f) (utf8 t)))"
    by (simp add: encrypt_record_get t(1) text_of_def)
  moreover have "encryptable lib c random fs r" using Cons.prems(1) by (simp add: encryptable_def)
  ultimately show ?case using Cons.IH [of "Suc n"] Cons.prems v by (simp add: path top_level_paths)
qed

lemma decrypt_records_restore:
  assumes "\<forall>i < length recs. encryptable lib c (random i) (dc_fields cfg) (recs ! i)" and "dc_output cfg = OutText"
    and "list_all top_level (dc_fields cfg)" and "distinct (dc_fields cfg)"
  shows "decrypt_records lib c k cfg ctx (map (\<lambda>i. encrypt_record lib c (random i) (set (dc_fields cfg)) (recs ! i)) [0..<length recs]) n =
    Inr (map JDict recs, n + length recs * length (dc_fields cfg))"
  using assms
proof (induction recs arbitrary: random k n)
  case (Cons r recs)
  have step: "\<forall>i < length recs. encryptable lib c (random (Suc i)) (dc_fields cfg) (recs ! i)" using Cons.prems(1) by fastforce
  have shift: "map (\<lambda>i. encrypt_record lib c (random i) (set (dc_fields cfg)) ((r # recs) ! i)) [0..<length (r # recs)] =
      encrypt_record lib c (random 0) (set (dc_fields cfg)) r #
      map (\<lambda>i. encrypt_record lib c (random (Suc i)) (set (dc_fields cfg)) (recs ! i)) [0..<length recs]"
    by (simp add: upt_conv_Cons map_Suc_upt [symmetric] comp_def del: upt_Suc)
  have first: "encryptable lib c (random 0) (dc_fields cfg) r" using Cons.prems(1) by force
  show ?case unfolding shift
    using Cons.IH [of "\<lambda>i. random (Suc i)", OF step assms(2-4), of "Suc k" "n + length (dc_fields cfg)"]
      decrypt_fields_restore [OF first assms(2-4), of k ctx n] by simp
qed simp


definition demo_decrypt :: decrypt_config where
  "demo_decrypt = \<lparr>dc_algo = ''fernet'', dc_secret_ref = ''k'', dc_fields = [''card''], dc_key_encoding = EncBase64,
     dc_token_encoding = EncBase64, dc_aad = None, dc_output = OutText, dc_on_missing = MissError\<rparr>"

definition demo_decrypt_ctx :: node_ctx where
  "demo_decrypt_ctx = \<lparr>nc_run = \<lparr>rc_secrets = [(''k'', ''key'')], rc_options = default_options, rc_redactor = []\<rparr>,
     nc_node_id = ''d'', nc_node_type = ''decrypt'', nc_iter = None\<rparr>"


end
