(* ===== verification/Db.thy ===== *)
theory Db
  imports Ssrf Json_Text
begin

text \<open>
  \<open>etl_core/db.py\<close>: connections, the guard for their hosts, conversion of values, queries, writes and the
  categories of database errors. The driver is a parameter, the record \<open>db_driver\<close>; the tables of the database
  are explicit, so that what a write leaves behind can be stated. A transaction that raises leaves them unchanged.
\<close>

section \<open>Connections\<close>

datatype db_dialect = PostgreSQL | SQLite

fun driver_name :: "db_dialect \<Rightarrow> string" where
  "driver_name PostgreSQL = ''postgresql''"
| "driver_name SQLite = ''sqlite''"

record db_connection =
  dc_driver :: db_dialect
  dc_host :: "string option"
  dc_port :: "int option"
  dc_database :: string
  dc_user :: "string option"
  dc_secret_ref :: "string option"
  dc_sslmode :: "string option"
  dc_connect_timeout_s :: pyfloat

definition check_driver_fields :: "db_connection \<Rightarrow> exn + db_connection" where
  "check_driver_fields c =
     (if dc_driver c = PostgreSQL \<and> (dc_host c = None \<or> dc_host c = Some [])
      then Inl (ValueError (''postgresql connection requires '' @ repr_str ''host'')) else Inr c)"

definition port_or_default :: "int option \<Rightarrow> int" where
  "port_or_default p = (case p of None \<Rightarrow> 5432 | Some n \<Rightarrow> if n = 0 then 5432 else n)"

definition endpoint :: "db_connection \<Rightarrow> (string option \<times> int option)" where
  "endpoint c = (if dc_driver c \<noteq> PostgreSQL then (None, None) else (dc_host c, Some (port_or_default (dc_port c))))"

record sa_url =
  su_drivername :: string
  su_username :: "string option"
  su_password :: "string option"
  su_host :: "string option"
  su_port :: "int option"
  su_database :: "string option"

definition build_url :: "db_connection \<Rightarrow> string option \<Rightarrow> sa_url" where
  "build_url c password =
     (if dc_driver c = SQLite then
        \<lparr>su_drivername = ''sqlite+aiosqlite'', su_username = None, su_password = None, su_host = None, su_port = None,
         su_database = (if dc_database c \<in> {[], '':memory:''} then None else Some (dc_database c))\<rparr>
      else
        \<lparr>su_drivername = ''postgresql+asyncpg'', su_username = dc_user c, su_password = password, su_host = dc_host c,
         su_port = Some (port_or_default (dc_port c)), su_database = Some (dc_database c)\<rparr>)"

definition connect_args :: "db_connection \<Rightarrow> json dict" where
  "connect_args c =
     (if dc_driver c \<noteq> PostgreSQL then []
      else [(''timeout'', JFloat (dc_connect_timeout_s c)), (''command_timeout'', JFloat (dc_connect_timeout_s c))] @
        (case dc_sslmode c of None \<Rightarrow> [] | Some m \<Rightarrow> [(''ssl'', JBool (lower_str m \<noteq> ''disable''))]))"

definition ensure_db_host_allowed :: "resolver \<Rightarrow> db_connection \<Rightarrow> ssrf_policy \<Rightarrow> exn + unit" where
  "ensure_db_host_allowed dns c policy =
     (case endpoint c of
        (None, _) \<Rightarrow> Inr ()
      | (Some host, port) \<Rightarrow>
          if \<not> sp_enabled policy then Inr ()
          else if lower_str host \<in> set (policy_names policy) then Inr ()
          else sbind (resolve_host dns host port) (\<lambda>ips.
            case find_blocked host ips policy of
              Some reason \<Rightarrow> Inl (SSRFBlockedError reason)
            | None \<Rightarrow> Inr ()))"

section \<open>Values\<close>

text \<open>What a driver may return for a cell; times, identifiers and other objects by their text.\<close>

datatype decimal = Finite rat | Special pyfloat

datatype db_value =
    DbNull | DbBool bool | DbInt int | DbFloat pyfloat | DbStr string | DbDecimal decimal | DbTime string | DbUuid string
  | DbBytes "nat list" | DbList "db_value list" | DbDict "(string \<times> db_value) list" | DbOther string

fun jsonify_value :: "db_value \<Rightarrow> json" where
  "jsonify_value DbNull = JNull"
| "jsonify_value (DbBool b) = JBool b"
| "jsonify_value (DbInt n) = JInt n"
| "jsonify_value (DbFloat f) = JFloat f"
| "jsonify_value (DbStr s) = JStr s"
| "jsonify_value (DbDecimal d) = JFloat (case d of Finite q \<Rightarrow> to_float q | Special f \<Rightarrow> f)"
| "jsonify_value (DbTime s) = JStr s"
| "jsonify_value (DbUuid s) = JStr s"
| "jsonify_value (DbBytes bs) = JStr (b64encode bs)"
| "jsonify_value (DbList vs) = JList (map jsonify_value vs)"
| "jsonify_value (DbDict d) = JDict (dict_of (map (\<lambda>(k, v). (k, jsonify_value v)) d))"
| "jsonify_value (DbOther s) = JStr s"

definition row_to_record :: "(string \<times> db_value) list \<Rightarrow> record_t" where
  "row_to_record row = dict_of (map (\<lambda>(k, v). (k, jsonify_value v)) row)"

section \<open>The driver\<close>

datatype sa_class = SaProgramming | SaIntegrity | SaOperational | SaInterface | SaOther

record exc_info =
  xi_text :: string
  xi_type :: string
  xi_sqlstate :: "string option"
  xi_os_error :: bool

record db_exc =
  dx_self :: exc_info
  dx_orig :: "exc_info option"
  dx_class :: sa_class
  dx_timeout :: bool

datatype column_type = SaBoolean | SaBigInteger | SaFloat | SaText

record db_table =
  tb_columns :: "(string \<times> column_type) list"
  tb_rows :: "json dict list"

type_synonym table_key = "string option \<times> string"
type_synonym tables = "(table_key \<times> db_table) list"

text \<open>
  The driver: opening a connection, a query, creating a table, deleting its rows, inserting rows and committing
  may all fail. A query gives its rows, or nothing when it returns none.
\<close>

record db_driver =
  dv_connect :: "sa_url \<Rightarrow> json dict \<Rightarrow> db_exc + unit"
  dv_query :: "string \<Rightarrow> json dict \<Rightarrow> tables \<Rightarrow> db_exc + (string \<times> db_value) list list option"
  dv_create :: "table_key \<Rightarrow> (string \<times> column_type) list \<Rightarrow> db_exc + unit"
  dv_delete :: "table_key \<Rightarrow> db_exc + unit"
  dv_insert :: "db_table \<Rightarrow> json dict list \<Rightarrow> db_exc + db_table"
  dv_commit :: "tables \<Rightarrow> db_exc + unit"

definition open_engine :: "db_driver \<Rightarrow> db_connection \<Rightarrow> string option \<Rightarrow> db_exc + unit" where
  "open_engine drv c password = dv_connect drv (build_url c password) (connect_args c)"

definition run_query :: "db_driver \<Rightarrow> db_connection \<Rightarrow> string option \<Rightarrow> string \<Rightarrow> json dict \<Rightarrow> nat option \<Rightarrow> tables \<Rightarrow> db_exc + records" where
  "run_query drv c password query params limit db =
     sbind (open_engine drv c password) (\<lambda>_.
       sbind (dv_query drv query params db) (\<lambda>result.
         case result of
           None \<Rightarrow> Inr []
         | Some rows \<Rightarrow> Inr (map row_to_record (case limit of Some n \<Rightarrow> take n rows | None \<Rightarrow> rows))))"

section \<open>Writes\<close>

definition is_nested :: "json \<Rightarrow> bool" where
  "is_nested v = (case v of JDict _ \<Rightarrow> True | JList _ \<Rightarrow> True | _ \<Rightarrow> False)"

definition prepare_row :: "record_t \<Rightarrow> string list \<Rightarrow> json dict" where
  "prepare_row r columns =
     map (\<lambda>(k, v). (k, if is_nested v then JStr (dumps None v) else v)) (filter (\<lambda>p. fst p \<in> set columns) r)"

fun infer_column_type :: "records \<Rightarrow> string \<Rightarrow> column_type" where
  "infer_column_type [] column = SaText"
| "infer_column_type (r # rs) column =
     (case dict_get r column of
        None \<Rightarrow> infer_column_type rs column
      | Some JNull \<Rightarrow> infer_column_type rs column
      | Some (JBool _) \<Rightarrow> SaBoolean
      | Some (JInt _) \<Rightarrow> SaBigInteger
      | Some (JFloat _) \<Rightarrow> SaFloat
      | Some _ \<Rightarrow> SaText)"

fun ordered_columns :: "records \<Rightarrow> string list \<Rightarrow> string list" where
  "ordered_columns [] seen = seen"
| "ordered_columns (r # rs) seen = ordered_columns rs (foldl (\<lambda>cs k. if k \<in> set cs then cs else cs @ [k]) seen (dict_keys r))"

datatype db_error = DbTableMissing string "string option" | DbFailure db_exc

definition missing_msg :: "string \<Rightarrow> string option \<Rightarrow> string" where
  "missing_msg table_name detail =
     ''table '' @ repr_str table_name @ '' does not exist'' @
     (case detail of
        Some d \<Rightarrow> '' ('' @ d @ '')''
      | None \<Rightarrow> ''; set create=true to create it from the records'')"

definition failing :: "db_exc + 'a \<Rightarrow> db_error + 'a" where
  "failing r = (case r of Inl e \<Rightarrow> Inl (DbFailure e) | Inr x \<Rightarrow> Inr x)"

text \<open>The table to write to: created when allowed, emptied when its rows are to be replaced.\<close>

definition target_table :: "db_driver \<Rightarrow> table_key \<Rightarrow> records \<Rightarrow> bool \<Rightarrow> bool \<Rightarrow> tables \<Rightarrow> db_error + db_table" where
  "target_table drv key recs replace create db =
     (case dict_get db key of
        None \<Rightarrow>
          (let columns = ordered_columns recs [] in
           if \<not> create then Inl (DbTableMissing (snd key) None)
           else if columns = [] then
             Inl (DbTableMissing (snd key) (Some ''no rows to infer a schema from; create the table first''))
           else
             (let typed = map (\<lambda>c. (c, infer_column_type recs c)) columns
              in sbind (failing (dv_create drv key typed)) (\<lambda>_. Inr \<lparr>tb_columns = typed, tb_rows = []\<rparr>)))
      | Some t \<Rightarrow>
          if replace then sbind (failing (dv_delete drv key)) (\<lambda>_. Inr (t\<lparr>tb_rows := []\<rparr>)) else Inr t)"

definition write_rows :: "db_driver \<Rightarrow> table_key \<Rightarrow> records \<Rightarrow> bool \<Rightarrow> bool \<Rightarrow> tables \<Rightarrow> db_error + (nat \<times> tables)" where
  "write_rows drv key recs replace create db =
     sbind (target_table drv key recs replace create db) (\<lambda>t.
       if recs = [] then Inr (0, dict_set key t db)
       else
         (let rows = map (\<lambda>r. prepare_row r (dict_keys (tb_columns t))) recs
          in sbind (failing (dv_insert drv t rows)) (\<lambda>t'. Inr (length rows, dict_set key t' db))))"

definition write_table :: "db_driver \<Rightarrow> db_connection \<Rightarrow> string option \<Rightarrow> table_key \<Rightarrow> records \<Rightarrow> bool \<Rightarrow> bool \<Rightarrow> tables \<Rightarrow>
    (db_error + nat) \<times> tables" where
  "write_table drv c password key recs replace create db =
     (case sbind (failing (open_engine drv c password)) (\<lambda>_.
             sbind (write_rows drv key recs replace create db) (\<lambda>(n, db').
               sbind (failing (dv_commit drv db')) (\<lambda>_. Inr (n, db')))) of
        Inl e \<Rightarrow> (Inl e, db)
      | Inr (n, db') \<Rightarrow> (Inr n, db'))"

section \<open>Error categories\<close>

definition truthy_text :: "string option \<Rightarrow> string option" where
  "truthy_text t = (if t = Some [] then None else t)"

definition categorize_db_exception :: "db_exc \<Rightarrow> error_category \<times> string" where
  "categorize_db_exception exc =
     (let orig = (case dx_orig exc of Some o' \<Rightarrow> o' | None \<Rightarrow> dx_self exc);
          sqlstate = (case truthy_text (xi_sqlstate orig) of Some s \<Rightarrow> Some s | None \<Rightarrow> truthy_text (xi_sqlstate (dx_self exc)));
          message = (if strip_ws (xi_text orig) = [] then xi_type orig else strip_ws (xi_text orig));
          low = lower_str message
      in (if dx_timeout exc \<or> occurs_in ''timeout'' low then TIMEOUT
          else if (case sqlstate of Some s \<Rightarrow> take 2 s = ''28'' | None \<Rightarrow> False) then AUTH
          else if occurs_in ''password'' low \<or> occurs_in ''authentication failed'' low \<or>
                  (occurs_in ''role'' low \<and> occurs_in ''does not exist'' low) then AUTH
          else if (case sqlstate of Some s \<Rightarrow> take 2 s \<in> {''42'', ''3D'', ''3F''} | None \<Rightarrow> False) \<or>
                  dx_class exc \<in> {SaProgramming, SaIntegrity} then VALIDATION
          else if occurs_in ''no such table'' low \<or> occurs_in ''syntax error'' low \<or> occurs_in ''no such column'' low then VALIDATION
          else if occurs_in ''unable to open database'' low \<or> occurs_in ''no such file'' low then CONFIG
          else if dx_class exc \<in> {SaOperational, SaInterface} \<or> xi_os_error orig then NETWORK
          else UNKNOWN, message))"

end
