(* ===== verification/Db_Nodes.thy ===== *)
theory Db_Nodes
  imports Db
begin

text \<open>
  The nodes \<open>db_source\<close> and \<open>db_sink\<close> (\<open>etl_core/nodes/db_source.py\<close>, \<open>db_sink.py\<close>): their configuration, \<open>run\<close> on the
  tables of a database, and what the host guard and the transaction guarantee of them.
\<close>

section \<open>db_source\<close>

definition endpoint_summary :: "db_connection \<Rightarrow> string" where
  "endpoint_summary c =
     (if dc_driver c = SQLite then ''sqlite:///'' @ dc_database c
      else (case endpoint c of
          (host, port) \<Rightarrow> driver_name (dc_driver c) @ ''://'' @ (case host of Some h \<Rightarrow> h | None \<Rightarrow> ''None'') @ '':'' @
            (case port of Some n \<Rightarrow> int_str n | None \<Rightarrow> ''None'') @ ''/'' @ dc_database c))"

record db_source_config =
  ds_connection :: db_connection
  ds_query :: string
  ds_params :: "json dict"
  ds_limit :: "nat option"

text \<open>The password, when one is named, and then the host guard; both nodes begin with them.\<close>

definition db_password :: "db_connection \<Rightarrow> node_ctx \<Rightarrow> exn + string option" where
  "db_password c ctx =
     (case dc_secret_ref c of
        None \<Rightarrow> Inr None
      | Some ref \<Rightarrow> if ref = [] then Inr None else sbind (get_secret ctx ref) (\<lambda>v. Inr (Some v)))"

definition db_dns_msg :: "db_connection \<Rightarrow> string \<Rightarrow> string" where
  "db_dns_msg c m =
     ''DNS resolution failed for DB host '' @ (case dc_host c of Some h \<Rightarrow> repr_str h | None \<Rightarrow> ''None'') @ '': '' @ m"

definition db_guard :: "resolver \<Rightarrow> db_connection \<Rightarrow> node_ctx \<Rightarrow> exn + unit" where
  "db_guard dns c ctx =
     (let summary = endpoint_summary c in
      case ensure_db_host_allowed dns c (eo_ssrf_policy (rc_options (nc_run ctx))) of
        Inr u \<Rightarrow> Inr u
      | Inl (SSRFBlockedError m) \<Rightarrow> Inl (ctx_error ctx CONFIG m None (Some summary) 1 None)
      | Inl (OtherException t m) \<Rightarrow>
          if t = ''gaierror'' then Inl (ctx_error ctx DNS (db_dns_msg c m) None (Some summary) 1 None)
          else Inl (OtherException t m)
      | Inl e \<Rightarrow> Inl e)"

definition db_open :: "resolver \<Rightarrow> db_connection \<Rightarrow> node_ctx \<Rightarrow> exn + string option" where
  "db_open dns c ctx = sbind (db_password c ctx) (\<lambda>password. sbind (db_guard dns c ctx) (\<lambda>_. Inr password))"

definition db_source_run :: "resolver \<Rightarrow> db_driver \<Rightarrow> db_source_config \<Rightarrow> node_ctx \<Rightarrow> tables \<Rightarrow> node_outputs logged" where
  "db_source_run dns drv cfg ctx db =
     (let c = ds_connection cfg in
      case db_open dns c ctx of
        Inl e \<Rightarrow> (Inl e, [])
      | Inr password \<Rightarrow>
          (case run_query drv c password (ds_query cfg) (ds_params cfg) (ds_limit cfg) db of
             Inl exc \<Rightarrow>
               (case categorize_db_exception exc of
                  (category, message) \<Rightarrow>
                    (Inl (ctx_error ctx category (''query failed: '' @ message) None (Some (endpoint_summary c)) 1 None), []))
           | Inr recs \<Rightarrow>
               (Inr [(''out'', recs)],
                [ctx_log ctx LInfo (''fetched '' @ nat_str (length recs) @ '' row(s) from '' @ driver_name (dc_driver c)) None])))"

section \<open>db_sink\<close>

record db_sink_config =
  dk_connection :: db_connection
  dk_table :: string
  dk_schema :: "string option"
  dk_replace :: bool
  dk_create :: bool

text \<open>The pattern \<open>^[A-Za-z_][A-Za-z0-9_$]*$\<close>, whose \<open>$\<close> also matches before a final line feed.\<close>

definition identifier_start :: "char \<Rightarrow> bool" where
  "identifier_start c \<longleftrightarrow> (let n = of_char c :: nat in 65 \<le> n \<and> n \<le> 90 \<or> 97 \<le> n \<and> n \<le> 122 \<or> n = 95)"

definition identifier_char :: "char \<Rightarrow> bool" where
  "identifier_char c \<longleftrightarrow> identifier_start c \<or> (let n = of_char c :: nat in 48 \<le> n \<and> n \<le> 57 \<or> n = 36)"

definition identifier_re :: "string \<Rightarrow> bool" where
  "identifier_re s \<longleftrightarrow>
     (let body = (if s \<noteq> [] \<and> last s = char_of (10 :: nat) then butlast s else s)
      in body \<noteq> [] \<and> identifier_start (hd body) \<and> list_all identifier_char (tl body))"

definition safe_identifier :: "string option \<Rightarrow> exn + string option" where
  "safe_identifier v =
     (case v of
        None \<Rightarrow> Inr None
      | Some s \<Rightarrow>
          if identifier_re s then Inr (Some s)
          else Inl (ValueError (''unsafe SQL identifier '' @ repr_str s @ ''; use letters, digits and underscores'')))"

definition sink_mode :: "bool \<Rightarrow> string" where
  "sink_mode replace = (if replace then ''replace'' else ''append'')"

definition db_sink_run :: "resolver \<Rightarrow> db_driver \<Rightarrow> db_sink_config \<Rightarrow> records \<Rightarrow> node_ctx \<Rightarrow> tables \<Rightarrow> node_outputs logged \<times> tables" where
  "db_sink_run dns drv cfg recs ctx db =
     (let c = dk_connection cfg; summary = endpoint_summary c in
      case db_open dns c ctx of
        Inl e \<Rightarrow> ((Inl e, []), db)
      | Inr password \<Rightarrow>
          (case write_table drv c password (dk_schema cfg, dk_table cfg) recs (dk_replace cfg) (dk_create cfg) db of
             (Inl (DbTableMissing t detail), db') \<Rightarrow>
               ((Inl (ctx_error ctx CONFIG (missing_msg t detail) None (Some summary) 1 None), []), db')
           | (Inl (DbFailure exc), db') \<Rightarrow>
               (case categorize_db_exception exc of
                  (category, message) \<Rightarrow>
                    ((Inl (ctx_error ctx category (''write to '' @ repr_str (dk_table cfg) @ '' failed: '' @ message) None (Some summary) 1 None), []), db'))
           | (Inr written, db') \<Rightarrow>
               ((Inr [(''out'', recs)],
                 [ctx_log ctx LInfo (''wrote '' @ nat_str written @ '' row(s) to '' @ dk_table cfg @ '' ('' @ driver_name (dc_driver c) @
                    '', mode='' @ sink_mode (dk_replace cfg) @ '')'') None]), db')))"

section \<open>What the nodes guarantee\<close>

text \<open>A connection the policy permits: no network host, a named host, or one all of whose addresses are allowed or public.\<close>

definition db_permitted :: "resolver \<Rightarrow> ssrf_policy \<Rightarrow> db_connection \<Rightarrow> bool" where
  "db_permitted dns policy c \<longleftrightarrow>
     (\<forall>host. fst (endpoint c) = Some host \<longrightarrow>
        lower_str host \<in> set (policy_names policy) \<or> lower_str (bare_host host) \<in> set (policy_names policy) \<or>
        (\<exists>ips. resolve_host dns host (snd (endpoint c)) = Inr ips \<and>
           (\<forall>ip \<in> set ips. \<exists>a. ip_address ip = Some a \<and> (list_ex (in_net a) (policy_networks policy) \<or> public_addr a))))"

lemma ensure_db_host_permitted:
  assumes "ensure_db_host_allowed dns c policy = Inr u" and "sp_enabled policy"
  shows "db_permitted dns policy c"
  unfolding db_permitted_def
proof (intro allI impI)
  fix host assume host: "fst (endpoint c) = Some host"
  show "lower_str host \<in> set (policy_names policy) \<or> lower_str (bare_host host) \<in> set (policy_names policy) \<or>
        (\<exists>ips. resolve_host dns host (snd (endpoint c)) = Inr ips \<and>
           (\<forall>ip \<in> set ips. \<exists>a. ip_address ip = Some a \<and> (list_ex (in_net a) (policy_networks policy) \<or> public_addr a)))"
  proof (cases "lower_str host \<in> set (policy_names policy)")
    case False
    with assms host obtain ips where ips: "resolve_host dns host (snd (endpoint c)) = Inr ips" "find_blocked host ips policy = None"
      by (cases "endpoint c") (auto simp: ensure_db_host_allowed_def sbind_eq_Inr split: option.splits)
    then have "lower_str (bare_host host) \<in> set (policy_names policy) \<or> check_ips (policy_networks policy) host ips = None"
      using assms(2) by (auto simp: find_blocked_def split: if_splits)
    with ips(1) show ?thesis unfolding check_ips_None using unblocked_public by blast
  qed simp
qed

lemma db_open_permitted:
  assumes "db_open dns c ctx = Inr password" and "sp_enabled (eo_ssrf_policy (rc_options (nc_run ctx)))"
  shows "db_permitted dns (eo_ssrf_policy (rc_options (nc_run ctx))) c"
proof -
  obtain u where "db_guard dns c ctx = Inr u" using assms(1) by (auto simp: db_open_def sbind_eq_Inr)
  then have "ensure_db_host_allowed dns c (eo_ssrf_policy (rc_options (nc_run ctx))) = Inr u"
    by (auto simp: db_guard_def Let_def split: sum.splits exn.splits if_splits)
  then show ?thesis by (rule ensure_db_host_permitted [OF _ assms(2)])
qed

text \<open>
  What SQLAlchemy documents of \<open>insert(table)\<close> with a list of rows: an accepted insert adds one row per element
  and keeps the columns and the rows that were there.
\<close>

definition insert_adds :: "db_driver \<Rightarrow> bool" where
  "insert_adds drv \<longleftrightarrow>
     (\<forall>t rows t'. dv_insert drv t rows = Inr t' \<longrightarrow>
        tb_columns t' = tb_columns t \<and> (\<exists>new. length new = length rows \<and> tb_rows t' = tb_rows t @ new))"

lemma write_rows_result:
  assumes "write_rows drv key recs replace create db = Inr (n, db')" and "insert_adds drv"
  shows "n = length recs \<and> (\<exists>t new. db' = dict_set key t db \<and> length new = length recs \<and>
    tb_rows t = (case dict_get db key of Some t0 \<Rightarrow> if replace then [] else tb_rows t0 | None \<Rightarrow> []) @ new \<and>
    (\<forall>t0. dict_get db key = Some t0 \<longrightarrow> tb_columns t = tb_columns t0) \<and> (dict_get db key = None \<longrightarrow> create))"
proof -
  obtain t1 where t1: "target_table drv key recs replace create db = Inr t1"
    using assms(1) by (auto simp: write_rows_def sbind_eq_Inr)
  with assms(1) have rest: "(if recs = [] then Inr (0, dict_set key t1 db)
       else sbind (failing (dv_insert drv t1 (map (\<lambda>r. prepare_row r (dict_keys (tb_columns t1))) recs)))
         (\<lambda>t'. Inr (length recs, dict_set key t' db))) = Inr (n, db')"
    by (cases "recs = []") (simp_all add: write_rows_def Let_def)
  have old: "tb_rows t1 = (case dict_get db key of Some t0 \<Rightarrow> if replace then [] else tb_rows t0 | None \<Rightarrow> [])"
    "\<forall>t0. dict_get db key = Some t0 \<longrightarrow> tb_columns t1 = tb_columns t0" "dict_get db key = None \<longrightarrow> create"
    using t1 by (auto simp: target_table_def sbind_eq_Inr Let_def split: option.splits if_splits)
  show ?thesis
  proof (cases "recs = []")
    case True
    with rest old show ?thesis by auto
  next
    case False
    with rest obtain t' where t': "dv_insert drv t1 (map (\<lambda>r. prepare_row r (dict_keys (tb_columns t1))) recs) = Inr t'"
      "n = length recs" "db' = dict_set key t' db"
      by (auto simp: sbind_eq_Inr failing_def split: sum.splits)
    then obtain new where "tb_columns t' = tb_columns t1" "length new = length recs" "tb_rows t' = tb_rows t1 @ new"
      using assms(2) unfolding insert_adds_def by fastforce
    with t' old show ?thesis by auto
  qed
qed

lemma write_table_result:
  assumes "write_table drv c password key recs replace create db = (res, db')"
  shows "(\<exists>e. res = Inl e \<and> db' = db) \<or> (\<exists>n. res = Inr n \<and> write_rows drv key recs replace create db = Inr (n, db'))"
proof (cases "open_engine drv c password")
  case (Inl e)
  with assms show ?thesis by (auto simp: write_table_def failing_def)
next
  case opened: (Inr u)
  show ?thesis
  proof (cases "write_rows drv key recs replace create db")
    case (Inl e)
    with assms opened show ?thesis by (auto simp: write_table_def failing_def)
  next
    case (Inr w)
    with assms opened show ?thesis
      by (cases w; cases "dv_commit drv (snd w)") (auto simp: write_table_def failing_def)
  qed
qed

lemma db_sink_run_refused:
  "db_open dns (dk_connection cfg) ctx = Inl e \<Longrightarrow> db_sink_run dns drv cfg recs ctx db = ((Inl e, []), db)"
  by (simp add: db_sink_run_def Let_def)

lemma db_sink_run_opened:
  assumes "db_open dns (dk_connection cfg) ctx = Inr password" and "db_sink_run dns drv cfg recs ctx db = ((res, logs), db')"
  shows "(isl res \<and> db' = db) \<or>
    (res = Inr [(''out'', recs)] \<and>
     (\<exists>n. write_rows drv (dk_schema cfg, dk_table cfg) recs (dk_replace cfg) (dk_create cfg) db = Inr (n, db')))"
proof -
  obtain r d where w: "write_table drv (dk_connection cfg) password (dk_schema cfg, dk_table cfg) recs (dk_replace cfg) (dk_create cfg) db = (r, d)"
    by (cases "write_table drv (dk_connection cfg) password (dk_schema cfg, dk_table cfg) recs (dk_replace cfg) (dk_create cfg) db")
  from write_table_result [OF w] assms w show ?thesis
    by (auto simp: db_sink_run_def Let_def split: db_error.splits prod.splits)
qed

text \<open>
  The effect of a successful write: only the configured table changes; it keeps its columns and has one row more
  per record, after the earlier rows unless they are replaced, and it is created only when \<open>create\<close> is set.
\<close>

definition table_written :: "db_sink_config \<Rightarrow> records \<Rightarrow> tables \<Rightarrow> tables \<Rightarrow> bool" where
  "table_written cfg recs db db' \<longleftrightarrow>
     (\<forall>key. key \<noteq> (dk_schema cfg, dk_table cfg) \<longrightarrow> dict_get db' key = dict_get db key) \<and>
     (\<exists>t new. dict_get db' (dk_schema cfg, dk_table cfg) = Some t \<and> length new = length recs \<and>
        (case dict_get db (dk_schema cfg, dk_table cfg) of
           Some t0 \<Rightarrow> tb_columns t = tb_columns t0 \<and> tb_rows t = (if dk_replace cfg then [] else tb_rows t0) @ new
         | None \<Rightarrow> dk_create cfg \<and> tb_rows t = new))"

lemma write_rows_table_written:
  assumes "write_rows drv (dk_schema cfg, dk_table cfg) recs (dk_replace cfg) (dk_create cfg) db = Inr (n, db')"
    and "insert_adds drv"
  shows "table_written cfg recs db db'"
proof -
  from write_rows_result [OF assms] obtain t new where
    "db' = dict_set (dk_schema cfg, dk_table cfg) t db" "length new = length recs"
    "tb_rows t = (case dict_get db (dk_schema cfg, dk_table cfg) of Some t0 \<Rightarrow> if dk_replace cfg then [] else tb_rows t0 | None \<Rightarrow> []) @ new"
    "\<forall>t0. dict_get db (dk_schema cfg, dk_table cfg) = Some t0 \<longrightarrow> tb_columns t = tb_columns t0"
    "dict_get db (dk_schema cfg, dk_table cfg) = None \<longrightarrow> dk_create cfg"
    by (elim conjE exE) (rule that; assumption)
  then show ?thesis unfolding table_written_def by (cases "dict_get db (dk_schema cfg, dk_table cfg)") simp_all
qed


text \<open>A driver that accepts every statement and stores the rows it is given.\<close>

definition demo_driver :: db_driver where
  "demo_driver = \<lparr>dv_connect = (\<lambda>_ _. Inr ()), dv_query = (\<lambda>_ _ _. Inr None), dv_create = (\<lambda>_ _. Inr ()), dv_delete = (\<lambda>_. Inr ()),
     dv_insert = (\<lambda>t rows. Inr (t\<lparr>tb_rows := tb_rows t @ rows\<rparr>)), dv_commit = (\<lambda>_. Inr ())\<rparr>"

definition demo_db_ctx :: node_ctx where
  "demo_db_ctx = \<lparr>nc_run = \<lparr>rc_secrets = [], rc_options = default_options\<lparr>eo_ssrf_policy := \<lparr>sp_enabled = True, sp_allow_hosts = []\<rparr>\<rparr>,
     rc_redactor = []\<rparr>, nc_node_id = ''w'', nc_node_type = ''db_sink'', nc_iter = None\<rparr>"

definition demo_db_sink :: "db_dialect \<Rightarrow> db_sink_config" where
  "demo_db_sink driver = \<lparr>dk_connection = \<lparr>dc_driver = driver, dc_host = Some ''127.0.0.1'', dc_port = Some 5, dc_database = ''d'',
     dc_user = None, dc_secret_ref = None, dc_sslmode = None, dc_connect_timeout_s = FNum False 5 1\<rparr>,
     dk_table = ''t'', dk_schema = None, dk_replace = True, dk_create = False\<rparr>"

definition demo_tables :: tables where
  "demo_tables = [((None, ''t''), \<lparr>tb_columns = [(''a'', SaBigInteger)], tb_rows = [[(''a'', JInt 1)]]\<rparr>),
     ((None, ''u''), \<lparr>tb_columns = [], tb_rows = []\<rparr>)]"


end
