(* ===== verification/Server_Store.thy ===== *)
theory Server_Store
  imports Run_Context
begin

text \<open>
  The server's database: the tables of \<open>etl_server/models.py\<close> with their constraints, the response
  documents of \<open>etl_server/schemas.py\<close> and the ownership-scoped lookups of \<open>etl_server/service.py\<close>.

  A table with a UUID key is the list of its rows in the order of their creation, each with its key; the two
  tables with an autoincrement key are lists of rows with the next key beside them. The constraints the
  database enforces (primary keys, unique columns, foreign keys with \<open>ON DELETE CASCADE\<close>) are part of the
  operations: a violation is the exception \<open>IntegrityError\<close>. Identifiers and times are numbers; fresh
  identifiers and clock readings are arguments of the operations. Column lengths are left out.
\<close>

section \<open>Times\<close>

text \<open>A Python \<open>datetime\<close>: its wall-clock reading and, when it is aware, its offset from UTC.\<close>

type_synonym uuid = nat
type_synonym timestamp = int

record datetime =
  dt_local :: int
  dt_offset :: "int option"

definition instant :: "datetime \<Rightarrow> timestamp" where
  "instant d = dt_local d - (case dt_offset d of None \<Rightarrow> 0 | Some z \<Rightarrow> z)"

definition process_bind_param :: "datetime option \<Rightarrow> datetime option" where
  "process_bind_param value =
     (case value of
        None \<Rightarrow> None
      | Some d \<Rightarrow>
          (let d = (if dt_offset d = None then d\<lparr>dt_offset := Some 0\<rparr> else d)
           in Some \<lparr>dt_local = instant d, dt_offset = Some 0\<rparr>))"

definition process_result_value :: "datetime option \<Rightarrow> datetime option" where
  "process_result_value value =
     (case value of
        None \<Rightarrow> None
      | Some d \<Rightarrow> Some (if dt_offset d = None then d\<lparr>dt_offset := Some 0\<rparr> else d))"

text \<open>SQLite forgets the offset of what it stores, PostgreSQL keeps it.\<close>

definition sqlite_column :: "datetime option \<Rightarrow> datetime option" where
  "sqlite_column = map_option (\<lambda>d. d\<lparr>dt_offset := None\<rparr>)"

text \<open>Both databases give back an aware time in UTC that denotes the instant that was written.\<close>

lemma utc_round_trip:
  "process_result_value (sqlite_column (process_bind_param (Some d))) = Some \<lparr>dt_local = instant d, dt_offset = Some 0\<rparr>"
  "process_result_value (process_bind_param (Some d)) = Some \<lparr>dt_local = instant d, dt_offset = Some 0\<rparr>"
  by (cases d; simp add: process_result_value_def process_bind_param_def sqlite_column_def instant_def Let_def
      split: option.split)+

section \<open>Rows\<close>

datatype run_phase = RQueued | RRunning | RSucceeded | RFailed
datatype run_trigger = TManual | TSchedule

fun phase_value :: "run_phase \<Rightarrow> string" where
  "phase_value RQueued = ''queued''"
| "phase_value RRunning = ''running''"
| "phase_value RSucceeded = ''succeeded''"
| "phase_value RFailed = ''failed''"

definition terminal :: "run_phase \<Rightarrow> bool" where
  "terminal s \<longleftrightarrow> s \<in> {RSucceeded, RFailed}"

fun trigger_value :: "run_trigger \<Rightarrow> string" where
  "trigger_value TManual = ''manual''"
| "trigger_value TSchedule = ''schedule''"

lemma phase_value_eq [simp]: "phase_value s = phase_value t \<longleftrightarrow> s = t"
  by (cases s; cases t) simp_all

record user_row =
  us_email :: string
  us_hashed_password :: string
  us_is_active :: bool
  us_created_at :: timestamp

record pipeline_row =
  pl_owner_id :: uuid
  pl_name :: string
  pl_spec :: json
  pl_created_at :: timestamp
  pl_updated_at :: timestamp

record run_row =
  rn_pipeline_id :: uuid
  rn_owner_id :: uuid
  rn_status :: string
  rn_trigger :: string
  rn_params :: "json dict option"
  rn_error_count :: nat
  rn_result :: "json option"
  rn_created_at :: timestamp
  rn_started_at :: "timestamp option"
  rn_finished_at :: "timestamp option"

record log_row =
  lg_id :: nat
  lg_run_id :: uuid
  lg_seq :: nat
  lg_level :: string
  lg_node_id :: "string option"
  lg_message :: string
  lg_data :: "json dict option"

record error_row =
  er_id :: nat
  er_run_id :: uuid
  er_node_id :: string
  er_node_type :: string
  er_category :: string
  er_message :: string
  er_http_status :: "int option"
  er_request_summary :: "string option"
  er_attempts :: nat
  er_details :: "json dict option"

record schedule_row =
  sc_pipeline_id :: uuid
  sc_owner_id :: uuid
  sc_cron_expr :: string
  sc_timezone :: string
  sc_enabled :: bool
  sc_last_run :: "timestamp option"
  sc_next_run :: "timestamp option"
  sc_created_at :: timestamp

record secret_row =
  se_owner_id :: uuid
  se_ref :: string
  se_ciphertext :: string
  se_created_at :: timestamp
  se_updated_at :: timestamp

type_synonym 'r table = "(uuid \<times> 'r) list"

record database =
  db_users :: "user_row table"
  db_pipelines :: "pipeline_row table"
  db_runs :: "run_row table"
  db_logs :: "log_row list"
  db_next_log :: nat
  db_errors :: "error_row list"
  db_next_error :: nat
  db_schedules :: "schedule_row table"
  db_secrets :: "secret_row table"

definition empty_db :: database where
  "empty_db = \<lparr>db_users = [], db_pipelines = [], db_runs = [], db_logs = [], db_next_log = 1, db_errors = [],
     db_next_error = 1, db_schedules = [], db_secrets = []\<rparr>"

section \<open>Statements\<close>

text \<open>What a request handler raises: an HTTP error, or an exception that becomes a server error.\<close>

datatype server_exn = HTTPException int string | Uncaught string

abbreviation integrity_error :: server_exn where
  "integrity_error \<equiv> Uncaught ''IntegrityError''"

definition insert_row :: "bool \<Rightarrow> uuid \<Rightarrow> 'r \<Rightarrow> 'r table \<Rightarrow> server_exn + 'r table" where
  "insert_row constraints k r t =
     (if dict_has t k \<or> \<not> constraints then Inl integrity_error else Inr (t @ [(k, r)]))"

definition insert_user :: "uuid \<Rightarrow> user_row \<Rightarrow> database \<Rightarrow> server_exn + database" where
  "insert_user k u db =
     sbind (insert_row (us_email u \<notin> set (map us_email (dict_values (db_users db)))) k u (db_users db))
       (\<lambda>t. Inr (db\<lparr>db_users := t\<rparr>))"

definition insert_pipeline :: "uuid \<Rightarrow> pipeline_row \<Rightarrow> database \<Rightarrow> server_exn + database" where
  "insert_pipeline k p db =
     sbind (insert_row (dict_has (db_users db) (pl_owner_id p)) k p (db_pipelines db))
       (\<lambda>t. Inr (db\<lparr>db_pipelines := t\<rparr>))"

definition insert_run :: "uuid \<Rightarrow> run_row \<Rightarrow> database \<Rightarrow> server_exn + database" where
  "insert_run k r db =
     sbind (insert_row (dict_has (db_pipelines db) (rn_pipeline_id r) \<and> dict_has (db_users db) (rn_owner_id r))
         k r (db_runs db))
       (\<lambda>t. Inr (db\<lparr>db_runs := t\<rparr>))"

definition insert_schedule :: "uuid \<Rightarrow> schedule_row \<Rightarrow> database \<Rightarrow> server_exn + database" where
  "insert_schedule k s db =
     sbind (insert_row (dict_has (db_pipelines db) (sc_pipeline_id s) \<and> dict_has (db_users db) (sc_owner_id s))
         k s (db_schedules db))
       (\<lambda>t. Inr (db\<lparr>db_schedules := t\<rparr>))"

definition secret_key :: "secret_row \<Rightarrow> uuid \<times> string" where
  "secret_key s = (se_owner_id s, se_ref s)"

definition insert_secret :: "uuid \<Rightarrow> secret_row \<Rightarrow> database \<Rightarrow> server_exn + database" where
  "insert_secret k s db =
     sbind (insert_row (secret_key s \<notin> set (map secret_key (dict_values (db_secrets db))) \<and>
           dict_has (db_users db) (se_owner_id s)) k s (db_secrets db))
       (\<lambda>t. Inr (db\<lparr>db_secrets := t\<rparr>))"

text \<open>Updating and deleting by key; deleting a pipeline takes its runs, their logs and errors, and its schedules along.\<close>

definition update_row :: "uuid \<Rightarrow> ('r \<Rightarrow> 'r) \<Rightarrow> 'r table \<Rightarrow> 'r table" where
  "update_row k f t = map (\<lambda>p. if fst p = k then (k, f (snd p)) else p) t"

definition delete_row :: "uuid \<Rightarrow> 'r table \<Rightarrow> 'r table" where
  "delete_row k t = filter (\<lambda>p. fst p \<noteq> k) t"

definition runs_of_pipeline :: "database \<Rightarrow> uuid \<Rightarrow> uuid list" where
  "runs_of_pipeline db k = map fst (filter (\<lambda>p. rn_pipeline_id (snd p) = k) (db_runs db))"

definition delete_pipeline_row :: "uuid \<Rightarrow> database \<Rightarrow> database" where
  "delete_pipeline_row k db =
     (let gone = runs_of_pipeline db k
      in db\<lparr>db_pipelines := delete_row k (db_pipelines db),
            db_runs := filter (\<lambda>p. rn_pipeline_id (snd p) \<noteq> k) (db_runs db),
            db_logs := filter (\<lambda>l. lg_run_id l \<notin> set gone) (db_logs db),
            db_errors := filter (\<lambda>e. er_run_id e \<notin> set gone) (db_errors db),
            db_schedules := filter (\<lambda>p. sc_pipeline_id (snd p) \<noteq> k) (db_schedules db)\<rparr>)"

definition insert_log :: "log_row \<Rightarrow> database \<Rightarrow> server_exn + database" where
  "insert_log l db =
     (if dict_has (db_runs db) (lg_run_id l)
      then Inr (db\<lparr>db_logs := db_logs db @ [l\<lparr>lg_id := db_next_log db\<rparr>], db_next_log := db_next_log db + 1\<rparr>)
      else Inl integrity_error)"

definition insert_error :: "error_row \<Rightarrow> database \<Rightarrow> server_exn + database" where
  "insert_error e db =
     (if dict_has (db_runs db) (er_run_id e)
      then Inr (db\<lparr>db_errors := db_errors db @ [e\<lparr>er_id := db_next_error db\<rparr>], db_next_error := db_next_error db + 1\<rparr>)
      else Inl integrity_error)"

section \<open>Lookups scoped to the owner\<close>

definition not_found :: "string \<Rightarrow> server_exn" where
  "not_found kind = HTTPException 404 (kind @ '' not found'')"

definition get_owned_pipeline :: "database \<Rightarrow> uuid \<Rightarrow> uuid \<Rightarrow> server_exn + pipeline_row" where
  "get_owned_pipeline db pipeline_id owner_id =
     (case dict_get (db_pipelines db) pipeline_id of
        None \<Rightarrow> Inl (not_found ''pipeline'')
      | Some p \<Rightarrow> if pl_owner_id p \<noteq> owner_id then Inl (not_found ''pipeline'') else Inr p)"

definition get_owned_run :: "database \<Rightarrow> uuid \<Rightarrow> uuid \<Rightarrow> server_exn + run_row" where
  "get_owned_run db run_id owner_id =
     (case dict_get (db_runs db) run_id of
        None \<Rightarrow> Inl (not_found ''run'')
      | Some r \<Rightarrow> if rn_owner_id r \<noteq> owner_id then Inl (not_found ''run'') else Inr r)"

definition get_owned_schedule :: "database \<Rightarrow> uuid \<Rightarrow> uuid \<Rightarrow> server_exn + schedule_row" where
  "get_owned_schedule db schedule_id owner_id =
     (case dict_get (db_schedules db) schedule_id of
        None \<Rightarrow> Inl (not_found ''schedule'')
      | Some s \<Rightarrow> if sc_owner_id s \<noteq> owner_id then Inl (not_found ''schedule'') else Inr s)"

section \<open>Well-typed databases\<close>

text \<open>
  The values the application relies on beyond what the columns declare: states and triggers are among the
  declared ones, a queued run is untouched, a finished one carries its time.
\<close>

definition run_ok :: "run_row \<Rightarrow> bool" where
  "run_ok r \<longleftrightarrow>
     rn_status r \<in> {phase_value RQueued, phase_value RRunning, phase_value RSucceeded, phase_value RFailed} \<and>
     rn_trigger r \<in> {trigger_value TManual, trigger_value TSchedule} \<and>
     (rn_status r = phase_value RQueued \<longrightarrow>
        rn_started_at r = None \<and> rn_finished_at r = None \<and> rn_result r = None \<and> rn_error_count r = 0) \<and>
     (rn_status r \<in> {phase_value RSucceeded, phase_value RFailed} \<longrightarrow> rn_finished_at r \<noteq> None)"

definition owned_by_pipeline :: "database \<Rightarrow> uuid \<Rightarrow> uuid \<Rightarrow> bool" where
  "owned_by_pipeline db pipeline_id owner_id \<longleftrightarrow>
     (\<exists>p. dict_get (db_pipelines db) pipeline_id = Some p \<and> pl_owner_id p = owner_id)"

definition keys_ok :: "database \<Rightarrow> bool" where
  "keys_ok db \<longleftrightarrow>
     wf_dict (db_users db) \<and> wf_dict (db_pipelines db) \<and> wf_dict (db_runs db) \<and> wf_dict (db_schedules db) \<and>
     wf_dict (db_secrets db) \<and> distinct (map us_email (dict_values (db_users db))) \<and>
     distinct (map secret_key (dict_values (db_secrets db))) \<and>
     sorted_wrt (<) (map lg_id (db_logs db)) \<and> list_all (\<lambda>l. lg_id l < db_next_log db) (db_logs db) \<and>
     sorted_wrt (<) (map er_id (db_errors db)) \<and> list_all (\<lambda>e. er_id e < db_next_error db) (db_errors db)"

definition refs_ok_db :: "database \<Rightarrow> bool" where
  "refs_ok_db db \<longleftrightarrow>
     list_all (\<lambda>p. pl_owner_id p \<in> fst ` set (db_users db)) (dict_values (db_pipelines db)) \<and>
     list_all (\<lambda>r. owned_by_pipeline db (rn_pipeline_id r) (rn_owner_id r)) (dict_values (db_runs db)) \<and>
     list_all (\<lambda>s. owned_by_pipeline db (sc_pipeline_id s) (sc_owner_id s)) (dict_values (db_schedules db)) \<and>
     list_all (\<lambda>s. se_owner_id s \<in> fst ` set (db_users db)) (dict_values (db_secrets db)) \<and>
     list_all (\<lambda>l. lg_run_id l \<in> fst ` set (db_runs db)) (db_logs db) \<and>
     list_all (\<lambda>e. er_run_id e \<in> fst ` set (db_runs db)) (db_errors db)"

definition wf_db :: "database \<Rightarrow> bool" where
  "wf_db db \<longleftrightarrow> keys_ok db \<and> refs_ok_db db \<and> list_all run_ok (dict_values (db_runs db))"

lemmas wf_db_defs = wf_db_def keys_ok_def refs_ok_db_def

lemma list_all_get: "list_all P (dict_values t) \<Longrightarrow> dict_get t k = Some r \<Longrightarrow> P r"
  using map_of_SomeD [of t k r] by (fastforce simp: list_all_iff)

lemma pipeline_owner_known: "wf_db db \<Longrightarrow> dict_get (db_pipelines db) k = Some p \<Longrightarrow> pl_owner_id p \<in> fst ` set (db_users db)"
  unfolding wf_db_def refs_ok_db_def by (metis (mono_tags, lifting) list_all_get)

lemma wf_empty_db: "wf_db empty_db"
  by (simp add: wf_db_defs empty_db_def wf_dict_def)

lemma insert_row_Inr [simp]:
  "insert_row c k r t = Inr t' \<longleftrightarrow> k \<notin> fst ` set t \<and> c \<and> t' = t @ [(k, r)]"
  by (auto simp: insert_row_def)

lemma wf_dict_snoc [simp]: "wf_dict (t @ [(k, r)]) \<longleftrightarrow> wf_dict t \<and> k \<notin> fst ` set t"
  by (auto simp: wf_dict_def)

lemma dict_keys_update_row [simp]: "dict_keys (update_row k f t) = dict_keys t"
  by (auto simp: update_row_def)

lemma fst_update_row [simp]: "fst ` set (update_row k f t) = fst ` set t"
  by (metis dict_keys_update_row list.set_map)

lemma wf_dict_update_row [simp]: "wf_dict (update_row k f t) \<longleftrightarrow> wf_dict t"
  by (simp add: wf_dict_def)

lemma dict_get_update_row [simp]:
  "dict_get (update_row k f t) j = (if j = k then map_option f (dict_get t k) else dict_get t j)"
  by (induction t) (auto simp: update_row_def)

text \<open>An update that keeps a feature of every row keeps the list of these features.\<close>

lemma map_update_row:
  assumes "\<And>r. g (f r) = g r"
  shows "map g (dict_values (update_row k f t)) = map g (dict_values t)"
  using assms by (auto simp: update_row_def)

lemma list_all_update_row:
  assumes "list_all P (dict_values t)" and "\<And>r. P r \<Longrightarrow> dict_get t k = Some r \<or> \<not> wf_dict t \<Longrightarrow> P (f r)" and "wf_dict t"
  shows "list_all P (dict_values (update_row k f t))"
  using assms unfolding update_row_def list_all_iff by (auto simp: wf_dict_def)

lemma owned_by_pipeline_same [simp]:
  "owned_by_pipeline (db\<lparr>db_users := a\<rparr>) k u = owned_by_pipeline db k u"
  "owned_by_pipeline (db\<lparr>db_runs := b\<rparr>) k u = owned_by_pipeline db k u"
  "owned_by_pipeline (db\<lparr>db_schedules := c\<rparr>) k u = owned_by_pipeline db k u"
  "owned_by_pipeline (db\<lparr>db_secrets := d\<rparr>) k u = owned_by_pipeline db k u"
  "owned_by_pipeline (db\<lparr>db_logs := e, db_next_log := n\<rparr>) k u = owned_by_pipeline db k u"
  "owned_by_pipeline (db\<lparr>db_errors := g, db_next_error := n\<rparr>) k u = owned_by_pipeline db k u"
  by (simp_all add: owned_by_pipeline_def)

lemma list_all_insert: "list_all (\<lambda>x. g x \<in> A) xs \<Longrightarrow> list_all (\<lambda>x. g x = k \<or> g x \<in> A) xs"
  by (simp add: list_all_iff)

lemma wf_insert_user:
  assumes "wf_db db" and "insert_user k u db = Inr db'"
  shows "wf_db db'"
  using assms by (auto simp: insert_user_def sbind_eq_Inr wf_db_defs elim!: list.pred_mono_strong)

lemma wf_insert_pipeline:
  assumes "wf_db db" and "insert_pipeline k p db = Inr db'"
  shows "wf_db db'"
proof -
  have new: "k \<notin> fst ` set (db_pipelines db)" "pl_owner_id p \<in> fst ` set (db_users db)"
    "db' = db\<lparr>db_pipelines := db_pipelines db @ [(k, p)]\<rparr>"
    using assms(2) by (auto simp: insert_pipeline_def sbind_eq_Inr)
  have "owned_by_pipeline db' i u" if "owned_by_pipeline db i u" for i u
    using that new by (auto simp: owned_by_pipeline_def)
  with assms(1) new show ?thesis by (auto simp: wf_db_defs elim!: list.pred_mono_strong)
qed

lemma wf_insert_run:
  assumes "wf_db db" and "insert_run k r db = Inr db'"
    and "owned_by_pipeline db (rn_pipeline_id r) (rn_owner_id r)" and "run_ok r"
  shows "wf_db db'"
proof -
  have "k \<notin> fst ` set (db_runs db)"
    "db' = db\<lparr>db_runs := db_runs db @ [(k, r)]\<rparr>"
    using assms(2) unfolding insert_run_def sbind_eq_Inr insert_row_Inr dict_has_iff by blast+
  with assms show ?thesis by (simp add: wf_db_defs list_all_insert)
qed

lemma wf_insert_schedule:
  assumes "wf_db db" and "insert_schedule k s db = Inr db'"
    and "owned_by_pipeline db (sc_pipeline_id s) (sc_owner_id s)"
  shows "wf_db db'"
proof -
  have "k \<notin> fst ` set (db_schedules db)"
    "db' = db\<lparr>db_schedules := db_schedules db @ [(k, s)]\<rparr>"
    using assms(2) unfolding insert_schedule_def sbind_eq_Inr insert_row_Inr dict_has_iff by blast+
  with assms show ?thesis by (simp add: wf_db_defs list_all_insert)
qed

lemma wf_insert_secret:
  assumes "wf_db db" and "insert_secret k s db = Inr db'"
  shows "wf_db db'"
proof -
  have "k \<notin> fst ` set (db_secrets db)" "se_owner_id s \<in> fst ` set (db_users db)"
    "secret_key s \<notin> set (map secret_key (dict_values (db_secrets db)))"
    "db' = db\<lparr>db_secrets := db_secrets db @ [(k, s)]\<rparr>"
    using assms(2) unfolding insert_secret_def sbind_eq_Inr insert_row_Inr dict_has_iff by blast+
  with assms show ?thesis by (simp add: wf_db_defs list_all_insert)
qed

lemma wf_insert_log:
  assumes "wf_db db" and "insert_log l db = Inr db'"
  shows "wf_db db'"
proof -
  have run: "lg_run_id l \<in> fst ` set (db_runs db)"
    and db': "db' = db\<lparr>db_logs := db_logs db @ [l\<lparr>lg_id := db_next_log db\<rparr>], db_next_log := db_next_log db + 1\<rparr>"
    using assms(2) by (auto simp: insert_log_def split: if_splits)
  have "keys_ok db'" using assms(1) unfolding db'
    by (fastforce simp: wf_db_def keys_ok_def list_all_iff sorted_wrt_append)
  with assms(1) run show ?thesis unfolding wf_db_def refs_ok_db_def db' by simp
qed

lemma wf_insert_error:
  assumes "wf_db db" and "insert_error e db = Inr db'"
  shows "wf_db db'"
proof -
  have run: "er_run_id e \<in> fst ` set (db_runs db)"
    and db': "db' = db\<lparr>db_errors := db_errors db @ [e\<lparr>er_id := db_next_error db\<rparr>], db_next_error := db_next_error db + 1\<rparr>"
    using assms(2) by (auto simp: insert_error_def split: if_splits)
  have "keys_ok db'" using assms(1) unfolding db'
    by (fastforce simp: wf_db_def keys_ok_def list_all_iff sorted_wrt_append)
  with assms(1) run show ?thesis unfolding wf_db_def refs_ok_db_def db' by simp
qed

lemma wf_update_pipeline:
  assumes "wf_db db" and "\<And>p. pl_owner_id (f p) = pl_owner_id p"
  shows "wf_db (db\<lparr>db_pipelines := update_row k f (db_pipelines db)\<rparr>)"
proof -
  have "owned_by_pipeline (db\<lparr>db_pipelines := update_row k f (db_pipelines db)\<rparr>) i u = owned_by_pipeline db i u" for i u
    using assms(2) by (auto simp: owned_by_pipeline_def)
  moreover have "list_all (\<lambda>p. pl_owner_id p \<in> fst ` set (db_users db)) (dict_values (update_row k f (db_pipelines db)))"
    using assms by (intro list_all_update_row) (auto simp: wf_db_defs)
  ultimately show ?thesis using assms(1) by (simp add: wf_db_defs)
qed

lemma wf_update_run:
  assumes "wf_db db" and "\<And>r. rn_pipeline_id (f r) = rn_pipeline_id r" and "\<And>r. rn_owner_id (f r) = rn_owner_id r"
    and "\<And>r. dict_get (db_runs db) k = Some r \<Longrightarrow> run_ok r \<Longrightarrow> run_ok (f r)"
  shows "wf_db (db\<lparr>db_runs := update_row k f (db_runs db)\<rparr>)"
proof -
  have "list_all run_ok (dict_values (update_row k f (db_runs db)))"
    using assms by (intro list_all_update_row) (auto simp: wf_db_defs)
  moreover have "list_all (\<lambda>r. owned_by_pipeline db (rn_pipeline_id r) (rn_owner_id r)) (dict_values (update_row k f (db_runs db)))"
    using assms(1-3) by (intro list_all_update_row) (auto simp: wf_db_defs)
  ultimately show ?thesis using assms(1) by (simp add: wf_db_defs)
qed

lemma wf_update_schedule:
  assumes "wf_db db"
    and "\<And>s. dict_get (db_schedules db) k = Some s \<Longrightarrow> sc_pipeline_id (f s) = sc_pipeline_id s \<and> sc_owner_id (f s) = sc_owner_id s"
  shows "wf_db (db\<lparr>db_schedules := update_row k f (db_schedules db)\<rparr>)"
proof -
  have "list_all (\<lambda>s. owned_by_pipeline db (sc_pipeline_id s) (sc_owner_id s)) (dict_values (update_row k f (db_schedules db)))"
    using assms by (intro list_all_update_row) (auto simp: wf_db_defs)
  with assms(1) show ?thesis by (simp add: wf_db_defs)
qed

lemma wf_update_secret:
  assumes "wf_db db" and "\<And>s. secret_key (f s) = secret_key s"
  shows "wf_db (db\<lparr>db_secrets := update_row k f (db_secrets db)\<rparr>)"
proof -
  have "list_all (\<lambda>s. se_owner_id s \<in> fst ` set (db_users db)) (dict_values (update_row k f (db_secrets db)))"
    using assms by (intro list_all_update_row) (auto simp: wf_db_defs secret_key_def)
  moreover have "distinct (map secret_key (dict_values (update_row k f (db_secrets db))))"
    using assms by (simp only: map_update_row) (simp add: wf_db_defs)
  ultimately show ?thesis using assms(1) by (simp add: wf_db_defs)
qed

lemma wf_dict_filter: "wf_dict t \<Longrightarrow> wf_dict (filter P t)"
  by (simp add: wf_dict_def distinct_map_filter)

lemma list_all_filter: "list_all P xs \<Longrightarrow> list_all P (filter Q xs)"
  by (simp add: list_all_iff)

lemma list_all_values_filter: "list_all P (dict_values t) \<Longrightarrow> list_all P (dict_values (filter Q t))"
  by (auto simp: list_all_iff)

lemma wf_filter_schedules:
  assumes "wf_db db"
  shows "wf_db (db\<lparr>db_schedules := filter P (db_schedules db)\<rparr>)"
  using assms by (simp add: wf_db_defs wf_dict_filter list_all_values_filter)

lemma wf_filter_secrets:
  assumes "wf_db db"
  shows "wf_db (db\<lparr>db_secrets := filter P (db_secrets db)\<rparr>)"
proof -
  have "distinct (map secret_key (dict_values (filter P (db_secrets db))))"
    using assms distinct_map_filter [of "secret_key \<circ> snd" "db_secrets db" P] by (simp add: wf_db_defs)
  with assms show ?thesis by (simp add: wf_db_defs wf_dict_filter list_all_values_filter)
qed

lemma wf_delete_pipeline:
  assumes "wf_db db"
  shows "wf_db (delete_pipeline_row k db)"
proof -
  let ?db = "delete_pipeline_row k db"
  have owned: "owned_by_pipeline ?db i u" if "owned_by_pipeline db i u" "i \<noteq> k" for i u
  proof -
    have "dict_get (delete_row k t) i = dict_get t i" for t :: "pipeline_row table"
      using that(2) by (induction t) (auto simp: delete_row_def)
    with that show ?thesis by (simp add: owned_by_pipeline_def delete_pipeline_row_def Let_def)
  qed
  have kept: "i \<in> fst ` set (db_runs ?db)" if "i \<in> fst ` set (db_runs db)" "i \<notin> set (runs_of_pipeline db k)" for i
    using that by (force simp: delete_pipeline_row_def runs_of_pipeline_def Let_def image_iff)
  have "keys_ok ?db"
    using assms by (auto simp: wf_db_def keys_ok_def delete_pipeline_row_def delete_row_def Let_def wf_dict_filter
        list_all_filter sorted_wrt_map sorted_wrt_filter)
  moreover have "refs_ok_db ?db"
    unfolding refs_ok_db_def
  proof (intro conjI)
    show "list_all (\<lambda>p. pl_owner_id p \<in> fst ` set (db_users ?db)) (dict_values (db_pipelines ?db))"
      using assms by (simp add: wf_db_def refs_ok_db_def delete_pipeline_row_def delete_row_def Let_def list_all_values_filter)
    show "list_all (\<lambda>r. owned_by_pipeline ?db (rn_pipeline_id r) (rn_owner_id r)) (dict_values (db_runs ?db))"
      using assms owned by (fastforce simp: wf_db_def refs_ok_db_def list_all_iff delete_pipeline_row_def Let_def)
    show "list_all (\<lambda>s. owned_by_pipeline ?db (sc_pipeline_id s) (sc_owner_id s)) (dict_values (db_schedules ?db))"
      using assms owned by (fastforce simp: wf_db_def refs_ok_db_def list_all_iff delete_pipeline_row_def Let_def)
    show "list_all (\<lambda>s. se_owner_id s \<in> fst ` set (db_users ?db)) (dict_values (db_secrets ?db))"
      using assms by (simp add: wf_db_def refs_ok_db_def delete_pipeline_row_def Let_def)
    show "list_all (\<lambda>l. lg_run_id l \<in> fst ` set (db_runs ?db)) (db_logs ?db)"
      using assms kept by (simp add: wf_db_def refs_ok_db_def list_all_iff) (simp add: delete_pipeline_row_def Let_def)
    show "list_all (\<lambda>e. er_run_id e \<in> fst ` set (db_runs ?db)) (db_errors ?db)"
      using assms kept by (simp add: wf_db_def refs_ok_db_def list_all_iff) (simp add: delete_pipeline_row_def Let_def)
  qed
  moreover have "list_all run_ok (dict_values (db_runs ?db))"
    using assms by (simp add: wf_db_def delete_pipeline_row_def Let_def list_all_values_filter)
  ultimately show ?thesis by (simp add: wf_db_def)
qed

end
