(* ===== verification/Secrets.thy ===== *)
theory Secrets
  imports Run_Context Graph
begin

text \<open>
  \<open>etl_core/secrets.py\<close>: which secrets a pipeline document names, the providers that look a name up, and
  the mapping a run receives. A Python set of names is the list of its members as they are first met;
  \<open>resolve_secrets\<close> sorts them, so the order does not show.
\<close>

section \<open>Collecting the names\<close>

fun config_refs :: "json \<Rightarrow> string list" where
  "config_refs (JDict d) =
     concat (map (\<lambda>p. case snd p of
                 JStr s \<Rightarrow> if fst p = ''secret_ref'' then [s] else []
               | v \<Rightarrow> config_refs v) d)"
| "config_refs (JList xs) = concat (map config_refs xs)"
| "config_refs v = []"

definition collect_refs_from_config :: "json \<Rightarrow> string list" where
  "collect_refs_from_config v = remdups (config_refs v)"

definition collect_secret_refs :: "pipeline_spec \<Rightarrow> string list" where
  "collect_secret_refs spec =
     remdups (concat (map (\<lambda>n. collect_refs_from_config (JDict (ns_config n))) (ps_nodes spec)))"

section \<open>Providers\<close>

definition env_get :: "string \<Rightarrow> string dict \<Rightarrow> string \<Rightarrow> exn + string" where
  "env_get pfx env ref =
     (case dict_get env (pfx @ ref) of None \<Rightarrow> Inl (SecretNotFoundError ref) | Some v \<Rightarrow> Inr v)"

definition static_get :: "string dict \<Rightarrow> string \<Rightarrow> exn + string" where
  "static_get vals ref =
     (case dict_get vals ref of None \<Rightarrow> Inl (SecretNotFoundError ref) | Some v \<Rightarrow> Inr v)"

definition resolve_secrets :: "(string \<Rightarrow> exn + string) \<Rightarrow> pipeline_spec \<Rightarrow> exn + string dict" where
  "resolve_secrets get spec =
     mapM (\<lambda>ref. sbind (get ref) (\<lambda>v. Inr (ref, v))) (sort (collect_secret_refs spec))"

section \<open>The provider interface\<close>

text \<open>The contract of \<open>SecretsProvider.get\<close>: a value, or \<open>SecretNotFoundError\<close> of the name asked for.\<close>

locale secrets_provider =
  fixes get :: "string \<Rightarrow> exn + string"
  assumes get_error: "get ref = Inl e \<Longrightarrow> e = SecretNotFoundError ref"
begin

lemma resolve_keys:
  assumes "resolve_secrets get spec = Inr secrets"
  shows "dict_keys secrets = sort (collect_secret_refs spec)"
proof (rule nth_equalityI)
  fix i assume "i < length (dict_keys secrets)"
  with assms show "dict_keys secrets ! i = sort (collect_secret_refs spec) ! i"
    unfolding resolve_secrets_def by (auto simp: mapM_Inr_iff sbind_eq_Inr) (metis fst_conv)
qed (use assms mapM_length in \<open>force simp: resolve_secrets_def\<close>)

lemma resolve_values:
  assumes "resolve_secrets get spec = Inr secrets" and "(ref, v) \<in> set secrets"
  shows "get ref = Inr v"
proof -
  obtain i where "i < length secrets" "secrets ! i = (ref, v)" using assms(2) by (metis in_set_conv_nth)
  with assms(1) show ?thesis unfolding resolve_secrets_def by (auto simp: mapM_Inr_iff sbind_eq_Inr)
qed

lemma resolve_wf: "resolve_secrets get spec = Inr secrets \<Longrightarrow> wf_dict secrets"
  by (simp add: wf_dict_def resolve_keys collect_secret_refs_def)

lemma resolve_lookup:
  assumes "resolve_secrets get spec = Inr secrets" and "ref \<in> set (collect_secret_refs spec)"
  shows "\<exists>v. dict_get secrets ref = Some v \<and> get ref = Inr v"
proof -
  have "ref \<in> set (dict_keys secrets)" using assms by (simp add: resolve_keys)
  then obtain v where v: "(ref, v) \<in> set secrets" by auto
  with resolve_wf [OF assms(1)] have "dict_get secrets ref = Some v" by (simp add: wf_dict_def)
  with resolve_values [OF assms(1) v] show ?thesis by blast
qed

lemma resolve_fails:
  assumes "resolve_secrets get spec = Inl e"
  shows "\<exists>ref \<in> set (collect_secret_refs spec). e = SecretNotFoundError ref"
  using assms get_error unfolding resolve_secrets_def
  by (fastforce simp: sbind_eq_Inl dest!: mapM_Inl)

lemma resolve_total:
  "(\<exists>secrets. resolve_secrets get spec = Inr secrets) \<longleftrightarrow>
     (\<forall>ref \<in> set (collect_secret_refs spec). \<exists>v. get ref = Inr v)"
proof
  assume "\<exists>secrets. resolve_secrets get spec = Inr secrets"
  then show "\<forall>ref \<in> set (collect_secret_refs spec). \<exists>v. get ref = Inr v"
    using resolve_lookup by blast
next
  assume ok: "\<forall>ref \<in> set (collect_secret_refs spec). \<exists>v. get ref = Inr v"
  show "\<exists>secrets. resolve_secrets get spec = Inr secrets"
  proof (cases "resolve_secrets get spec")
    case (Inl e)
    with ok show ?thesis unfolding resolve_secrets_def
      by (fastforce simp: sbind_eq_Inl dest!: mapM_Inl)
  qed simp
qed

text \<open>A node that names a secret with \<open>secret_ref\<close> finds it in the run's mapping.\<close>

lemma resolved_secret_available:
  assumes "resolve_secrets get spec = Inr secrets" and "n \<in> set (ps_nodes spec)"
    and "ref \<in> set (collect_refs_from_config (JDict (ns_config n)))"
    and "rc_secrets (nc_run ctx) = secrets"
  shows "\<exists>v. get_secret ctx ref = Inr v \<and> get ref = Inr v"
proof -
  have "ref \<in> set (collect_secret_refs spec)" using assms(2,3) by (auto simp: collect_secret_refs_def)
  then obtain v where "dict_get secrets ref = Some v" "get ref = Inr v" using resolve_lookup [OF assms(1)] by blast
  with assms(4) show ?thesis by (simp add: get_secret_def)
qed

end

interpretation env: secrets_provider "env_get pfx environment" for pfx environment
  by unfold_locales (auto simp: env_get_def split: option.splits)

interpretation static: secrets_provider "static_get vals" for vals
  by unfold_locales (auto simp: static_get_def split: option.splits)

section \<open>Properties\<close>


definition demo_spec :: pipeline_spec where
  "demo_spec =
     \<lparr>ps_id = ''p'', ps_nodes = [\<lparr>ns_id = ''a'', ns_type = ''api_source'', ns_config =
        [(''auth'', JDict [(''token'', JDict [(''secret_ref'', JStr ''TOK'')])])]\<rparr>], ps_edges = []\<rparr>"


end
