(* ===== verification/Secret_Store.thy ===== *)
theory Secret_Store
  imports Server_Store Crypto Secrets
begin

text \<open>
  \<open>etl_server/secrets_store.py\<close>: the encrypted secrets of the users, and the provider the worker resolves a
  run's secrets with.
\<close>

section \<open>Operations\<close>

definition secret_rows :: "database \<Rightarrow> uuid \<Rightarrow> string \<Rightarrow> secret_row table" where
  "secret_rows db owner_id ref = filter (\<lambda>p. se_owner_id (snd p) = owner_id \<and> se_ref (snd p) = ref) (db_secrets db)"

text \<open>\<open>scalar_one_or_none\<close>\<close>

definition one_or_none :: "'r table \<Rightarrow> exn + (uuid \<times> 'r) option" where
  "one_or_none rows =
     (case rows of
        [] \<Rightarrow> Inr None
      | [p] \<Rightarrow> Inr (Some p)
      | _ \<Rightarrow> Inl (OtherException ''MultipleResultsFound'' ''Multiple rows were found when one or none was required''))"

definition db_secret_get :: "crypto_lib \<Rightarrow> cipher_t \<Rightarrow> database \<Rightarrow> uuid \<Rightarrow> string \<Rightarrow> exn + string" where
  "db_secret_get lib c db owner_id ref =
     sbind (one_or_none (secret_rows db owner_id ref)) (\<lambda>row.
       case row of
         None \<Rightarrow> Inl (SecretNotFoundError ref)
       | Some (k, s) \<Rightarrow>
           (case cipher_decrypt lib c (se_ciphertext s) of
              Inl m \<Rightarrow> Inl (SecretNotFoundError ref)
            | Inr p \<Rightarrow> (case cy_utf8_decode lib p of Some v \<Rightarrow> Inr v | None \<Rightarrow> Inl (SecretNotFoundError ref))))"

text \<open>Assigning the value a column already has is no update, so the time of the last update stays.\<close>

definition set_ciphertext :: "string \<Rightarrow> timestamp \<Rightarrow> secret_row \<Rightarrow> secret_row" where
  "set_ciphertext token now s = (if se_ciphertext s = token then s else s\<lparr>se_ciphertext := token, se_updated_at := now\<rparr>)"

lemma set_ciphertext_simps [simp]:
  "se_ciphertext (set_ciphertext token now s) = token" "se_owner_id (set_ciphertext token now s) = se_owner_id s"
  "se_ref (set_ciphertext token now s) = se_ref s"
  by (simp_all add: set_ciphertext_def)

definition upsert_secret :: "crypto_lib \<Rightarrow> cipher_t \<Rightarrow> bytes \<Rightarrow> uuid \<Rightarrow> timestamp \<Rightarrow> uuid \<Rightarrow> string \<Rightarrow> string \<Rightarrow> database \<Rightarrow>
    server_exn + (uuid \<times> database)" where
  "upsert_secret lib c random new_id now owner_id ref value db =
     (let token = cipher_encrypt lib c random (utf8 value)
      in case one_or_none (secret_rows db owner_id ref) of
          Inl e \<Rightarrow> Inl (Uncaught ''MultipleResultsFound'')
        | Inr None \<Rightarrow>
            sbind (insert_secret new_id
                \<lparr>se_owner_id = owner_id, se_ref = ref, se_ciphertext = token, se_created_at = now, se_updated_at = now\<rparr> db)
              (\<lambda>db. Inr (new_id, db))
        | Inr (Some (k, s)) \<Rightarrow>
            Inr (k, db\<lparr>db_secrets := update_row k (set_ciphertext token now) (db_secrets db)\<rparr>))"

definition delete_secret :: "uuid \<Rightarrow> string \<Rightarrow> database \<Rightarrow> bool \<times> database" where
  "delete_secret owner_id ref db =
     (secret_rows db owner_id ref \<noteq> [],
      db\<lparr>db_secrets := filter (\<lambda>p. \<not> (se_owner_id (snd p) = owner_id \<and> se_ref (snd p) = ref)) (db_secrets db)\<rparr>)"

section \<open>Lookups\<close>

lemma distinct_map_constant:
  assumes "distinct (map f xs)" and "\<And>x. x \<in> set xs \<Longrightarrow> f x = a"
  shows "xs = [] \<or> (\<exists>p. xs = [p])"
proof (cases xs)
  case (Cons x ys)
  with assms show ?thesis by (cases ys) auto
qed simp

lemma secret_rows_unique:
  assumes "wf_db db"
  shows "secret_rows db owner ref = [] \<or> (\<exists>p. secret_rows db owner ref = [p])"
proof (rule distinct_map_constant)
  show "distinct (map (secret_key \<circ> snd) (secret_rows db owner ref))"
    using assms distinct_map_filter [of "secret_key \<circ> snd" "db_secrets db"] by (simp add: secret_rows_def wf_db_def keys_ok_def)
  show "(secret_key \<circ> snd) p = (owner, ref)" if "p \<in> set (secret_rows db owner ref)" for p
    using that by (auto simp: secret_rows_def secret_key_def)
qed

text \<open>In a well-typed database the store meets the contract of a secrets provider.\<close>

lemma db_secrets_provider: "wf_db db \<Longrightarrow> secrets_provider (db_secret_get lib c db owner)"
proof
  fix ref e assume "wf_db db" "db_secret_get lib c db owner ref = Inl e"
  then show "e = SecretNotFoundError ref"
    using secret_rows_unique [of db owner ref]
    by (auto simp: db_secret_get_def one_or_none_def split: sum.splits option.splits)
qed

lemma secret_rows_insert:
  "secret_rows (db\<lparr>db_secrets := db_secrets db @ [(k, s)]\<rparr>) o' r' =
     secret_rows db o' r' @ (if se_owner_id s = o' \<and> se_ref s = r' then [(k, s)] else [])"
  by (simp add: secret_rows_def)

lemma secret_rows_update:
  assumes "\<And>s. se_owner_id (f s) = se_owner_id s" and "\<And>s. se_ref (f s) = se_ref s"
  shows "secret_rows (db\<lparr>db_secrets := update_row k f (db_secrets db)\<rparr>) o' r' = update_row k f (secret_rows db o' r')"
proof -
  have "filter P (update_row k f t) = update_row k f (filter P t)" if "\<And>j s. P (j, f s) = P (j, s)" for P and t :: "secret_row table"
    using that by (induction t) (auto simp: update_row_def)
  then show ?thesis using assms by (simp add: secret_rows_def)
qed

lemma secret_rows_mem:
  assumes "secret_rows db owner ref = [(k, s)]"
  shows "(k, s) \<in> set (db_secrets db) \<and> se_owner_id s = owner \<and> se_ref s = ref"
proof -
  have "(k, s) \<in> set (secret_rows db owner ref)" by (simp add: assms)
  then show ?thesis by (simp add: secret_rows_def)
qed

lemma secret_rows_other:
  assumes "wf_db db" and "secret_rows db owner ref = [(k, s)]" and "(owner', ref') \<noteq> (owner, ref)"
  shows "update_row k f (secret_rows db owner' ref') = secret_rows db owner' ref'"
proof -
  have "fst p \<noteq> k" if "p \<in> set (secret_rows db owner' ref')" for p
  proof
    assume "fst p = k"
    with that have "(k, snd p) \<in> set (db_secrets db)" "se_owner_id (snd p) = owner'" "se_ref (snd p) = ref'"
      by (auto simp: secret_rows_def)
    with secret_rows_mem [OF assms(2)] assms(1,3) show False
      by (auto simp: wf_db_def keys_ok_def wf_dict_def dest: eq_key_imp_eq_value)
  qed
  then show ?thesis by (auto simp: update_row_def intro: map_idI)
qed

text \<open>
  C35. A stored secret is what its owner gets back: after setting a secret of a known user the provider of that
  user returns the value, however often it is set; secrets under other names and those of other users are
  untouched; and after its deletion it is not found.
\<close>

theorem secret_round_trip:
  assumes "wf_db db" and "upsert_secret lib c random new_id now owner ref value db = Inr (k, db')"
    and "cipher_usable lib c random (utf8 value)"
  shows "db_secret_get lib c db' owner ref = Inr value \<and>
    (\<forall>owner' ref'. (owner', ref') \<noteq> (owner, ref) \<longrightarrow> db_secret_get lib c db' owner' ref' = db_secret_get lib c db owner' ref') \<and>
    db_secret_get lib c (snd (delete_secret owner ref db')) owner ref = Inl (SecretNotFoundError ref)"
proof -
  have "crypto_laws lib" using assms(3) by (cases c) auto
  then have "cy_utf8_decode lib (utf8 value) = Some value" by (simp add: crypto_laws_def)
  then have get: "db_secret_get lib c db' owner ref = Inr value"
    if "secret_rows db' owner ref = [(k, s)]" "se_ciphertext s = cipher_encrypt lib c random (utf8 value)" for s
    using that model_cipher.decrypt_encrypt [OF assms(3)] by (simp add: db_secret_get_def one_or_none_def)
  have gone: "db_secret_get lib c (snd (delete_secret owner ref db')) owner ref = Inl (SecretNotFoundError ref)"
    by (simp add: db_secret_get_def secret_rows_def delete_secret_def one_or_none_def)
  show ?thesis
  proof (cases "secret_rows db owner ref = []")
    case True
    then have db': "db' = db\<lparr>db_secrets := db_secrets db @ [(k, \<lparr>se_owner_id = owner, se_ref = ref,
        se_ciphertext = cipher_encrypt lib c random (utf8 value), se_created_at = now, se_updated_at = now\<rparr>)]\<rparr>"
      using assms(2) by (auto simp: upsert_secret_def one_or_none_def insert_secret_def sbind_eq_Inr Let_def)
    have "db_secret_get lib c db' o' r' = db_secret_get lib c db o' r'" if "(o', r') \<noteq> (owner, ref)" for o' r'
      unfolding db_secret_get_def db' secret_rows_insert using that by auto
    with get gone True show ?thesis unfolding db' by (simp add: secret_rows_insert)
  next
    case False
    then obtain j s where row: "secret_rows db owner ref = [(j, s)]" using secret_rows_unique [OF assms(1)] by fastforce
    define f where "f = set_ciphertext (cipher_encrypt lib c random (utf8 value)) now"
    have db': "db' = db\<lparr>db_secrets := update_row k f (db_secrets db)\<rparr>" "k = j"
      using assms(2) row by (auto simp: upsert_secret_def one_or_none_def Let_def f_def)
    have rows: "secret_rows db' o' r' = update_row k f (secret_rows db o' r')" for o' r'
      unfolding db'(1) by (rule secret_rows_update) (simp_all add: f_def)
    have "secret_rows db' owner ref = [(k, f s)]" using row db'(2) by (simp add: rows update_row_def)
    moreover have "db_secret_get lib c db' o' r' = db_secret_get lib c db o' r'" if "(o', r') \<noteq> (owner, ref)" for o' r'
      unfolding db_secret_get_def rows using secret_rows_other [OF assms(1) row that] db'(2) by simp
    ultimately show ?thesis using get [of "f s"] gone by (simp add: f_def)
  qed
qed

definition demo_secret_db :: database where
  "demo_secret_db = empty_db\<lparr>db_users := [(1, \<lparr>us_email = ''a'', us_hashed_password = [], us_is_active = True, us_created_at = 0\<rparr>),
     (2, \<lparr>us_email = ''b'', us_hashed_password = [], us_is_active = True, us_created_at = 0\<rparr>)],
     db_secrets := [(7, \<lparr>se_owner_id = 2, se_ref = ''k'', se_ciphertext = ''eA=='', se_created_at = 0, se_updated_at = 0\<rparr>)]\<rparr>"

theorem secret_round_trip_witness:
  "\<exists>db'. upsert_secret demo_crypto (FernetCipher ''m'') [] 8 5 1 ''k'' ''pw'' demo_secret_db = Inr (8, db') \<and>
     db_secret_get demo_crypto (FernetCipher ''m'') db' 1 ''k'' = Inr ''pw'' \<and>
     db_secret_get demo_crypto (FernetCipher ''m'') db' 2 ''k'' = Inr ''x''"
proof -
  have wf: "wf_db demo_secret_db"
    by (simp add: wf_db_defs demo_secret_db_def empty_db_def wf_dict_def secret_key_def)
  have "bytes_ok (utf8 ''pw'')" by code_simp
  with demo_crypto_laws have ok: "cipher_usable demo_crypto (FernetCipher ''m'') [] (utf8 ''pw'')" by simp
  obtain db' where up: "upsert_secret demo_crypto (FernetCipher ''m'') [] 8 5 1 ''k'' ''pw'' demo_secret_db = Inr (8, db')"
    by (simp add: upsert_secret_def one_or_none_def secret_rows_def demo_secret_db_def insert_secret_def insert_row_def secret_key_def Let_def)
  have "db_secret_get demo_crypto (FernetCipher ''m'') demo_secret_db 2 ''k'' = Inr ''x''" by code_simp
  with secret_round_trip [OF wf up ok] up show ?thesis by auto
qed

end
