(* ===== verification/Settings.thy ===== *)
theory Settings
  imports Crypto Run_Context
begin

text \<open>
  \<open>etl_server/config.py\<close>: the deployment settings and the policy objects built from them. Reading them from the
  environment is pydantic's; the validator of the host list is modelled. The digest behind the development
  key is a parameter.
\<close>

record settings =
  sg_jwt_secret :: string
  sg_jwt_algorithm :: string
  sg_access_token_ttl_minutes :: int
  sg_secrets_algo :: string
  sg_master_key :: string
  sg_ssrf_enabled :: bool
  sg_ssrf_allow_hosts :: "string list"
  sg_max_run_concurrency :: int

text \<open>URL-safe base64 differs in two characters.\<close>

definition urlsafe :: "char \<Rightarrow> char" where
  "urlsafe c = (if c = CHR ''+'' then CHR ''-'' else if c = CHR ''/'' then CHR ''_'' else c)"

definition dev_master_key :: "(bytes \<Rightarrow> bytes) \<Rightarrow> string" where
  "dev_master_key sha256 = map urlsafe (b64encode (sha256 (utf8 ''etl-tool-dev-master-key'')))"

definition default_settings :: "(bytes \<Rightarrow> bytes) \<Rightarrow> settings" where
  "default_settings sha256 =
     \<lparr>sg_jwt_secret = ''dev-insecure-jwt-secret-change-me'', sg_jwt_algorithm = ''HS256'', sg_access_token_ttl_minutes = 60 * 24,
      sg_secrets_algo = ''fernet'', sg_master_key = dev_master_key sha256, sg_ssrf_enabled = True, sg_ssrf_allow_hosts = [],
      sg_max_run_concurrency = 8\<rparr>"

text \<open>A host list given as one text is split at commas; anything else goes to pydantic as it is.\<close>

definition split_hosts :: "json \<Rightarrow> json" where
  "split_hosts value =
     (case value of
        JStr s \<Rightarrow> JList (map JStr (filter (\<lambda>item. item \<noteq> []) (map strip_ws (split_on CHR '','' s))))
      | _ \<Rightarrow> value)"

definition settings_policy :: "settings \<Rightarrow> ssrf_policy" where
  "settings_policy s = \<lparr>sp_enabled = sg_ssrf_enabled s, sp_allow_hosts = sg_ssrf_allow_hosts s\<rparr>"

definition secrets_cipher :: "crypto_lib \<Rightarrow> settings \<Rightarrow> string + cipher_t" where
  "secrets_cipher lib s = make_cipher lib (sg_secrets_algo s) (sg_master_key s) EncBase64 EncBase64 None"

end
