(* ===== verification/Diagnostics.thy ===== *)
theory Diagnostics
  imports Api_Source Db_Nodes Secret_Store Settings
begin

text \<open>
  \<open>etl_core/diagnostics.py\<close> and its endpoint \<open>etl_server/routers/diagnostics.py\<close>: the ladder of connectivity
  checks of a source. Outside the source and hence parameters, in \<open>probe_world\<close>: the resolver, sockets, TLS, the
  HTTP transport, the database driver and the validation of configurations by their models. A probe answers its
  checks and lists what it contacted; latencies and time stamps are left out.
\<close>

section \<open>Checks and reports\<close>

datatype check_status = CkPassed | CkFailed | CkSkipped

record diag_check =
  ck_name :: string
  ck_status :: check_status
  ck_detail :: "string option"
  ck_error :: "string option"

record diag_report =
  dr_source_type :: string
  dr_target :: string
  dr_ok :: bool
  dr_checks :: "diag_check list"
  dr_sample :: "string option"

definition passed :: "string \<Rightarrow> string \<Rightarrow> diag_check" where
  "passed name d = \<lparr>ck_name = name, ck_status = CkPassed, ck_detail = Some d, ck_error = None\<rparr>"

definition failed :: "string \<Rightarrow> string \<Rightarrow> diag_check" where
  "failed name e = \<lparr>ck_name = name, ck_status = CkFailed, ck_detail = None, ck_error = Some e\<rparr>"

definition skipped :: "string \<Rightarrow> string \<Rightarrow> diag_check" where
  "skipped name d = \<lparr>ck_name = name, ck_status = CkSkipped, ck_detail = Some d, ck_error = None\<rparr>"

definition skip_rest :: "string list \<Rightarrow> diag_check list" where
  "skip_rest ns = map (\<lambda>n. skipped n ''skipped: earlier check failed'') ns"

definition ladder_ok :: "diag_check list \<Rightarrow> bool" where
  "ladder_ok checks \<longleftrightarrow> list_all (\<lambda>c. ck_status c \<noteq> CkFailed) checks"

lemmas check_defs = passed_def failed_def skipped_def skip_rest_def

section \<open>The world of a probe\<close>

text \<open>The answer to one HTTP exchange: an exception of the store, or a status and the text of the body.\<close>

datatype http_answer = HttpRaised nat | HttpAnswer int string

record probe_world =
  pw_dns :: resolver
  pw_os_error :: "exn \<Rightarrow> bool"
  pw_repr :: "exn \<Rightarrow> string"
  pw_tcp :: "string \<Rightarrow> int \<Rightarrow> exn + unit"
  pw_tls :: "api_config \<Rightarrow> string \<Rightarrow> int \<Rightarrow> exn + string"
  pw_hop :: "http_request \<Rightarrow> nat \<Rightarrow> string \<Rightarrow> http_answer hop"
  pw_store :: exc_store
  pw_decode :: "nat list \<Rightarrow> string"
  pw_merge :: "string \<Rightarrow> string dict \<Rightarrow> string"
  pw_driver :: db_driver
  pw_tables :: tables
  pw_dumps :: "(string \<times> db_value) list list \<Rightarrow> string"
  pw_api_config :: "json dict \<Rightarrow> string + api_config"
  pw_db_source :: "json dict \<Rightarrow> string + db_source_config"
  pw_connection :: "json dict \<Rightarrow> string + db_connection"

datatype contact = TcpContact string int | TlsContact string int | HttpContact string | DbContact db_connection

text \<open>A probe: an exception that escapes, or the checks with the sample; and what was contacted.\<close>

type_synonym probe = "(exn + (diag_check list \<times> string option)) \<times> contact list"

definition rung :: "diag_check \<Rightarrow> probe \<Rightarrow> probe" where
  "rung c p = (case p of (r, cs) \<Rightarrow> (map_sum id (\<lambda>(checks, s). (c # checks, s)) r, cs))"

definition contacting :: "contact list \<Rightarrow> probe \<Rightarrow> probe" where
  "contacting new p = (case p of (r, cs) \<Rightarrow> (r, new @ cs))"

definition stop :: "diag_check list \<Rightarrow> string option \<Rightarrow> probe" where
  "stop checks s = (Inr (checks, s), [])"

definition raising :: "exn \<Rightarrow> probe" where
  "raising e = (Inl e, [])"

section \<open>Rungs both ladders have\<close>

text \<open>The ellipsis after five addresses is written with the bytes of its UTF-8 form.\<close>

definition dns_passed :: "string list \<Rightarrow> diag_check" where
  "dns_passed ips = passed ''dns''
     (join_with '', '' (take 5 ips) @ (if 5 < length ips then map char_of [226 :: nat, 128, 166] else []))"

definition dns_failed :: "exn \<Rightarrow> diag_check" where
  "dns_failed e = failed ''dns'' (''DNS resolution failed: '' @ exn_str e)"

definition ssrf_check :: "ssrf_policy \<Rightarrow> string \<Rightarrow> string list \<Rightarrow> diag_check" where
  "ssrf_check policy host ips =
     (if sp_enabled policy then
        (case find_blocked host ips policy of
           Some reason \<Rightarrow> failed ''ssrf_policy'' reason
         | None \<Rightarrow> passed ''ssrf_policy'' ''host allowed by SSRF policy'')
      else skipped ''ssrf_policy'' ''SSRF guard disabled'')"

definition address_text :: "string \<Rightarrow> int \<Rightarrow> string" where
  "address_text ip port = ip @ '':'' @ int_str port"

definition tcp_stage :: "probe_world \<Rightarrow> string list \<Rightarrow> int \<Rightarrow> string list \<Rightarrow> probe \<Rightarrow> probe" where
  "tcp_stage w ips port rest next =
     (case ips of
        [] \<Rightarrow> raising (IndexError ''list index out of range'')
      | ip # _ \<Rightarrow>
          contacting [TcpContact ip port]
            (case pw_tcp w ip port of
               Inl e \<Rightarrow>
                 if pw_os_error w e
                 then stop (failed ''tcp'' (''cannot connect to '' @ address_text ip port @ '': '' @ pw_repr w e) # skip_rest rest) None
                 else raising e
             | Inr u \<Rightarrow> rung (passed ''tcp'' (address_text ip port @ '' reachable'')) next))"

text \<open>Name resolution, then the policy, then TCP; \<open>after_dns\<close> are the rungs skipped when there is no address.\<close>

definition network_stage :: "probe_world \<Rightarrow> ssrf_policy \<Rightarrow> string \<Rightarrow> int \<Rightarrow> string list \<Rightarrow> string list \<Rightarrow> probe \<Rightarrow> probe" where
  "network_stage w policy host port after_dns after_tcp next =
     (case resolve_host (pw_dns w) host (Some port) of
        Inl e \<Rightarrow> if pw_os_error w e then stop (dns_failed e # skip_rest after_dns) None else raising e
      | Inr ips \<Rightarrow>
          rung (dns_passed ips)
            (let check = ssrf_check policy host ips
             in if ck_status check = CkFailed then stop (check # skip_rest (''tcp'' # after_tcp)) None
                else rung check (tcp_stage w ips port after_tcp next)))"

section \<open>The ladder of an API source\<close>

text \<open>The exceptions of the guard and of the redirect limit, with the answers to the \<open>isinstance\<close> questions.\<close>

definition hook_exception :: "probe_world \<Rightarrow> exn \<Rightarrow> exc_obj" where
  "hook_exception w e =
     \<lparr>eo_name = exn_type e, eo_text = exn_str e, eo_timeout = False, eo_gaierror = (exn_type e = ''gaierror''), eo_ssl = False,
      eo_transport = False, eo_http_or_os = (pw_os_error w e \<or> exn_type e = ''TooManyRedirects''), eo_ssrf = (exn_type e = ''SSRFBlockedError''),
      eo_cause = None, eo_context = None\<rparr>"

definition raised_text :: "exc_obj \<Rightarrow> string" where
  "raised_text x = eo_name x @ '': '' @ eo_text x"

text \<open>One request through the guarded client, which follows at most twenty redirects.\<close>

definition client_request :: "probe_world \<Rightarrow> ssrf_policy \<Rightarrow> nat \<Rightarrow> string \<Rightarrow> string dict \<Rightarrow> string dict \<Rightarrow>
    ((error_category \<times> string) + (int \<times> string)) \<times> contact list" where
  "client_request w policy k url headers params =
     (let req = \<lparr>hr_url = url, hr_headers = headers, hr_params = map (\<lambda>(n, v). (n, JStr v)) params\<rparr>
      in case guarded_request (pw_dns w) policy (pw_hop w req k) 21 (pw_merge w url params) of
          (res, urls) \<Rightarrow>
            (case res of
               Inl e \<Rightarrow> (let x = hook_exception w e in Inl (categorize_exception [(0, x)] 0 x, raised_text x))
             | Inr (HttpRaised i) \<Rightarrow>
                 (case dict_get (pw_store w) i of
                    Some x \<Rightarrow> Inl (categorize_exception (pw_store w) i x, raised_text x)
                  | None \<Rightarrow> Inl (UNKNOWN, []))
             | Inr (HttpAnswer status body) \<Rightarrow> Inr (status, body),
             map HttpContact urls))"

definition or_none :: "string \<Rightarrow> string option" where
  "or_none s = (if s = [] then None else Some s)"

definition no_auth_detail :: "int \<Rightarrow> string" where
  "no_auth_detail status =
     ''no credentials configured'' @
     (if status \<in> {401, 403} then '' (endpoint answered HTTP '' @ int_str status @ ''; it likely requires auth)'' else [])"

definition missing_secret_msg :: "string \<Rightarrow> string" where
  "missing_secret_msg ref = ''secret '' @ repr_str ref @ '' was not provided''"

definition auth_stage :: "probe_world \<Rightarrow> ssrf_policy \<Rightarrow> string list \<Rightarrow> string dict \<Rightarrow> nat \<Rightarrow> api_config \<Rightarrow> string \<Rightarrow> string dict \<Rightarrow>
    string dict \<Rightarrow> int \<Rightarrow> string option \<Rightarrow> probe" where
  "auth_stage w policy vs secrets sample_bytes cfg url headers params unauth_status sample =
     (case ac_auth cfg of
        None \<Rightarrow> stop [skipped ''auth'' (no_auth_detail unauth_status)] sample
      | Some auth \<Rightarrow>
          (case dict_get secrets (au_secret_ref auth) of
             None \<Rightarrow> stop [failed ''auth'' (missing_secret_msg (au_secret_ref auth))] sample
           | Some secret \<Rightarrow>
               (case apply_auth auth secret of
                  (auth_headers, auth_params) \<Rightarrow>
                    (case client_request w policy 1 url (dict_update headers auth_headers) (dict_update params auth_params) of
                       (res, cs) \<Rightarrow>
                         contacting cs
                           (case res of
                              Inl (category, m) \<Rightarrow> stop [failed ''auth'' (redact vs m)] sample
                            | Inr (status, body) \<Rightarrow>
                                if status \<in> {401, 403}
                                then stop [failed ''auth'' (''HTTP '' @ int_str status @ '': credential was rejected'')] sample
                                else stop [passed ''auth'' (''HTTP '' @ int_str status @ '' with credentials'')]
                                  (case or_none (redact vs (take sample_bytes body)) of Some s \<Rightarrow> Some s | None \<Rightarrow> sample))))))"

definition http_stage :: "probe_world \<Rightarrow> ssrf_policy \<Rightarrow> string list \<Rightarrow> string dict \<Rightarrow> nat \<Rightarrow> api_config \<Rightarrow> string \<Rightarrow> probe" where
  "http_stage w policy vs secrets sample_bytes cfg url =
     (let headers = dict_of (map (\<lambda>(k, v). (k, py_str v)) (ac_headers cfg));
          params = dict_of (map (\<lambda>(k, v). (k, py_str v)) (ac_query_params cfg))
      in case client_request w policy 0 url headers params of
          (res, cs) \<Rightarrow>
            contacting cs
              (case res of
                 Inl (category, m) \<Rightarrow>
                   stop (failed ''http'' (redact vs (category_value category @ '': '' @ m)) # skip_rest [''auth'']) None
               | Inr (status, body) \<Rightarrow>
                   rung (passed ''http'' (''HTTP '' @ int_str status @ '' without credentials''))
                     (auth_stage w policy vs secrets sample_bytes cfg url headers params status
                        (or_none (redact vs (take sample_bytes body))))))"

definition tls_stage :: "probe_world \<Rightarrow> api_config \<Rightarrow> string \<Rightarrow> string \<Rightarrow> int \<Rightarrow> probe \<Rightarrow> probe" where
  "tls_stage w cfg scheme host port next =
     (if scheme = ''https'' then
        contacting [TlsContact host port]
          (case pw_tls w cfg host port of
             Inl e \<Rightarrow>
               if pw_os_error w e
               then stop (failed ''tls'' (''TLS handshake failed: '' @ exn_str e) # skip_rest [''http'', ''auth'']) None
               else raising e
           | Inr d \<Rightarrow> rung (passed ''tls'' d) next)
      else rung (skipped ''tls'' ''not https'') next)"

text \<open>The stub context raises \<open>ValueError\<close> with the message, unredacted.\<close>

definition stub_context :: node_ctx where
  "stub_context = \<lparr>nc_run = \<lparr>rc_secrets = [], rc_options = default_options, rc_redactor = []\<rparr>, nc_node_id = [], nc_node_type = [],
     nc_iter = None\<rparr>"

definition default_port :: "string \<Rightarrow> int option" where
  "default_port scheme = (if scheme = ''http'' then Some 80 else if scheme = ''https'' then Some 443 else None)"

record api_target =
  at_config :: api_config
  at_url :: string
  at_host :: string
  at_scheme :: string
  at_port :: int

text \<open>The configuration and the parts of its URL, or the text of the error.\<close>

definition api_target_of :: "probe_world \<Rightarrow> json dict \<Rightarrow> string + api_target" where
  "api_target_of w raw =
     sbind (pw_api_config w raw) (\<lambda>cfg.
       map_sum exn_str id
         (sbind (format_url (ac_url cfg) (ac_path_params cfg) stub_context) (\<lambda>url.
            sbind (urlsplit url) (\<lambda>parts.
              let scheme = lower_str (up_scheme parts)
              in case (url_hostname parts, default_port scheme) of
                  (Some host, Some dflt) \<Rightarrow>
                    sbind (url_port parts) (\<lambda>port.
                      Inr \<lparr>at_config = cfg, at_url = url, at_host = host, at_scheme = scheme,
                        at_port = (case port of Some p \<Rightarrow> if p = 0 then dflt else p | None \<Rightarrow> dflt)\<rparr>)
                | _ \<Rightarrow> Inl (ValueError (''URL must be http(s) with a host, got '' @ repr_str url))))))"

definition references_msg :: string where
  "references_msg = ''config contains $upstream/$iter references, which cannot be resolved outside a pipeline run; use literal values to test''"

text \<open>The URL of a configuration that was refused: \<open>urlsplit\<close> raises on a value that is no text.\<close>

definition raw_url :: "json dict \<Rightarrow> exn + string" where
  "raw_url raw =
     (case dict_get raw ''url'' of
        None \<Rightarrow> Inr []
      | Some (JStr s) \<Rightarrow> Inr s
      | Some v \<Rightarrow>
          Inl (if truthy v then OtherException ''AttributeError'' (quoted (type_name v) @ '' object has no attribute '' @ repr_str ''decode'')
               else TypeError (''a bytes-like object is required, not '' @ repr_str ''str'')))"

definition report :: "string \<Rightarrow> string \<Rightarrow> probe \<Rightarrow> (exn + diag_report) \<times> contact list" where
  "report source_type target p =
     (case p of (r, cs) \<Rightarrow>
        (map_sum id (\<lambda>(checks, s). \<lparr>dr_source_type = source_type, dr_target = target, dr_ok = ladder_ok checks,
           dr_checks = checks, dr_sample = s\<rparr>) r, cs))"

definition test_api_source :: "probe_world \<Rightarrow> json dict \<Rightarrow> string dict \<Rightarrow> ssrf_policy \<Rightarrow> nat \<Rightarrow> (exn + diag_report) \<times> contact list" where
  "test_api_source w raw secrets policy sample_bytes =
     (let vs = make_redactor (dict_values secrets) in
      if has_references (JDict raw) then
        report ''api_source'' (redact_url (pw_decode w) vs []) (stop [failed ''config'' references_msg] None)
      else case api_target_of w raw of
          Inl m \<Rightarrow>
            (case raw_url raw of
               Inl e \<Rightarrow> (Inl e, [])
             | Inr url \<Rightarrow> report ''api_source'' (redact_url (pw_decode w) vs url) (stop [failed ''config'' (redact vs m)] None))
        | Inr t \<Rightarrow>
            report ''api_source'' (redact_url (pw_decode w) vs (at_url t))
              (network_stage w policy (at_host t) (at_port t) [''tcp'', ''tls'', ''http'', ''auth''] [''tls'', ''http'', ''auth'']
                (tls_stage w (at_config t) (at_scheme t) (at_host t) (at_port t)
                  (http_stage w policy vs secrets sample_bytes (at_config t) (at_url t)))))"

section \<open>The ladder of a database source\<close>

definition not_network_msg :: "db_connection \<Rightarrow> string" where
  "not_network_msg c = driver_name (dc_driver c) @ '' is not a network driver''"

definition db_failure_text :: "string list \<Rightarrow> db_exc \<Rightarrow> string" where
  "db_failure_text vs exc = (case categorize_db_exception exc of (category, m) \<Rightarrow> redact vs (category_value category @ '': '' @ m))"

definition connect_stage :: "probe_world \<Rightarrow> string list \<Rightarrow> db_connection \<Rightarrow> string option \<Rightarrow> nat \<Rightarrow> probe" where
  "connect_stage w vs c password sample_bytes =
     contacting [DbContact c]
       (case open_engine (pw_driver w) c password of
          Inl exc \<Rightarrow> stop (failed ''connect'' (db_failure_text vs exc) # skip_rest [''query'']) None
        | Inr u \<Rightarrow>
            rung (passed ''connect'' (''connected'' @ (case truthy_text (dc_user c) of Some n \<Rightarrow> '' as '' @ n | None \<Rightarrow> [])))
              (case dv_query (pw_driver w) ''SELECT 1 AS ok'' [] (pw_tables w) of
                 Inl exc \<Rightarrow> stop [failed ''query'' (db_failure_text vs exc)] None
               | Inr result \<Rightarrow>
                   stop [passed ''query'' ''trivial query (SELECT 1) succeeded'']
                     (or_none (redact vs (take sample_bytes (pw_dumps w (case result of Some rows \<Rightarrow> rows | None \<Rightarrow> [])))))))"

definition connection_of :: "probe_world \<Rightarrow> json dict \<Rightarrow> string + db_connection" where
  "connection_of w raw =
     (if dict_get raw ''connection'' \<noteq> None then map_sum id ds_connection (pw_db_source w raw) else pw_connection w raw)"

definition skip_network :: "db_connection \<Rightarrow> probe \<Rightarrow> probe" where
  "skip_network c next =
     rung (skipped ''dns'' (not_network_msg c)) (rung (skipped ''ssrf_policy'' (not_network_msg c)) (rung (skipped ''tcp'' (not_network_msg c)) next))"

definition test_db_source :: "probe_world \<Rightarrow> json dict \<Rightarrow> string dict \<Rightarrow> ssrf_policy \<Rightarrow> nat \<Rightarrow> (exn + diag_report) \<times> contact list" where
  "test_db_source w raw secrets policy sample_bytes =
     (let vs = make_redactor (dict_values secrets) in
      if has_references (JDict raw) then report ''db_source'' (redact vs []) (stop [failed ''config'' references_msg] None)
      else case connection_of w raw of
          Inl m \<Rightarrow> report ''db_source'' (redact vs []) (stop [failed ''config'' (redact vs m)] None)
        | Inr c \<Rightarrow>
            (let target = redact vs (endpoint_summary c);
                 password = (case truthy_text (dc_secret_ref c) of Some ref \<Rightarrow> dict_get secrets ref | None \<Rightarrow> None)
             in case (truthy_text (dc_secret_ref c), password) of
                 (Some ref, None) \<Rightarrow> report ''db_source'' target (stop [failed ''config'' (missing_secret_msg ref)] None)
               | _ \<Rightarrow>
                   report ''db_source'' target
                     (let next = connect_stage w vs c password sample_bytes
                      in case endpoint c of
                          (Some host, port) \<Rightarrow>
                            network_stage w policy host (port_or_default (dc_port c)) [''ssrf_policy'', ''tcp'', ''connect'', ''query'']
                              [''connect'', ''query''] next
                        | (None, _) \<Rightarrow> skip_network c next)))"

section \<open>Entry points\<close>

definition unsupported_source_msg :: "string \<Rightarrow> string" where
  "unsupported_source_msg t =
     ''unsupported source type '' @ repr_str t @ ''; supported: '' @ repr_str ''api_source'' @ '', '' @ repr_str ''db_source''"

definition test_connection :: "probe_world \<Rightarrow> string \<Rightarrow> json dict \<Rightarrow> string dict \<Rightarrow> ssrf_policy \<Rightarrow> nat \<Rightarrow> (exn + diag_report) \<times> contact list" where
  "test_connection w source_type raw secrets policy sample_bytes =
     (if source_type = ''api_source'' then test_api_source w raw secrets policy sample_bytes
      else if source_type = ''db_source'' then test_db_source w raw secrets policy sample_bytes
      else report (if source_type = [] then ''unknown'' else source_type) []
        (stop [failed ''config'' (unsupported_source_msg source_type)] None))"

text \<open>The secrets of the configuration that the user has; a missing one is left to the ladder.\<close>

fun provided_secrets :: "(string \<Rightarrow> exn + string) \<Rightarrow> string list \<Rightarrow> exn + string dict" where
  "provided_secrets get [] = Inr []"
| "provided_secrets get (ref # refs) =
     (case get ref of
        Inr v \<Rightarrow> sbind (provided_secrets get refs) (\<lambda>d. Inr ((ref, v) # d))
      | Inl (SecretNotFoundError r) \<Rightarrow> provided_secrets get refs
      | Inl e \<Rightarrow> Inl e)"

definition run_test_connection :: "crypto_lib \<Rightarrow> cipher_t \<Rightarrow> probe_world \<Rightarrow> settings \<Rightarrow> database \<Rightarrow> uuid \<Rightarrow> string \<Rightarrow> json dict \<Rightarrow>
    (exn + diag_report) \<times> contact list" where
  "run_test_connection lib c w s db user source_type raw =
     (case provided_secrets (db_secret_get lib c db user) (collect_refs_from_config (JDict raw)) of
        Inl e \<Rightarrow> (Inl e, [])
      | Inr secrets \<Rightarrow> test_connection w source_type raw secrets (settings_policy s) 2000)"

section \<open>What a probe guarantees\<close>

text \<open>After a failed check every later one is skipped.\<close>

fun climbs :: "diag_check list \<Rightarrow> bool" where
  "climbs [] = True"
| "climbs (c # cs) = (if ck_status c = CkFailed then list_all (\<lambda>d. ck_status d = CkSkipped) cs else climbs cs)"

text \<open>A host the policy permits at a port, and the contacts that are permitted.\<close>

definition vetted :: "resolver \<Rightarrow> ssrf_policy \<Rightarrow> string \<Rightarrow> int \<Rightarrow> bool" where
  "vetted dns policy host port \<longleftrightarrow>
     lower_str (bare_host host) \<in> set (policy_names policy) \<or>
     (\<exists>ips. resolve_host dns host (Some port) = Inr ips \<and>
        (\<forall>ip \<in> set ips. \<exists>a. ip_address ip = Some a \<and> (list_ex (in_net a) (policy_networks policy) \<or> public_addr a)))"

fun contact_permitted :: "resolver \<Rightarrow> ssrf_policy \<Rightarrow> contact \<Rightarrow> bool" where
  "contact_permitted dns policy (TcpContact ip port) =
     (\<exists>host ips. vetted dns policy host port \<and> resolve_host dns host (Some port) = Inr ips \<and> ip \<in> set ips)"
| "contact_permitted dns policy (TlsContact host port) = vetted dns policy host port"
| "contact_permitted dns policy (HttpContact url) = url_permitted dns policy url"
| "contact_permitted dns policy (DbContact c) = db_permitted dns policy c"

definition sound_probe :: "probe_world \<Rightarrow> ssrf_policy \<Rightarrow> string list \<Rightarrow> string list set \<Rightarrow> probe \<Rightarrow> bool" where
  "sound_probe w policy vs shapes p \<longleftrightarrow>
     (sp_enabled policy \<longrightarrow> (\<forall>c \<in> set (snd p). contact_permitted (pw_dns w) policy c)) \<and>
     (\<forall>checks s. fst p = Inr (checks, s) \<longrightarrow>
        map ck_name checks \<in> shapes \<and> climbs checks \<and> (\<forall>t. s = Some t \<longrightarrow> (\<exists>u. t = redact vs u)))"

lemma sound_rung:
  assumes "sound_probe w policy vs shapes p" and "ck_status c \<noteq> CkFailed" and "\<And>ns. ns \<in> shapes \<Longrightarrow> ck_name c # ns \<in> shapes'"
  shows "sound_probe w policy vs shapes' (rung c p)"
  using assms by (cases p; cases "fst p") (auto simp: sound_probe_def rung_def)

lemma sound_rung_single:
  "sound_probe w policy vs {ns} p \<Longrightarrow> ck_status c \<noteq> CkFailed \<Longrightarrow> sound_probe w policy vs {ck_name c # ns} (rung c p)"
  by (rule sound_rung) auto

lemma sound_mono: "sound_probe w policy vs shapes p \<Longrightarrow> shapes \<subseteq> shapes' \<Longrightarrow> sound_probe w policy vs shapes' p"
  by (auto simp: sound_probe_def)

lemma sound_contacting:
  assumes "sound_probe w policy vs shapes p" and "sp_enabled policy \<Longrightarrow> \<forall>c \<in> set new. contact_permitted (pw_dns w) policy c"
  shows "sound_probe w policy vs shapes (contacting new p)"
  using assms by (cases p) (auto simp: sound_probe_def contacting_def)

lemma sound_stop:
  assumes "map ck_name checks \<in> shapes" and "climbs checks" and "\<And>t. s = Some t \<Longrightarrow> \<exists>u. t = redact vs u"
  shows "sound_probe w policy vs shapes (stop checks s)"
  using assms by (auto simp: sound_probe_def stop_def)

lemma sound_raising: "sound_probe w policy vs shapes (raising e)"
  by (simp add: sound_probe_def raising_def)

lemma skip_rest_simps [simp]:
  "map ck_name (skip_rest ns) = ns" "list_all (\<lambda>d. ck_status d = CkSkipped) (skip_rest ns)"
  by (simp_all add: skip_rest_def skipped_def comp_def list_all_iff)

lemma check_simps [simp]:
  "ck_name (passed n d) = n" "ck_status (passed n d) = CkPassed" "ck_name (failed n d) = n" "ck_status (failed n d) = CkFailed"
  "ck_name (skipped n d) = n" "ck_status (skipped n d) = CkSkipped"
  by (simp_all add: passed_def failed_def skipped_def)

lemma or_none_redacted: "or_none (redact vs s) = Some t \<Longrightarrow> \<exists>u. t = redact vs u"
  by (auto simp: or_none_def split: if_splits)

lemmas sound_intros = sound_rung sound_contacting sound_stop sound_raising

subsection \<open>Stages\<close>

lemma client_request_permitted:
  assumes "client_request w policy k url headers params = (res, cs)" and "sp_enabled policy"
  shows "\<forall>c \<in> set cs. contact_permitted (pw_dns w) policy c"
proof -
  let ?req = "\<lparr>hr_url = url, hr_headers = headers, hr_params = map (\<lambda>(n, v). (n, JStr v)) params\<rparr>"
  obtain r urls where g: "guarded_request (pw_dns w) policy (pw_hop w ?req k) 21 (pw_merge w url params) = (r, urls)" by fastforce
  with assms(1) have "cs = map HttpContact urls" by (simp add: client_request_def Let_def)
  with guarded_requests_permitted [OF g assms(2)] show ?thesis by auto
qed

lemma sound_auth_stage:
  assumes "\<And>t. sample = Some t \<Longrightarrow> \<exists>u. t = redact vs u"
  shows "sound_probe w policy vs {[''auth'']} (auth_stage w policy vs secrets n cfg url headers params status sample)"
proof -
  have "sound_probe w policy vs {[''auth'']}
      (contacting cs (case res of
         Inl (category, m) \<Rightarrow> stop [failed ''auth'' (redact vs m)] sample
       | Inr (status, body) \<Rightarrow>
           if status \<in> {401, 403} then stop [failed ''auth'' (''HTTP '' @ int_str status @ '': credential was rejected'')] sample
           else stop [passed ''auth'' (''HTTP '' @ int_str status @ '' with credentials'')]
             (case or_none (redact vs (take n body)) of Some s \<Rightarrow> Some s | None \<Rightarrow> sample)))"
    if "client_request w policy k url' hs ps = (res, cs)" for k url' hs ps res cs
    using client_request_permitted [OF that] assms
    by (intro sound_contacting) (auto intro!: sound_stop dest: or_none_redacted split: sum.splits option.splits)
  then show ?thesis
    unfolding auth_stage_def using assms
    by (auto intro!: sound_stop split: option.splits prod.splits)
qed

lemma sound_http_stage: "sound_probe w policy vs {[''http'', ''auth'']} (http_stage w policy vs secrets n cfg url)"
proof -
  define headers where "headers = dict_of (map (\<lambda>(k, v). (k, py_str v)) (ac_headers cfg))"
  define params where "params = dict_of (map (\<lambda>(k, v). (k, py_str v)) (ac_query_params cfg))"
  obtain res cs where req: "client_request w policy 0 url headers params = (res, cs)" by fastforce
  have "sound_probe w policy vs {[''http'', ''auth'']}
      (rung (passed ''http'' d) (auth_stage w policy vs secrets n cfg url headers params status (or_none (redact vs (take n body)))))" for d status body
    by (rule sound_rung [OF sound_auth_stage]) (auto dest: or_none_redacted)
  with req client_request_permitted [OF req] show ?thesis
    unfolding http_stage_def headers_def [symmetric] params_def [symmetric] Let_def
    by (auto intro!: sound_contacting sound_stop split: sum.splits)
qed

lemma sound_tls_stage:
  assumes "sound_probe w policy vs {[''http'', ''auth'']} next" and "sp_enabled policy \<Longrightarrow> vetted (pw_dns w) policy host port"
  shows "sound_probe w policy vs {[''tls'', ''http'', ''auth'']} (tls_stage w cfg scheme host port next)"
  unfolding tls_stage_def using assms
  by (auto intro!: sound_contacting sound_stop sound_raising sound_rung [OF assms(1)] split: sum.splits)

lemma sound_connect_stage:
  assumes "sp_enabled policy \<Longrightarrow> db_permitted (pw_dns w) policy c"
  shows "sound_probe w policy vs {[''connect'', ''query'']} (connect_stage w vs c password n)"
proof -
  have "sound_probe w policy vs {[''query'']}
      (case dv_query (pw_driver w) ''SELECT 1 AS ok'' [] (pw_tables w) of
         Inl exc \<Rightarrow> stop [failed ''query'' (db_failure_text vs exc)] None
       | Inr result \<Rightarrow> stop [passed ''query'' ''trivial query (SELECT 1) succeeded'']
           (or_none (redact vs (take n (pw_dumps w (case result of Some rows \<Rightarrow> rows | None \<Rightarrow> []))))))"
    by (auto intro!: sound_stop dest: or_none_redacted split: sum.splits)
  from sound_rung [OF this] assms show ?thesis
    unfolding connect_stage_def by (auto intro!: sound_contacting sound_stop split: sum.splits)
qed

text \<open>The probe that follows a passed TCP rung may rely on the host being vetted.\<close>

lemma ssrf_check_vetted:
  assumes "resolve_host dns host (Some port) = Inr ips" and "ck_status (ssrf_check policy host ips) \<noteq> CkFailed" and "sp_enabled policy"
  shows "vetted dns policy host port"
proof -
  have "find_blocked host ips policy = None"
    using assms(2,3) by (auto simp: ssrf_check_def split: option.splits)
  with assms(3) have "lower_str (bare_host host) \<in> set (policy_names policy) \<or> check_ips (policy_networks policy) host ips = None"
    by (auto simp: find_blocked_def split: if_splits)
  with assms(1) show ?thesis unfolding vetted_def check_ips_None using unblocked_public by blast
qed

lemma sound_network_stage:
  assumes "(sp_enabled policy \<Longrightarrow> vetted (pw_dns w) policy host port) \<Longrightarrow> sound_probe w policy vs {after_tcp} next"
  shows "sound_probe w policy vs {''dns'' # after_dns, ''dns'' # ''ssrf_policy'' # ''tcp'' # after_tcp}
    (network_stage w policy host port after_dns after_tcp next)"
proof (cases "resolve_host (pw_dns w) host (Some port)")
  case (Inl e)
  then show ?thesis
    by (auto simp: network_stage_def dns_failed_def intro!: sound_stop sound_raising)
next
  case (Inr ips)
  define check where "check = ssrf_check policy host ips"
  have name: "ck_name check = ''ssrf_policy''" by (auto simp: check_def ssrf_check_def split: option.splits)
  have "sound_probe w policy vs {''ssrf_policy'' # ''tcp'' # after_tcp}
      (if ck_status check = CkFailed then stop (check # skip_rest (''tcp'' # after_tcp)) None
       else rung check (tcp_stage w ips port after_tcp next))"
  proof (cases "ck_status check = CkFailed")
    case True
    with name show ?thesis by (auto intro!: sound_stop)
  next
    case False
    have vetted: "vetted (pw_dns w) policy host port" if "sp_enabled policy"
      using ssrf_check_vetted [OF Inr _ that] False by (simp add: check_def)
    then have rest: "sound_probe w policy vs {after_tcp} next" by (rule assms)
    have "contact_permitted (pw_dns w) policy (TcpContact ip port)" if "sp_enabled policy" "ip \<in> set ips" for ip
      using vetted that Inr by auto
    then have "sound_probe w policy vs {''tcp'' # after_tcp} (tcp_stage w ips port after_tcp next)"
      unfolding tcp_stage_def
      by (auto simp del: contact_permitted.simps intro!: sound_contacting sound_stop sound_raising sound_rung [OF rest] split: list.splits sum.splits)
    from sound_rung [OF this] name False show ?thesis by auto
  qed
  then have "sound_probe w policy vs {''dns'' # ''ssrf_policy'' # ''tcp'' # after_tcp} (network_stage w policy host port after_dns after_tcp next)"
    unfolding network_stage_def Inr check_def Let_def using sound_rung_single [where c = "dns_passed ips"]
    by (simp add: dns_passed_def)
  then show ?thesis by (rule sound_mono) simp
qed

lemma vetted_db_permitted:
  "endpoint c = (Some host, port) \<Longrightarrow> vetted dns policy host (port_or_default (dc_port c)) \<Longrightarrow> db_permitted dns policy c"
  by (auto simp: db_permitted_def vetted_def endpoint_def split: if_splits)

lemma sound_db_ladder:
  "sound_probe w policy vs {[''dns'', ''ssrf_policy'', ''tcp'', ''connect'', ''query'']}
     (case endpoint c of
        (Some host, port) \<Rightarrow>
          network_stage w policy host (port_or_default (dc_port c)) [''ssrf_policy'', ''tcp'', ''connect'', ''query'']
            [''connect'', ''query''] (connect_stage w vs c password n)
      | (None, _) \<Rightarrow> skip_network c (connect_stage w vs c password n))"
proof (cases "endpoint c")
  case (Pair h port)
  show ?thesis
  proof (cases h)
    case None
    with Pair have "db_permitted dns policy c" for dns by (simp add: db_permitted_def)
    then have "sound_probe w policy vs {[''connect'', ''query'']} (connect_stage w vs c password n)" by (rule sound_connect_stage)
    then have "sound_probe w policy vs {[''tcp'', ''connect'', ''query'']} (rung (skipped ''tcp'' d) (connect_stage w vs c password n))" for d
      using sound_rung_single [where c = "skipped ''tcp'' d"] by simp
    then have "sound_probe w policy vs {[''ssrf_policy'', ''tcp'', ''connect'', ''query'']}
        (rung (skipped ''ssrf_policy'' d) (rung (skipped ''tcp'' d) (connect_stage w vs c password n)))" for d
      using sound_rung_single [where c = "skipped ''ssrf_policy'' d"] by simp
    then show ?thesis
      using sound_rung_single [where c = "skipped ''dns'' (not_network_msg c)"] by (simp add: skip_network_def Pair None)
  next
    case (Some host)
    from Pair Some vetted_db_permitted [of c host port]
    have "sound_probe w policy vs {[''connect'', ''query'']} (connect_stage w vs c password n)"
      if "sp_enabled policy \<Longrightarrow> vetted (pw_dns w) policy host (port_or_default (dc_port c))"
      using that by (intro sound_connect_stage) simp
    from sound_network_stage [OF this, where after_dns = "[''ssrf_policy'', ''tcp'', ''connect'', ''query'']"]
    show ?thesis by (simp add: Pair Some)
  qed
qed

subsection \<open>Reports\<close>

definition ladder_shapes :: "string \<Rightarrow> string list set" where
  "ladder_shapes t =
     insert [''config'']
       (if t = ''api_source'' then
          {[''dns'', ''tcp'', ''tls'', ''http'', ''auth''], [''dns'', ''ssrf_policy'', ''tcp'', ''tls'', ''http'', ''auth'']}
        else if t = ''db_source'' then {[''dns'', ''ssrf_policy'', ''tcp'', ''connect'', ''query'']}
        else {})"

definition sound_report :: "probe_world \<Rightarrow> ssrf_policy \<Rightarrow> string list \<Rightarrow> string list set \<Rightarrow> (exn + diag_report) \<times> contact list \<Rightarrow> bool" where
  "sound_report w policy vs shapes p \<longleftrightarrow>
     (sp_enabled policy \<longrightarrow> (\<forall>c \<in> set (snd p). contact_permitted (pw_dns w) policy c)) \<and>
     (\<forall>r. fst p = Inr r \<longrightarrow>
        map ck_name (dr_checks r) \<in> shapes \<and> climbs (dr_checks r) \<and> dr_ok r = ladder_ok (dr_checks r) \<and>
        (\<exists>u. dr_target r = redact vs u \<or> dr_target r = []) \<and> (\<forall>t. dr_sample r = Some t \<longrightarrow> (\<exists>u. t = redact vs u)))"

lemma sound_report:
  assumes "sound_probe w policy vs shapes p" and "\<exists>u. target = redact vs u \<or> target = []" and "shapes \<subseteq> shapes'"
  shows "sound_report w policy vs shapes' (report t target p)"
  using assms by (cases p; cases "fst p") (auto simp: sound_report_def sound_probe_def report_def)

lemma sound_config_failure: "sound_probe w policy vs {[''config'']} (stop [failed ''config'' m] None)"
  by (rule sound_stop) simp_all

lemma sound_test_api_source:
  "sound_report w policy (make_redactor (dict_values secrets)) (ladder_shapes ''api_source'') (test_api_source w raw secrets policy n)"
proof -
  have "sound_report w policy vs (ladder_shapes ''api_source'') (report ''api_source'' (redact_url (pw_decode w) vs u) (stop [failed ''config'' m] None))" for vs u m
    using redact_url_redacts [of "pw_decode w" vs u] by (intro sound_report [OF sound_config_failure]) (auto simp: ladder_shapes_def)
  moreover have "sound_report w policy vs (ladder_shapes ''api_source'')
      (report ''api_source'' (redact_url (pw_decode w) vs u)
        (network_stage w policy host port [''tcp'', ''tls'', ''http'', ''auth''] [''tls'', ''http'', ''auth'']
          (tls_stage w cfg scheme host port (http_stage w policy vs secrets n cfg u))))" for vs u host port cfg scheme
    using redact_url_redacts [of "pw_decode w" vs u]
    by (intro sound_report [OF sound_network_stage] sound_tls_stage sound_http_stage) (auto simp: ladder_shapes_def)
  moreover have "sound_report w policy vs shapes (Inl e, [])" for vs shapes e by (simp add: sound_report_def)
  ultimately show ?thesis unfolding test_api_source_def Let_def by (auto split: sum.splits)
qed

lemma sound_test_db_source:
  "sound_report w policy (make_redactor (dict_values secrets)) (ladder_shapes ''db_source'') (test_db_source w raw secrets policy n)"
proof -
  have "sound_report w policy vs (ladder_shapes ''db_source'') (report ''db_source'' (redact vs u) (stop [failed ''config'' m] None))" for vs u m
    by (intro sound_report [OF sound_config_failure]) (auto simp: ladder_shapes_def)
  moreover have "sound_report w policy vs (ladder_shapes ''db_source'') (report ''db_source'' (redact vs u)
     (case endpoint c of
        (Some host, port) \<Rightarrow>
          network_stage w policy host (port_or_default (dc_port c)) [''ssrf_policy'', ''tcp'', ''connect'', ''query'']
            [''connect'', ''query''] (connect_stage w vs c password n)
      | (None, _) \<Rightarrow> skip_network c (connect_stage w vs c password n)))" for vs u c password
    by (intro sound_report [OF sound_db_ladder]) (auto simp: ladder_shapes_def)
  ultimately show ?thesis unfolding test_db_source_def Let_def by (auto split: sum.split option.split)
qed

text \<open>A text that was redacted, or is empty, hides every secret the redactor covers.\<close>

lemma redacted_hides:
  assumes "v \<in> set (dict_values secrets)" and "MIN_REDACTABLE_LENGTH \<le> length v" and "CHR ''*'' \<notin> set v"
  shows "\<not> occurs_in v (redact (make_redactor (dict_values secrets)) u)" and "\<not> occurs_in v []"
proof -
  have "v \<in> set (secret_variants v)" using secret_variants_long [of v] assms(2) by (auto simp: MIN_REDACTABLE_LENGTH_def)
  with assms show "\<not> occurs_in v (redact (make_redactor (dict_values secrets)) u)"
    using redactor_nonempty [of "dict_values secrets"] by (intro redact_removes) (auto simp: set_make_redactor)
  show "\<not> occurs_in v []" using assms(2) by (auto simp: MIN_REDACTABLE_LENGTH_def)
qed


text \<open>A world in which every host is reachable and answers with a body that contains a secret.\<close>

definition demo_probe_api :: "json dict \<Rightarrow> string + api_config" where
  "demo_probe_api raw =
     (case dict_get raw ''url'' of
        Some (JStr u) \<Rightarrow> Inr \<lparr>ac_method = ''GET'', ac_url = u, ac_path_params = [], ac_query_params = [], ac_headers = [], ac_body = JNull,
          ac_auth = None, ac_pagination = None, ac_retry = default_retry, ac_rate_limit = None, ac_items_path = None\<rparr>
      | _ \<Rightarrow> Inl ''url: Input should be a valid string'')"

definition demo_probe :: probe_world where
  "demo_probe = \<lparr>pw_dns = (\<lambda>_ _. Inr []), pw_os_error = (\<lambda>_. True), pw_repr = exn_str, pw_tcp = (\<lambda>_ _. Inr ()), pw_tls = (\<lambda>_ _ _. Inr []),
     pw_hop = (\<lambda>_ _ _. Final (HttpAnswer 200 ''a hunter2'')), pw_store = [], pw_decode = (\<lambda>_. []), pw_merge = (\<lambda>u _. u),
     pw_driver = demo_driver, pw_tables = [], pw_dumps = (\<lambda>_. []), pw_api_config = demo_probe_api,
     pw_db_source = (\<lambda>_. Inl []), pw_connection = (\<lambda>_. Inl [])\<rparr>"

abbreviation demo_test :: "json \<Rightarrow> nat \<Rightarrow> (exn + diag_report) \<times> contact list" where
  "demo_test url n \<equiv> test_connection demo_probe ''api_source'' [(''url'', url)] [(''k'', ''hunter2'')] \<lparr>sp_enabled = True, sp_allow_hosts = []\<rparr> n"

definition demo_summary :: "(exn + diag_report) \<times> contact list \<Rightarrow> (bool \<times> string option \<times> string list) option \<times> contact list" where
  "demo_summary p = (case fst p of Inr r \<Rightarrow> Some (dr_ok r, dr_sample r, map ck_name (dr_checks r)) | Inl e \<Rightarrow> None, snd p)"

lemma demo_public_host:
  "demo_summary (demo_test (JStr ''http://8.8.8.8/'') 20) =
     (Some (True, Some ''a ***'', [''dns'', ''ssrf_policy'', ''tcp'', ''tls'', ''http'', ''auth'']),
      [TcpContact ''8.8.8.8'' 80, HttpContact ''http://8.8.8.8/''])"
  by code_simp


text \<open>
  The body is cut before it is redacted, so a secret that the cut divides leaves its beginning in the sample.
\<close>

lemma sample_cut_leaks:
  "fst (demo_summary (test_connection demo_probe ''api_source'' [(''url'', JStr ''http://8.8.8.8/'')] [(''k'', ''hunter2'')]
     \<lparr>sp_enabled = False, sp_allow_hosts = []\<rparr> 8)) =
   Some (True, Some ''a hunter'', [''dns'', ''ssrf_policy'', ''tcp'', ''tls'', ''http'', ''auth''])"
  by code_simp

text \<open>A configuration whose URL is no text is not reported: the test raises.\<close>

lemma non_text_url_raises: "isl (fst (demo_test (JInt 5) n))"
  by (simp add: test_connection_def test_api_source_def api_target_of_def demo_probe_def demo_probe_api_def raw_url_def
      has_references_def Let_def)

end
