(* ===== verification/Cli.thy ===== *)
theory Cli
  imports Diagnostics Engine_Results Secrets
begin

text \<open>
  \<open>etl_core/cli.py\<close>: the commands \<open>run\<close>, \<open>test\<close> and \<open>validate\<close>, from parsed arguments to exit status, printed lines
  and written files. Parsing of arguments (argparse) and of documents (pydantic), reading of files, the printing
  of models as JSON and the formatted durations are parameters.
\<close>

section \<open>Arguments and outcome\<close>

record cli_args =
  cl_secrets_file :: "string option"
  cl_secrets_prefix :: string
  cl_allow_host :: "string list"
  cl_no_ssrf_guard :: bool
  cl_json :: bool
  cl_continue_on_error :: bool
  cl_max_concurrency :: nat
  cl_output :: "string option"
  cl_show_records :: int

datatype cli_command = RunCommand string cli_args | TestCommand string cli_args | ValidateCommand string

definition EXIT_OK :: int where "EXIT_OK = 0"
definition EXIT_FAILED :: int where "EXIT_FAILED = 1"
definition EXIT_USAGE :: int where "EXIT_USAGE = 2"

text \<open>The outcome: the text of \<open>SystemExit\<close> or the status, the lines on both streams, the files written.\<close>

record cli_outcome =
  co_exit :: "string + int"
  co_out :: "string list"
  co_err :: "string list"
  co_files :: "(string \<times> string) list"

definition exiting :: "string \<Rightarrow> cli_outcome" where
  "exiting m = \<lparr>co_exit = Inl m, co_out = [], co_err = [], co_files = []\<rparr>"

text \<open>
  The surroundings: files by path (the error's text otherwise), \<open>json.loads\<close>, the environment, the validation of
  documents, the JSON text of results and reports, and the texts of times.
\<close>

record cli_world =
  cw_read :: "string \<Rightarrow> string + string"
  cw_loads :: "string \<Rightarrow> string + json"
  cw_env :: "string dict"
  cw_pipeline :: "string \<Rightarrow> string + pipeline_spec"
  cw_node_spec :: "json \<Rightarrow> string + node_spec"
  cw_dump_result :: "run_result \<Rightarrow> string"
  cw_dump_report :: "diag_report \<Rightarrow> string"
  cw_took :: string
  cw_node_ms :: "string \<Rightarrow> string option"
  cw_latency :: "nat \<Rightarrow> string"

definition cli_ssrf_policy :: "cli_args \<Rightarrow> ssrf_policy" where
  "cli_ssrf_policy args = \<lparr>sp_enabled = \<not> cl_no_ssrf_guard args, sp_allow_hosts = cl_allow_host args\<rparr>"

section \<open>Secrets\<close>

fun first_found :: "(string \<Rightarrow> exn + string) list \<Rightarrow> string \<Rightarrow> string option" where
  "first_found [] ref = None"
| "first_found (get # gets) ref = (case get ref of Inr v \<Rightarrow> Some v | Inl e \<Rightarrow> first_found gets ref)"

definition file_values :: "cli_world \<Rightarrow> string \<Rightarrow> string + string dict" where
  "file_values w path =
     (case sbind (cw_read w path) (cw_loads w) of
        Inl m \<Rightarrow> Inl (''error: cannot read secrets file: '' @ m)
      | Inr (JDict d) \<Rightarrow> Inr (dict_of (map (\<lambda>(k, v). (k, py_str v)) d))
      | Inr v \<Rightarrow> Inl ''error: secrets file must be a JSON object of {ref: value}'')"

definition missing_secrets_msg :: "cli_args \<Rightarrow> string list \<Rightarrow> string" where
  "missing_secrets_msg args missing =
     ''error: missing secret(s): '' @ join_with '', '' missing @ '' (set '' @ cl_secrets_prefix args @ ''<REF> or use --secrets-file)''"

definition cli_providers :: "cli_world \<Rightarrow> cli_args \<Rightarrow> string + (string \<Rightarrow> exn + string) list" where
  "cli_providers w args =
     (let env = env_get (cl_secrets_prefix args) (cw_env w)
      in case cl_secrets_file args of
          None \<Rightarrow> Inr [env]
        | Some path \<Rightarrow> sbind (file_values w path) (\<lambda>d. Inr [static_get d, env]))"

definition gather_secrets :: "cli_world \<Rightarrow> cli_args \<Rightarrow> string list \<Rightarrow> string + string dict" where
  "gather_secrets w args refs =
     sbind (cli_providers w args) (\<lambda>gets.
       let missing = filter (\<lambda>ref. first_found gets ref = None) (sort refs)
       in if missing \<noteq> [] then Inl (missing_secrets_msg args missing)
          else Inr (map (\<lambda>ref. (ref, the (first_found gets ref))) (sort refs)))"

section \<open>Printing\<close>

definition issue_str :: "validation_issue \<Rightarrow> string" where
  "issue_str i = (case truthy_text (vi_node_id i) of Some n \<Rightarrow> ''['' @ n @ ''] '' | None \<Rightarrow> []) @ vi_message i"

text \<open>The icons are written with the bytes of their UTF-8 form.\<close>

fun node_icon :: "node_status \<Rightarrow> string" where
  "node_icon SUCCEEDED = map char_of [226 :: nat, 156, 148]"
| "node_icon FAILED = map char_of [226 :: nat, 156, 150]"
| "node_icon SKIPPED = map char_of [226 :: nat, 151, 139]"

fun node_status_text :: "node_status \<Rightarrow> string" where
  "node_status_text SUCCEEDED = ''succeeded''"
| "node_status_text FAILED = ''failed''"
| "node_status_text SKIPPED = ''skipped''"

definition node_line :: "cli_world \<Rightarrow> node_result \<Rightarrow> string" where
  "node_line w r =
     ''  '' @ node_icon (nr_status r) @ '' '' @ nr_node_id r @ '' ('' @ nr_node_type r @ '') - '' @ node_status_text (nr_status r) @
     (case nr_records_out r of Some n \<Rightarrow> '', '' @ nat_str n @ '' record(s)'' | None \<Rightarrow> []) @
     (case nr_iterations r of Some n \<Rightarrow> '', '' @ nat_str n @ '' iteration(s)'' | None \<Rightarrow> []) @
     (case cw_node_ms w (nr_node_id r) of Some ms \<Rightarrow> '', '' @ ms @ '' ms'' | None \<Rightarrow> [])"

definition error_lines :: "node_error \<Rightarrow> string list" where
  "error_lines e =
     [''  '' @ node_icon FAILED @ '' '' @ ne_node_id e @ '' ['' @ category_value (ne_category e) @ '']: '' @ ne_message e] @
     (case truthy_text (ne_request_summary e) of Some s \<Rightarrow> [''      request: '' @ s] | None \<Rightarrow> []) @
     (case ne_http_status e of
        Some n \<Rightarrow> if n = 0 then [] else [''      http_status: '' @ int_str n @ '', attempts: '' @ nat_str (ne_attempts e)]
      | None \<Rightarrow> [])"

definition output_lines :: "int \<Rightarrow> (string \<times> records) \<Rightarrow> string list" where
  "output_lines show_records p =
     (''  '' @ fst p @ '': '' @ nat_str (length (snd p)) @ '' record(s)'') #
     map (\<lambda>r. ''    '' @ take 400 (dumps None (JDict r))) (take (nat show_records) (snd p))"

definition print_run_summary :: "cli_world \<Rightarrow> run_result \<Rightarrow> int \<Rightarrow> string list" where
  "print_run_summary w r show_records =
     [''pipeline '' @ repr_str (rr_pipeline_id r) @ '': '' @ upper_ascii (run_status_value (rr_status r)) @ '' in '' @ cw_took w @ ''s''] @
     map (\<lambda>p. node_line w (snd p)) (rr_node_results r) @
     (if rr_errors r \<noteq> [] then ''errors:'' # concat (map error_lines (rr_errors r)) else []) @
     (if rr_outputs r \<noteq> [] \<and> 0 < show_records then ''outputs:'' # concat (map (output_lines show_records) (rr_outputs r)) else [])"

fun check_icon :: "check_status \<Rightarrow> string" where
  "check_icon CkPassed = map char_of [226 :: nat, 156, 148]"
| "check_icon CkFailed = map char_of [226 :: nat, 156, 150]"
| "check_icon CkSkipped = map char_of [226 :: nat, 151, 139]"

definition check_line :: "cli_world \<Rightarrow> nat \<times> diag_check \<Rightarrow> string" where
  "check_line w p =
     (case p of (i, c) \<Rightarrow>
        ''  '' @ check_icon (ck_status c) @ '' '' @ ck_name c @ replicate (12 - length (ck_name c)) CHR '' '' @ '' '' @ cw_latency w i @ ''  '' @
        (case truthy_text (ck_detail c) of Some d \<Rightarrow> d | None \<Rightarrow> (case ck_error c of Some e \<Rightarrow> e | None \<Rightarrow> [])))"

definition print_test_report :: "cli_world \<Rightarrow> diag_report \<Rightarrow> string list" where
  "print_test_report w r =
     [''target: '' @ (if dr_target r = [] then ''(invalid config)'' else dr_target r)] @
     map (check_line w) (enumerate 0 (dr_checks r)) @
     [''result: '' @ (if dr_ok r then ''OK'' else ''FAILED'')] @
     (case truthy_text (dr_sample r) of
        Some s \<Rightarrow> [''sample body (truncated, redacted):'',
          ''  '' @ py_replace [char_of (10 :: nat)] ([char_of (10 :: nat)] @ ''  '') (take 500 s)]
      | None \<Rightarrow> [])"

section \<open>Commands\<close>

definition load_pipeline :: "cli_world \<Rightarrow> string \<Rightarrow> string + pipeline_spec" where
  "load_pipeline w path =
     (case cw_read w path of
        Inl m \<Rightarrow> Inl (''error: cannot read '' @ path @ '': '' @ m)
      | Inr content \<Rightarrow>
          (case cw_pipeline w content of
             Inl m \<Rightarrow> Inl (''error: '' @ path @ '' is not a valid pipeline document:'' @ [char_of (10 :: nat)] @ m)
           | Inr spec \<Rightarrow> Inr spec))"

definition invalid_lines :: "pipeline_spec \<Rightarrow> validation_issue list \<Rightarrow> string list" where
  "invalid_lines spec issues =
     (''pipeline '' @ repr_str (ps_id spec) @ '' is invalid:'') # map (\<lambda>i. ''  - '' @ issue_str i) issues"

definition run_options_of :: "cli_args \<Rightarrow> exec_options" where
  "run_options_of args = default_options\<lparr>eo_max_concurrency := cl_max_concurrency args,
     eo_continue_on_error := cl_continue_on_error args, eo_ssrf_policy := cli_ssrf_policy args\<rparr>"

definition finish_cmd_run :: "cli_world \<Rightarrow> cli_args \<Rightarrow> string dict \<Rightarrow> run_result \<Rightarrow> cli_outcome" where
  "finish_cmd_run w args secrets r =
     (let result_json = redact (make_redactor (dict_values secrets)) (cw_dump_result w r)
      in \<lparr>co_exit = Inr (if rr_status r = RunSucceeded then EXIT_OK else EXIT_FAILED),
          co_out = (if cl_json args then [result_json] else print_run_summary w r (cl_show_records args)),
          co_err = (case cl_output args of Some path \<Rightarrow> [''wrote full run result to '' @ path] | None \<Rightarrow> []),
          co_files = (case cl_output args of Some path \<Rightarrow> [(path, result_json)] | None \<Rightarrow> [])\<rparr>)"

text \<open>The result is an exception of the engine, or an outcome; \<^const>\<open>None\<close> if the run does not end.\<close>

definition cmd_run :: "cli_world \<Rightarrow> 'c registry \<Rightarrow> (string \<Rightarrow> choice list) \<Rightarrow> string \<Rightarrow> cli_args \<Rightarrow> (exn + cli_outcome) option" where
  "cmd_run w reg sched path args =
     (case load_pipeline w path of
        Inl m \<Rightarrow> Some (Inr (exiting m))
      | Inr spec \<Rightarrow>
          (let issues = validate_pipeline reg spec
           in if issues \<noteq> [] then
                Some (Inr \<lparr>co_exit = Inr EXIT_USAGE, co_out = [], co_err = invalid_lines spec issues, co_files = []\<rparr>)
              else (case gather_secrets w args (collect_secret_refs spec) of
                  Inl m \<Rightarrow> Some (Inr (exiting m))
                | Inr secrets \<Rightarrow>
                    map_option (map_sum id (finish_cmd_run w args secrets))
                      (execute_pipeline reg sched spec secrets (run_options_of args)))))"

definition bad_source_msg :: "string \<Rightarrow> string \<Rightarrow> string" where
  "bad_source_msg path m =
     ''error: '' @ path @ '' must be a node spec {'' @ [CHR 0x22] @ ''type'' @ [CHR 0x22] @ '': '' @ [CHR 0x22] @ ''api_source'' @ [CHR 0x22] @ '', '' @
     [CHR 0x22] @ ''config'' @ [CHR 0x22] @ '': {...}}:'' @ [char_of (10 :: nat)] @ m"

definition cmd_test :: "cli_world \<Rightarrow> probe_world \<Rightarrow> string \<Rightarrow> cli_args \<Rightarrow> exn + cli_outcome" where
  "cmd_test w pw path args =
     (case cw_read w path of
        Inl m \<Rightarrow> Inr (exiting (''error: cannot read '' @ path @ '': '' @ m))
      | Inr content \<Rightarrow>
          (case sbind (cw_loads w content) (cw_node_spec w) of
             Inl m \<Rightarrow> Inr (exiting (bad_source_msg path m))
           | Inr source \<Rightarrow>
               (case gather_secrets w args (collect_refs_from_config (JDict (ns_config source))) of
                  Inl m \<Rightarrow> Inr (exiting m)
                | Inr secrets \<Rightarrow>
                    map_sum id (\<lambda>r. \<lparr>co_exit = Inr (if dr_ok r then EXIT_OK else EXIT_FAILED),
                        co_out = (if cl_json args then [cw_dump_report w r] else print_test_report w r), co_err = [], co_files = []\<rparr>)
                      (fst (test_connection pw (ns_type source) (ns_config source) secrets (cli_ssrf_policy args) 2000)))))"

definition cmd_validate :: "cli_world \<Rightarrow> 'c registry \<Rightarrow> string \<Rightarrow> cli_outcome" where
  "cmd_validate w reg path =
     (case load_pipeline w path of
        Inl m \<Rightarrow> exiting m
      | Inr spec \<Rightarrow>
          (let issues = validate_pipeline reg spec
           in if issues \<noteq> [] then \<lparr>co_exit = Inr EXIT_FAILED, co_out = invalid_lines spec issues, co_err = [], co_files = []\<rparr>
              else \<lparr>co_exit = Inr EXIT_OK,
                co_out = [''pipeline '' @ repr_str (ps_id spec) @ '' is valid ('' @ nat_str (length (ps_nodes spec)) @ '' nodes, '' @
                  nat_str (length (ps_edges spec)) @ '' edges)''],
                co_err = [], co_files = []\<rparr>))"

fun main_command :: "cli_world \<Rightarrow> probe_world \<Rightarrow> 'c registry \<Rightarrow> (string \<Rightarrow> choice list) \<Rightarrow> cli_command \<Rightarrow> (exn + cli_outcome) option" where
  "main_command w pw reg sched (RunCommand path args) = cmd_run w reg sched path args"
| "main_command w pw reg sched (TestCommand path args) = Some (cmd_test w pw path args)"
| "main_command w pw reg sched (ValidateCommand path) = Some (Inr (cmd_validate w reg path))"

section \<open>What the commands guarantee\<close>

lemmas exit_defs = EXIT_OK_def EXIT_FAILED_def EXIT_USAGE_def

text \<open>A secret of the file takes precedence over the variable of the environment.\<close>

lemma first_found_precedence:
  "first_found [static_get d, env_get pfx env] ref =
     (case dict_get d ref of Some v \<Rightarrow> Some v | None \<Rightarrow> dict_get env (pfx @ ref))"
  by (auto simp: static_get_def env_get_def split: option.splits)

lemma gather_secrets_correct:
  assumes "cli_providers w args = Inr gets"
  shows "gather_secrets w args refs = Inr secrets \<longleftrightarrow>
    dict_keys secrets = sort refs \<and> (\<forall>(ref, v) \<in> set secrets. first_found gets ref = Some v)"
    (is "?gathered \<longleftrightarrow> ?keys \<and> ?found")
proof
  assume ?gathered
  with assms have "\<forall>ref \<in> set refs. first_found gets ref \<noteq> None" "secrets = map (\<lambda>ref. (ref, the (first_found gets ref))) (sort refs)"
    by (auto simp: gather_secrets_def Let_def filter_empty_conv split: if_splits)
  then show "?keys \<and> ?found" by (auto simp: comp_def)
next
  assume *: "?keys \<and> ?found"
  then have found: "first_found gets ref = Some v" if "(ref, v) \<in> set secrets" for ref v using that by auto
  have "\<forall>ref \<in> set refs. first_found gets ref \<noteq> None"
  proof
    fix ref assume "ref \<in> set refs"
    then have "ref \<in> set (dict_keys secrets)" using * by simp
    with found show "first_found gets ref \<noteq> None" by auto
  qed
  moreover have "secrets = map (\<lambda>ref. (ref, the (first_found gets ref))) (dict_keys secrets)"
    using found by (auto simp: comp_def intro!: map_idI [symmetric])
  ultimately show ?gathered using assms * by (simp add: gather_secrets_def Let_def filter_empty_conv)
qed

text \<open>Status 0 of \<open>run\<close> means that the document was valid, the secrets were there and the run succeeded.\<close>

lemma cmd_run_exit_ok:
  assumes "cmd_run w reg sched path args = Some (Inr out)"
  shows "co_exit out = Inr EXIT_OK \<longleftrightarrow>
    (\<exists>spec secrets r. load_pipeline w path = Inr spec \<and> validate_pipeline reg spec = [] \<and>
       gather_secrets w args (collect_secret_refs spec) = Inr secrets \<and>
       execute_pipeline reg sched spec secrets (run_options_of args) = Some (Inr r) \<and> rr_status r = RunSucceeded)"
proof (cases "load_pipeline w path")
  case (Inl m)
  with assms show ?thesis by (auto simp: cmd_run_def exiting_def)
next
  case spec: (Inr spec)
  show ?thesis
  proof (cases "validate_pipeline reg spec = []")
    case False
    with assms spec show ?thesis by (auto simp: cmd_run_def exit_defs)
  next
    case valid: True
    show ?thesis
    proof (cases "gather_secrets w args (collect_secret_refs spec)")
      case (Inl m)
      with assms spec valid show ?thesis by (auto simp: cmd_run_def exiting_def)
    next
      case (Inr secrets)
      with assms spec valid obtain r where
        r: "execute_pipeline reg sched spec secrets (run_options_of args) = Some (Inr r)" "out = finish_cmd_run w args secrets r"
        by (cases "execute_pipeline reg sched spec secrets (run_options_of args)"; cases "the (execute_pipeline reg sched spec secrets (run_options_of args))")
          (auto simp: cmd_run_def)
      then have "co_exit out = Inr EXIT_OK \<longleftrightarrow> rr_status r = RunSucceeded"
        by (simp add: finish_cmd_run_def Let_def exit_defs)
      with spec valid Inr r(1) show ?thesis by auto
    qed
  qed
qed

text \<open>A document that is not valid is not run: nothing is written, and both commands report the issues.\<close>

lemma invalid_document:
  assumes "load_pipeline w path = Inr spec" and "validate_pipeline reg spec \<noteq> []"
  shows "cmd_run w reg sched path args =
      Some (Inr \<lparr>co_exit = Inr EXIT_USAGE, co_out = [], co_err = invalid_lines spec (validate_pipeline reg spec), co_files = []\<rparr>)"
    and "co_exit (cmd_validate w reg path) = Inr EXIT_FAILED"
    and "co_out (cmd_validate w reg path) = invalid_lines spec (validate_pipeline reg spec)"
  using assms by (simp_all add: cmd_run_def cmd_validate_def)

text \<open>
  What \<open>run\<close> writes to the output file, and prints with \<open>--json\<close>, hides the secrets; the summary that is printed
  otherwise shows the records of the outputs as they are.
\<close>

lemma finish_cmd_run_hides:
  assumes "v \<in> set (dict_values secrets)" and "MIN_REDACTABLE_LENGTH \<le> length v" and "CHR ''*'' \<notin> set v"
  shows "\<forall>(path, content) \<in> set (co_files (finish_cmd_run w args secrets r)). \<not> occurs_in v content"
    and "cl_json args \<Longrightarrow> \<forall>line \<in> set (co_out (finish_cmd_run w args secrets r)). \<not> occurs_in v line"
  using redacted_hides(1) [OF assms] by (auto simp: finish_cmd_run_def Let_def split: option.splits)

end
