(* ===== verification/Job_Queue.thy ===== *)
theory Job_Queue
  imports Server_Store
begin

text \<open>
  \<open>etl_server/queue.py\<close>: the interface \<open>JobQueue\<close> the API and the scheduler enqueue runs with, and its
  implementations. The text of an identifier in a Redis job stands for the identifier.
\<close>

section \<open>The interface\<close>

locale job_queue =
  fixes enqueue_run :: "uuid \<Rightarrow> 'q \<Rightarrow> 'q" and jobs :: "'q \<Rightarrow> uuid list"
  assumes jobs_enqueue: "jobs (enqueue_run r q) = jobs q @ [r]"
begin

text \<open>Enqueuing one run after the other, as the scheduler does, keeps their order and loses none.\<close>

lemma jobs_enqueue_all: "jobs (fold enqueue_run rs q) = jobs q @ rs"
  by (induction rs arbitrary: q) (simp_all add: jobs_enqueue)

end

section \<open>Implementations\<close>

text \<open>\<open>InMemoryJobQueue\<close>: with a runner each job runs at once, on the state the runner works on.\<close>

record 's memory_queue =
  mq_enqueued :: "uuid list"
  mq_state :: 's

definition memory_enqueue :: "(uuid \<Rightarrow> 's \<Rightarrow> 's) option \<Rightarrow> uuid \<Rightarrow> 's memory_queue \<Rightarrow> 's memory_queue" where
  "memory_enqueue runner r q =
     (let q = q\<lparr>mq_enqueued := mq_enqueued q @ [r]\<rparr>
      in case runner of None \<Rightarrow> q | Some run \<Rightarrow> q\<lparr>mq_state := run r (mq_state q)\<rparr>)"

text \<open>\<open>ArqJobQueue\<close>: a job names the task and its argument.\<close>

type_synonym arq_pool = "(string \<times> uuid) list"

definition arq_enqueue :: "uuid \<Rightarrow> arq_pool \<Rightarrow> arq_pool" where
  "arq_enqueue r pool = pool @ [(''run_pipeline_task'', r)]"

definition arq_jobs :: "arq_pool \<Rightarrow> uuid list" where
  "arq_jobs pool = map snd (filter (\<lambda>j. fst j = ''run_pipeline_task'') pool)"

interpretation memory: job_queue "memory_enqueue runner" mq_enqueued for runner
  by unfold_locales (simp add: memory_enqueue_def Let_def split: option.splits)

interpretation arq: job_queue arq_enqueue arq_jobs
  by unfold_locales (simp add: arq_enqueue_def arq_jobs_def)

end
