(* ===== verification/Scheduler.thy ===== *)
theory Scheduler
  imports Job_Queue
begin

text \<open>
  \<open>etl_server/scheduler.py\<close>: validation of schedules, the next time a schedule fires, and the tick that turns
  due schedules into queued runs. Cron expressions and time zones are the business of croniter and zoneinfo,
  the fields of \<open>cron_lib\<close>. An operation reads the clock once. The rows of a query without \<open>ORDER BY\<close> come in
  the order of the table.
\<close>

section \<open>Cron expressions\<close>

record cron_lib =
  cl_is_valid :: "string \<Rightarrow> bool"
  cl_zone_known :: "string \<Rightarrow> bool"
  cl_get_next :: "string \<Rightarrow> string \<Rightarrow> timestamp \<Rightarrow> datetime"
  cl_local_to_utc :: "string \<Rightarrow> int \<Rightarrow> timestamp"

definition validate_timezone :: "cron_lib \<Rightarrow> string \<Rightarrow> string + unit" where
  "validate_timezone lib tz = (if cl_zone_known lib tz then Inr () else Inl (''unknown timezone '' @ repr_str tz))"

definition validate_cron :: "cron_lib \<Rightarrow> string \<Rightarrow> string + unit" where
  "validate_cron lib expr = (if cl_is_valid lib expr then Inr () else Inl (''invalid cron expression '' @ repr_str expr))"

definition compute_next_run :: "cron_lib \<Rightarrow> string \<Rightarrow> string \<Rightarrow> timestamp \<Rightarrow> string + timestamp" where
  "compute_next_run lib expr tz after =
     sbind (validate_cron lib expr) (\<lambda>_. sbind (validate_timezone lib tz) (\<lambda>_.
       let nxt = cl_get_next lib expr tz after
       in Inr (if dt_offset nxt = None then cl_local_to_utc lib tz (dt_local nxt) else instant nxt)))"

text \<open>What croniter documents of \<open>get_next\<close>: the time lies after the one asked about.\<close>

definition cron_later :: "cron_lib \<Rightarrow> bool" where
  "cron_later lib \<longleftrightarrow> (\<forall>expr tz after t. compute_next_run lib expr tz after = Inr t \<longrightarrow> after < t)"

definition refresh_next_run :: "cron_lib \<Rightarrow> timestamp \<Rightarrow> schedule_row \<Rightarrow> string + schedule_row" where
  "refresh_next_run lib now s =
     sbind (compute_next_run lib (sc_cron_expr s) (sc_timezone s) now) (\<lambda>t. Inr (s\<lparr>sc_next_run := Some t\<rparr>))"

section \<open>The tick\<close>

definition is_due :: "timestamp \<Rightarrow> schedule_row \<Rightarrow> bool" where
  "is_due now s \<longleftrightarrow> sc_enabled s \<and> (case sc_next_run s of None \<Rightarrow> False | Some t \<Rightarrow> t \<le> now)"

definition scheduled_run :: "timestamp \<Rightarrow> schedule_row \<Rightarrow> run_row" where
  "scheduled_run now s =
     \<lparr>rn_pipeline_id = sc_pipeline_id s, rn_owner_id = sc_owner_id s, rn_status = phase_value RQueued,
      rn_trigger = trigger_value TSchedule, rn_params = None, rn_error_count = 0, rn_result = None, rn_created_at = now,
      rn_started_at = None, rn_finished_at = None\<rparr>"

definition fired :: "cron_lib \<Rightarrow> timestamp \<Rightarrow> schedule_row \<Rightarrow> schedule_row" where
  "fired lib now s =
     (let s = s\<lparr>sc_last_run := Some now\<rparr>
      in case compute_next_run lib (sc_cron_expr s) (sc_timezone s) now of
          Inr t \<Rightarrow> s\<lparr>sc_next_run := Some t\<rparr>
        | Inl e \<Rightarrow> s\<lparr>sc_enabled := False\<rparr>)"

fun tick_loop :: "cron_lib \<Rightarrow> timestamp \<Rightarrow> (nat \<Rightarrow> uuid) \<Rightarrow> nat \<Rightarrow> schedule_row table \<Rightarrow> database \<Rightarrow> server_exn + (uuid list \<times> database)" where
  "tick_loop lib now fresh i [] db = Inr ([], db)"
| "tick_loop lib now fresh i ((k, s) # due) db =
     sbind (insert_run (fresh i) (scheduled_run now s) db) (\<lambda>db.
       sbind (tick_loop lib now fresh (Suc i) due (db\<lparr>db_schedules := update_row k (fired lib now) (db_schedules db)\<rparr>)) (\<lambda>(ids, db).
         Inr (fresh i # ids, db)))"

definition enqueue_due_schedules :: "cron_lib \<Rightarrow> timestamp \<Rightarrow> (nat \<Rightarrow> uuid) \<Rightarrow> (uuid \<Rightarrow> 'q \<Rightarrow> 'q) \<Rightarrow> 'q \<Rightarrow> database \<Rightarrow>
    server_exn + (uuid list \<times> 'q \<times> database)" where
  "enqueue_due_schedules lib now fresh enqueue q db =
     sbind (tick_loop lib now fresh 0 (filter (\<lambda>p. is_due now (snd p)) (db_schedules db)) db) (\<lambda>(ids, db).
       Inr (ids, fold enqueue ids q, db))"

section \<open>What a tick does\<close>

definition new_runs :: "timestamp \<Rightarrow> (nat \<Rightarrow> uuid) \<Rightarrow> nat \<Rightarrow> schedule_row table \<Rightarrow> run_row table" where
  "new_runs now fresh i due = map2 (\<lambda>j p. (fresh j, scheduled_run now (snd p))) [i..<i + length due] due"

definition advance :: "cron_lib \<Rightarrow> timestamp \<Rightarrow> uuid set \<Rightarrow> schedule_row table \<Rightarrow> schedule_row table" where
  "advance lib now ks t = map (\<lambda>p. if fst p \<in> ks then (fst p, fired lib now (snd p)) else p) t"

lemma run_ok_scheduled: "run_ok (scheduled_run now s)"
  by (simp add: run_ok_def scheduled_run_def)

lemma fired_same: "sc_pipeline_id (fired lib now s) = sc_pipeline_id s" "sc_owner_id (fired lib now s) = sc_owner_id s"
  by (simp_all add: fired_def Let_def split: sum.split)

lemma advance_update:
  assumes "k \<notin> ks"
  shows "advance lib now ks (update_row k (fired lib now) t) = advance lib now (insert k ks) t"
  using assms by (auto simp: advance_def update_row_def)

lemma insert_scheduled_run:
  assumes "wf_db db" and "dict_get (db_schedules db) k = Some s" and "r \<notin> fst ` set (db_runs db)"
  shows "insert_run r (scheduled_run now s) db = Inr (db\<lparr>db_runs := db_runs db @ [(r, scheduled_run now s)]\<rparr>)"
    and "owned_by_pipeline db (rn_pipeline_id (scheduled_run now s)) (rn_owner_id (scheduled_run now s))"
proof -
  have owned: "owned_by_pipeline db (sc_pipeline_id s) (sc_owner_id s)"
    using assms(1) list_all_get [OF _ assms(2), of "\<lambda>s. owned_by_pipeline db (sc_pipeline_id s) (sc_owner_id s)"]
    by (simp add: wf_db_def refs_ok_db_def)
  then show "owned_by_pipeline db (rn_pipeline_id (scheduled_run now s)) (rn_owner_id (scheduled_run now s))"
    by (simp add: scheduled_run_def)
  from owned obtain p where p: "dict_get (db_pipelines db) (sc_pipeline_id s) = Some p" "pl_owner_id p = sc_owner_id s"
    by (auto simp: owned_by_pipeline_def)
  then have "sc_owner_id s \<in> fst ` set (db_users db)" using pipeline_owner_known [OF assms(1)] by metis
  with p assms(3) dict_get_SomeD [OF p(1)] show "insert_run r (scheduled_run now s) db = Inr (db\<lparr>db_runs := db_runs db @ [(r, scheduled_run now s)]\<rparr>)"
    by (simp add: insert_run_def insert_row_def scheduled_run_def)
qed

lemma tick_loop_spec:
  assumes "wf_db db" and "distinct (map fst due)" and "\<forall>(k, s) \<in> set due. dict_get (db_schedules db) k = Some s"
    and "inj fresh" and "\<forall>j \<ge> i. fresh j \<notin> fst ` set (db_runs db)"
  shows "tick_loop lib now fresh i due db =
      Inr (map fresh [i..<i + length due], db\<lparr>db_runs := db_runs db @ new_runs now fresh i due,
             db_schedules := advance lib now (fst ` set due) (db_schedules db)\<rparr>) \<and>
    wf_db (db\<lparr>db_runs := db_runs db @ new_runs now fresh i due, db_schedules := advance lib now (fst ` set due) (db_schedules db)\<rparr>)"
  using assms
proof (induction due arbitrary: i db)
  case Nil
  then show ?case by (simp add: new_runs_def advance_def)
next
  case (Cons p due)
  obtain k s where p: "p = (k, s)" by (cases p)
  have s: "dict_get (db_schedules db) k = Some s" using Cons.prems(3) by (simp add: p)
  have "fresh i \<notin> fst ` set (db_runs db)" using Cons.prems(5) by blast
  note ins = insert_scheduled_run [OF Cons.prems(1) s this, of now]
  define db1 where "db1 = db\<lparr>db_runs := db_runs db @ [(fresh i, scheduled_run now s)]\<rparr>"
  define db2 where "db2 = db1\<lparr>db_schedules := update_row k (fired lib now) (db_schedules db1)\<rparr>"
  have "wf_db db1" using wf_insert_run [OF Cons.prems(1) ins run_ok_scheduled] by (simp add: db1_def)
  then have "wf_db db2" unfolding db2_def by (rule wf_update_schedule) (simp_all add: fired_same)
  moreover have "\<forall>(k', s') \<in> set due. dict_get (db_schedules db2) k' = Some s'"
    using Cons.prems(2,3) by (force simp: db2_def db1_def p)
  moreover have "\<forall>j \<ge> Suc i. fresh j \<notin> fst ` set (db_runs db2)"
    using Cons.prems(4,5) by (simp add: db2_def db1_def inj_eq)
  ultimately have IH: "tick_loop lib now fresh (Suc i) due db2 =
      Inr (map fresh [Suc i..<Suc i + length due], db2\<lparr>db_runs := db_runs db2 @ new_runs now fresh (Suc i) due,
        db_schedules := advance lib now (fst ` set due) (db_schedules db2)\<rparr>) \<and>
      wf_db (db2\<lparr>db_runs := db_runs db2 @ new_runs now fresh (Suc i) due,
        db_schedules := advance lib now (fst ` set due) (db_schedules db2)\<rparr>)"
    using Cons.IH [of db2 "Suc i"] Cons.prems(2,4) by simp
  have "db2\<lparr>db_runs := db_runs db2 @ new_runs now fresh (Suc i) due, db_schedules := advance lib now (fst ` set due) (db_schedules db2)\<rparr> =
      db\<lparr>db_runs := db_runs db @ new_runs now fresh i (p # due), db_schedules := advance lib now (fst ` set (p # due)) (db_schedules db)\<rparr>"
    using Cons.prems(2) by (simp add: db2_def db1_def advance_update new_runs_def upt_conv_Cons p del: upt_Suc)
  moreover have "fresh i # map fresh [Suc i..<Suc i + length due] = map fresh [i..<i + length (p # due)]"
    by (simp add: upt_conv_Cons del: upt_Suc)
  ultimately show ?case using IH ins(1) by (simp add: p db2_def db1_def)
qed

lemma fired_not_due: "cron_later lib \<Longrightarrow> \<not> is_due now (fired lib now s)"
  by (auto simp: fired_def is_due_def cron_later_def Let_def not_le split: sum.splits)


definition demo_cron :: cron_lib where
  "demo_cron = \<lparr>cl_is_valid = (\<lambda>e. e = ''* * * * *''), cl_zone_known = (\<lambda>z. z = ''UTC''),
     cl_get_next = (\<lambda>e z t. \<lparr>dt_local = (t div 60 + 1) * 60, dt_offset = Some 0\<rparr>), cl_local_to_utc = (\<lambda>z t. t)\<rparr>"

definition demo_schedules :: database where
  "demo_schedules = empty_db\<lparr>db_users := [(1, \<lparr>us_email = ''a'', us_hashed_password = [], us_is_active = True, us_created_at = 0\<rparr>)],
     db_pipelines := [(2, \<lparr>pl_owner_id = 1, pl_name = ''p'', pl_spec = JNull, pl_created_at = 0, pl_updated_at = 0\<rparr>)],
     db_schedules := [(3, \<lparr>sc_pipeline_id = 2, sc_owner_id = 1, sc_cron_expr = ''* * * * *'', sc_timezone = ''UTC'',
       sc_enabled = True, sc_last_run = None, sc_next_run = Some 60, sc_created_at = 0\<rparr>)]\<rparr>"


end
