(* ===== verification/Server_Api.thy ===== *)
theory Server_Api
  imports Scheduler Secret_Store
begin

text \<open>
  The REST handlers of \<open>etl_server/routers\<close> (pipelines, runs, schedules, secrets) with the response documents
  of \<open>etl_server/schemas.py\<close>. A handler runs in one session: it gives a response and the committed database,
  or raises and leaves the database as it was; it is one step of the server. An operation reads the clock once; the fresh identifier, the
  time and the random bytes are the fields of \<open>call\<close>. Rows with equal creation times keep the order of the
  table. Payload checks (lengths, types) are pydantic's and happen before a handler is called.
\<close>

section \<open>Response documents\<close>

record pipeline_read =
  pr_id :: uuid
  pr_name :: string
  pr_spec :: json
  pr_created_at :: timestamp
  pr_updated_at :: timestamp

record run_read =
  rr_id :: uuid
  rr_pipeline :: uuid
  rr_state :: string
  rr_trigger :: string
  rr_params :: "json dict option"
  rr_error_count :: nat
  rr_result :: "json option"
  rr_created_at :: timestamp
  rr_started_at :: "timestamp option"
  rr_finished_at :: "timestamp option"

record log_read =
  lr_id :: nat
  lr_seq :: nat
  lr_level :: string
  lr_node_id :: "string option"
  lr_message :: string
  lr_data :: "json dict option"

record error_read =
  ed_id :: nat
  ed_node_id :: string
  ed_node_type :: string
  ed_category :: string
  ed_message :: string
  ed_http_status :: "int option"
  ed_request_summary :: "string option"
  ed_attempts :: nat
  ed_details :: "json dict option"

record secret_read =
  sr_id :: uuid
  sr_ref :: string
  sr_created_at :: timestamp
  sr_updated_at :: timestamp

record schedule_read =
  sd_id :: uuid
  sd_pipeline_id :: uuid
  sd_cron_expr :: string
  sd_timezone :: string
  sd_enabled :: bool
  sd_last_run :: "timestamp option"
  sd_next_run :: "timestamp option"
  sd_created_at :: timestamp

definition read_pipeline :: "uuid \<times> pipeline_row \<Rightarrow> pipeline_read" where
  "read_pipeline = (\<lambda>(k, p). \<lparr>pr_id = k, pr_name = pl_name p, pr_spec = pl_spec p, pr_created_at = pl_created_at p,
     pr_updated_at = pl_updated_at p\<rparr>)"

definition read_run :: "uuid \<times> run_row \<Rightarrow> run_read" where
  "read_run = (\<lambda>(k, r). \<lparr>rr_id = k, rr_pipeline = rn_pipeline_id r, rr_state = rn_status r, rr_trigger = rn_trigger r,
     rr_params = rn_params r, rr_error_count = rn_error_count r, rr_result = rn_result r, rr_created_at = rn_created_at r,
     rr_started_at = rn_started_at r, rr_finished_at = rn_finished_at r\<rparr>)"

definition read_log :: "log_row \<Rightarrow> log_read" where
  "read_log l = \<lparr>lr_id = lg_id l, lr_seq = lg_seq l, lr_level = lg_level l, lr_node_id = lg_node_id l,
     lr_message = lg_message l, lr_data = lg_data l\<rparr>"

definition read_error :: "error_row \<Rightarrow> error_read" where
  "read_error e = \<lparr>ed_id = er_id e, ed_node_id = er_node_id e, ed_node_type = er_node_type e, ed_category = er_category e,
     ed_message = er_message e, ed_http_status = er_http_status e, ed_request_summary = er_request_summary e,
     ed_attempts = er_attempts e, ed_details = er_details e\<rparr>"

definition read_secret :: "uuid \<times> secret_row \<Rightarrow> secret_read" where
  "read_secret = (\<lambda>(k, s). \<lparr>sr_id = k, sr_ref = se_ref s, sr_created_at = se_created_at s, sr_updated_at = se_updated_at s\<rparr>)"

definition read_schedule :: "uuid \<times> schedule_row \<Rightarrow> schedule_read" where
  "read_schedule = (\<lambda>(k, s). \<lparr>sd_id = k, sd_pipeline_id = sc_pipeline_id s, sd_cron_expr = sc_cron_expr s,
     sd_timezone = sc_timezone s, sd_enabled = sc_enabled s, sd_last_run = sc_last_run s, sd_next_run = sc_next_run s,
     sd_created_at = sc_created_at s\<rparr>)"

datatype response =
    RespPipeline pipeline_read | RespPipelines "pipeline_read list"
  | RespRun run_read | RespRuns "run_read list" | RespRunDetail run_read "log_read list" "error_read list"
  | RespSchedule schedule_read | RespSchedules "schedule_read list"
  | RespSecret secret_read | RespSecrets "secret_read list" | RespNoContent

section \<open>Handlers\<close>

record api_env =
  ae_spec_errors :: "json \<Rightarrow> nat"
  ae_cron :: cron_lib
  ae_crypto :: crypto_lib
  ae_cipher :: cipher_t
  ae_enqueue :: "uuid \<Rightarrow> database \<Rightarrow> (server_exn + unit) \<times> database"

record call =
  ca_new_id :: uuid
  ca_now :: timestamp
  ca_random :: bytes

type_synonym handled = "server_exn + (response \<times> database)"
type_synonym reply = "(server_exn + response) \<times> uuid option \<times> database"

text \<open>The row under a key after a commit, as \<open>session.refresh\<close> reads it.\<close>

definition respond :: "(uuid \<times> 'r \<Rightarrow> 'a) \<Rightarrow> ('a \<Rightarrow> response) \<Rightarrow> (database \<Rightarrow> 'r table) \<Rightarrow> uuid \<Rightarrow> database \<Rightarrow> handled" where
  "respond read tag table k db =
     (case dict_get (table db) k of
        Some r \<Rightarrow> Inr (tag (read (k, r)), db)
      | None \<Rightarrow> Inl (Uncaught ''InvalidRequestError''))"

definition newest_first :: "('r \<Rightarrow> timestamp) \<Rightarrow> 'r table \<Rightarrow> 'r table" where
  "newest_first created rows = sort_key (\<lambda>p. - created (snd p)) rows"

definition validate_spec :: "api_env \<Rightarrow> json \<Rightarrow> server_exn + unit" where
  "validate_spec env spec =
     (let n = ae_spec_errors env spec
      in if n = 0 then Inr () else Inl (HTTPException 422 (''invalid pipeline spec: '' @ nat_str n @ '' error(s)'')))"

definition create_pipeline :: "api_env \<Rightarrow> call \<Rightarrow> uuid \<Rightarrow> string \<Rightarrow> json \<Rightarrow> database \<Rightarrow> handled" where
  "create_pipeline env ca user name spec db =
     sbind (validate_spec env spec) (\<lambda>_.
       sbind (insert_pipeline (ca_new_id ca)
           \<lparr>pl_owner_id = user, pl_name = name, pl_spec = spec, pl_created_at = ca_now ca, pl_updated_at = ca_now ca\<rparr> db)
         (respond read_pipeline RespPipeline db_pipelines (ca_new_id ca)))"

definition list_pipelines :: "uuid \<Rightarrow> database \<Rightarrow> handled" where
  "list_pipelines user db =
     Inr (RespPipelines (map read_pipeline
       (newest_first pl_created_at (filter (\<lambda>p. pl_owner_id (snd p) = user) (db_pipelines db)))), db)"

definition get_pipeline :: "uuid \<Rightarrow> uuid \<Rightarrow> database \<Rightarrow> handled" where
  "get_pipeline user k db =
     sbind (get_owned_pipeline db k user) (\<lambda>p. Inr (RespPipeline (read_pipeline (k, p)), db))"

text \<open>An assignment of an equal value is no change, and \<open>updated_at\<close> moves only with a change.\<close>

definition change_pipeline :: "timestamp \<Rightarrow> string option \<Rightarrow> json option \<Rightarrow> pipeline_row \<Rightarrow> pipeline_row" where
  "change_pipeline now name spec p =
     (let new_spec = (case spec of Some s \<Rightarrow> if py_eq s (pl_spec p) then pl_spec p else s | None \<Rightarrow> pl_spec p);
          new_name = (case name of Some n \<Rightarrow> n | None \<Rightarrow> pl_name p)
      in if new_spec = pl_spec p \<and> new_name = pl_name p then p
         else p\<lparr>pl_spec := new_spec, pl_name := new_name, pl_updated_at := now\<rparr>)"

definition update_pipeline :: "api_env \<Rightarrow> call \<Rightarrow> uuid \<Rightarrow> uuid \<Rightarrow> string option \<Rightarrow> json option \<Rightarrow> database \<Rightarrow> handled" where
  "update_pipeline env ca user k name spec db =
     sbind (get_owned_pipeline db k user) (\<lambda>p.
       sbind (case spec of Some s \<Rightarrow> validate_spec env s | None \<Rightarrow> Inr ()) (\<lambda>_.
         respond read_pipeline RespPipeline db_pipelines k
           (db\<lparr>db_pipelines := update_row k (change_pipeline (ca_now ca) name spec) (db_pipelines db)\<rparr>)))"

definition delete_pipeline :: "uuid \<Rightarrow> uuid \<Rightarrow> database \<Rightarrow> handled" where
  "delete_pipeline user k db =
     sbind (get_owned_pipeline db k user) (\<lambda>p. Inr (RespNoContent, delete_pipeline_row k db))"

definition manual_run :: "timestamp \<Rightarrow> uuid \<Rightarrow> uuid \<Rightarrow> json dict option \<Rightarrow> run_row" where
  "manual_run now pipeline_id user params =
     \<lparr>rn_pipeline_id = pipeline_id, rn_owner_id = user, rn_status = phase_value RQueued, rn_trigger = trigger_value TManual,
      rn_params = params, rn_error_count = 0, rn_result = None, rn_created_at = now, rn_started_at = None, rn_finished_at = None\<rparr>"

text \<open>
  The run is committed before its identifier goes to the queue, and the response shows the run as the queue
  left it: an inline queue has already executed it. The identifier of the reply is the one that was enqueued.
\<close>

definition trigger_run :: "api_env \<Rightarrow> call \<Rightarrow> uuid \<Rightarrow> uuid \<Rightarrow> json dict option \<Rightarrow> database \<Rightarrow> reply" where
  "trigger_run env ca user pipeline_id params db =
     (let run_id = ca_new_id ca in
      case sbind (get_owned_pipeline db pipeline_id user)
             (\<lambda>p. insert_run run_id (manual_run (ca_now ca) pipeline_id user params) db) of
        Inl e \<Rightarrow> (Inl e, None, db)
      | Inr db \<Rightarrow>
          (case ae_enqueue env run_id db of
             (Inl e, db) \<Rightarrow> (Inl e, Some run_id, db)
           | (Inr _, db) \<Rightarrow>
               (case respond read_run RespRun db_runs run_id db of
                  Inl e \<Rightarrow> (Inl e, Some run_id, db)
                | Inr (resp, db) \<Rightarrow> (Inr resp, Some run_id, db))))"

definition list_runs :: "uuid \<Rightarrow> uuid option \<Rightarrow> nat \<Rightarrow> database \<Rightarrow> handled" where
  "list_runs user pipeline_id limit db =
     (let rows = filter (\<lambda>p. rn_owner_id (snd p) = user) (db_runs db);
          rows = (case pipeline_id of Some k \<Rightarrow> filter (\<lambda>p. rn_pipeline_id (snd p) = k) rows | None \<Rightarrow> rows)
      in Inr (RespRuns (map read_run (take limit (newest_first rn_created_at rows))), db))"

definition get_run :: "uuid \<Rightarrow> uuid \<Rightarrow> database \<Rightarrow> handled" where
  "get_run user k db =
     sbind (get_owned_run db k user) (\<lambda>r.
       Inr (RespRunDetail (read_run (k, r))
              (map read_log (filter (\<lambda>l. lg_run_id l = k) (db_logs db)))
              (map read_error (filter (\<lambda>e. er_run_id e = k) (db_errors db))), db))"

definition validate_timing :: "api_env \<Rightarrow> string \<Rightarrow> string \<Rightarrow> server_exn + unit" where
  "validate_timing env expr tz =
     (case sbind (validate_cron (ae_cron env) expr) (\<lambda>_. validate_timezone (ae_cron env) tz) of
        Inl m \<Rightarrow> Inl (HTTPException 422 m)
      | Inr u \<Rightarrow> Inr u)"

definition refreshed :: "api_env \<Rightarrow> call \<Rightarrow> schedule_row \<Rightarrow> server_exn + schedule_row" where
  "refreshed env ca s =
     (case refresh_next_run (ae_cron env) (ca_now ca) s of
        Inl m \<Rightarrow> Inl (Uncaught ''ScheduleConfigError'')
      | Inr s \<Rightarrow> Inr s)"

definition create_schedule :: "api_env \<Rightarrow> call \<Rightarrow> uuid \<Rightarrow> uuid \<Rightarrow> string \<Rightarrow> string \<Rightarrow> bool \<Rightarrow> database \<Rightarrow> handled" where
  "create_schedule env ca user pipeline_id expr tz enabled db =
     sbind (get_owned_pipeline db pipeline_id user) (\<lambda>p.
       sbind (validate_timing env expr tz) (\<lambda>_.
         let s = \<lparr>sc_pipeline_id = pipeline_id, sc_owner_id = user, sc_cron_expr = expr, sc_timezone = tz,
                  sc_enabled = enabled, sc_last_run = None, sc_next_run = None, sc_created_at = ca_now ca\<rparr>
         in sbind (if enabled then refreshed env ca s else Inr s) (\<lambda>s.
              sbind (insert_schedule (ca_new_id ca) s db)
                (respond read_schedule RespSchedule db_schedules (ca_new_id ca)))))"

definition list_schedules :: "uuid \<Rightarrow> database \<Rightarrow> handled" where
  "list_schedules user db =
     Inr (RespSchedules (map read_schedule
       (newest_first sc_created_at (filter (\<lambda>p. sc_owner_id (snd p) = user) (db_schedules db)))), db)"

definition get_schedule :: "uuid \<Rightarrow> uuid \<Rightarrow> database \<Rightarrow> handled" where
  "get_schedule user k db =
     sbind (get_owned_schedule db k user) (\<lambda>s. Inr (RespSchedule (read_schedule (k, s)), db))"

definition change_schedule :: "api_env \<Rightarrow> call \<Rightarrow> string option \<Rightarrow> string option \<Rightarrow> bool option \<Rightarrow> schedule_row \<Rightarrow> server_exn + schedule_row" where
  "change_schedule env ca expr tz enabled s =
     (let new_cron = (case expr of Some e \<Rightarrow> e | None \<Rightarrow> sc_cron_expr s);
          new_tz = (case tz of Some z \<Rightarrow> z | None \<Rightarrow> sc_timezone s);
          timing_changed = (expr \<noteq> None \<or> tz \<noteq> None);
          was_enabled = sc_enabled s
      in sbind (if timing_changed
                then sbind (validate_timing env new_cron new_tz) (\<lambda>_. Inr (s\<lparr>sc_cron_expr := new_cron, sc_timezone := new_tz\<rparr>))
                else Inr s) (\<lambda>s.
           let s = (case enabled of Some b \<Rightarrow> s\<lparr>sc_enabled := b\<rparr> | None \<Rightarrow> s)
           in if sc_enabled s \<and> (timing_changed \<or> \<not> was_enabled \<or> sc_next_run s = None)
              then refreshed env ca s else Inr s))"

definition update_schedule :: "api_env \<Rightarrow> call \<Rightarrow> uuid \<Rightarrow> uuid \<Rightarrow> string option \<Rightarrow> string option \<Rightarrow> bool option \<Rightarrow> database \<Rightarrow> handled" where
  "update_schedule env ca user k expr tz enabled db =
     sbind (get_owned_schedule db k user) (\<lambda>s.
       sbind (change_schedule env ca expr tz enabled s) (\<lambda>s'.
         respond read_schedule RespSchedule db_schedules k
           (db\<lparr>db_schedules := update_row k (\<lambda>_. s') (db_schedules db)\<rparr>)))"

definition delete_schedule :: "uuid \<Rightarrow> uuid \<Rightarrow> database \<Rightarrow> handled" where
  "delete_schedule user k db =
     sbind (get_owned_schedule db k user) (\<lambda>s.
       Inr (RespNoContent, db\<lparr>db_schedules := delete_row k (db_schedules db)\<rparr>))"

definition set_secret :: "api_env \<Rightarrow> call \<Rightarrow> uuid \<Rightarrow> string \<Rightarrow> string \<Rightarrow> database \<Rightarrow> handled" where
  "set_secret env ca user ref value db =
     sbind (upsert_secret (ae_crypto env) (ae_cipher env) (ca_random ca) (ca_new_id ca) (ca_now ca) user ref value db) (\<lambda>(k, db).
       respond read_secret RespSecret db_secrets k db)"

definition list_secrets :: "uuid \<Rightarrow> database \<Rightarrow> handled" where
  "list_secrets user db =
     Inr (RespSecrets (map read_secret
       (sort_key (\<lambda>p. se_ref (snd p)) (filter (\<lambda>p. se_owner_id (snd p) = user) (db_secrets db)))), db)"

definition remove_secret :: "uuid \<Rightarrow> string \<Rightarrow> database \<Rightarrow> handled" where
  "remove_secret user ref db =
     (case delete_secret user ref db of
        (deleted, db) \<Rightarrow> if deleted then Inr (RespNoContent, db) else Inl (HTTPException 404 ''secret not found''))"

section \<open>Requests\<close>

datatype request =
    CreatePipeline string json | ListPipelines | GetPipeline uuid
  | UpdatePipeline uuid "string option" "json option" | DeletePipeline uuid
  | TriggerRun uuid "json dict option" | ListRuns "uuid option" nat | GetRun uuid
  | CreateSchedule uuid string string bool | ListSchedules | GetSchedule uuid
  | UpdateSchedule uuid "string option" "string option" "bool option" | DeleteSchedule uuid
  | SetSecret string string | ListSecrets | RemoveSecret string

text \<open>An exception before the commit rolls the session back.\<close>

definition session :: "(database \<Rightarrow> handled) \<Rightarrow> database \<Rightarrow> reply" where
  "session h db =
     (case h db of
        Inl e \<Rightarrow> (Inl e, None, db)
      | Inr (resp, db') \<Rightarrow> (Inr resp, None, db'))"

fun handle :: "api_env \<Rightarrow> call \<Rightarrow> uuid \<Rightarrow> request \<Rightarrow> database \<Rightarrow> reply" where
  "handle env ca u (CreatePipeline name spec) = session (create_pipeline env ca u name spec)"
| "handle env ca u ListPipelines = session (list_pipelines u)"
| "handle env ca u (GetPipeline k) = session (get_pipeline u k)"
| "handle env ca u (UpdatePipeline k name spec) = session (update_pipeline env ca u k name spec)"
| "handle env ca u (DeletePipeline k) = session (delete_pipeline u k)"
| "handle env ca u (TriggerRun k params) = trigger_run env ca u k params"
| "handle env ca u (ListRuns k limit) = session (list_runs u k limit)"
| "handle env ca u (GetRun k) = session (get_run u k)"
| "handle env ca u (CreateSchedule k expr tz enabled) = session (create_schedule env ca u k expr tz enabled)"
| "handle env ca u ListSchedules = session (list_schedules u)"
| "handle env ca u (GetSchedule k) = session (get_schedule u k)"
| "handle env ca u (UpdateSchedule k expr tz enabled) = session (update_schedule env ca u k expr tz enabled)"
| "handle env ca u (DeleteSchedule k) = session (delete_schedule u k)"
| "handle env ca u (SetSecret ref value) = session (set_secret env ca u ref value)"
| "handle env ca u ListSecrets = session (list_secrets u)"
| "handle env ca u (RemoveSecret ref) = session (remove_secret u ref)"

end
