(* ===== verification/Tenant_Isolation.thy ===== *)
theory Tenant_Isolation
  imports Server_Api
begin

text \<open>
  The separation of the server's users: what a request of a user sees and changes is confined to the rows that
  belong to this user. \<open>view u db\<close> is the database as if \<open>u\<close> were its only user; the handlers refine the same
  handlers run on the view, and leave the view of every other user as it was.
\<close>

section \<open>The database of one user\<close>

definition own :: "('r \<Rightarrow> uuid) \<Rightarrow> uuid \<Rightarrow> 'r table \<Rightarrow> 'r table" where
  "own owner u t = filter (\<lambda>p. owner (snd p) = u) t"

definition view :: "uuid \<Rightarrow> database \<Rightarrow> database" where
  "view u db =
     (let runs = own rn_owner_id u (db_runs db)
      in db\<lparr>db_users := filter (\<lambda>p. fst p = u) (db_users db), db_pipelines := own pl_owner_id u (db_pipelines db),
            db_runs := runs, db_logs := filter (\<lambda>l. lg_run_id l \<in> fst ` set runs) (db_logs db),
            db_errors := filter (\<lambda>e. er_run_id e \<in> fst ` set runs) (db_errors db),
            db_schedules := own sc_owner_id u (db_schedules db), db_secrets := own se_owner_id u (db_secrets db)\<rparr>)"

lemma view_simps [simp]:
  "db_users (view u db) = filter (\<lambda>p. fst p = u) (db_users db)"
  "db_pipelines (view u db) = own pl_owner_id u (db_pipelines db)"
  "db_runs (view u db) = own rn_owner_id u (db_runs db)"
  "db_logs (view u db) = filter (\<lambda>l. lg_run_id l \<in> fst ` set (own rn_owner_id u (db_runs db))) (db_logs db)"
  "db_errors (view u db) = filter (\<lambda>e. er_run_id e \<in> fst ` set (own rn_owner_id u (db_runs db))) (db_errors db)"
  "db_schedules (view u db) = own sc_owner_id u (db_schedules db)"
  "db_secrets (view u db) = own se_owner_id u (db_secrets db)"
  "view u (db\<lparr>db_pipelines := p\<rparr>) = (view u db)\<lparr>db_pipelines := own pl_owner_id u p\<rparr>"
  "view u (db\<lparr>db_schedules := s\<rparr>) = (view u db)\<lparr>db_schedules := own sc_owner_id u s\<rparr>"
  "view u (db\<lparr>db_secrets := e\<rparr>) = (view u db)\<lparr>db_secrets := own se_owner_id u e\<rparr>"
  by (simp_all add: view_def Let_def)

lemma own_simps [simp]:
  "own f u [] = []"
  "own f u (t @ [(k, r)]) = own f u t @ (if f r = u then [(k, r)] else [])"
  "own f u (delete_row k t) = delete_row k (own f u t)"
  "own f u (own f u t) = own f u t"
  by (simp_all add: own_def delete_row_def conj_commute)

lemma own_keys: "fst ` set (own f u t) \<subseteq> fst ` set t"
  by (auto simp: own_def)

lemma get_own:
  assumes "wf_dict t"
  shows "dict_get (own f u t) k = (case dict_get t k of Some r \<Rightarrow> if f r = u then Some r else None | None \<Rightarrow> None)"
  using assms by (induction t) (auto simp: own_def wf_dict_def map_of_eq_None_iff split: option.splits)

lemma own_mine: "wf_dict t \<Longrightarrow> dict_get t k = Some r \<Longrightarrow> f r = u \<Longrightarrow> dict_get (own f u t) k = Some r"
  by (simp add: get_own)

lemma own_foreign: "wf_dict t \<Longrightarrow> dict_get t k = Some r \<Longrightarrow> f r \<noteq> v \<Longrightarrow> k \<notin> fst ` set (own f v t)"
  by (simp add: get_own flip: dict_get_None_iff)

lemma update_row_absent: "k \<notin> fst ` set t \<Longrightarrow> update_row k g t = t"
  by (force simp: update_row_def intro: map_idI)

lemma delete_row_absent: "k \<notin> fst ` set t \<Longrightarrow> delete_row k t = t"
  by (force simp: delete_row_def intro: filter_True)

lemma own_update:
  assumes "wf_dict t" and "\<And>r. dict_get t k = Some r \<Longrightarrow> f (g r) = f r"
  shows "own f u (update_row k g t) = update_row k g (own f u t)"
proof -
  have "\<forall>p \<in> set t. fst p = k \<longrightarrow> f (g (snd p)) = f (snd p)"
    using assms by (auto simp: wf_dict_def)
  then show ?thesis by (induction t) (auto simp: own_def update_row_def)
qed

text \<open>A change of a row of \<open>u\<close> that keeps its owner is invisible to everybody else.\<close>

lemma own_update_other:
  assumes "wf_dict t" and "dict_get t k = Some r" and "f (g r) = f r" and "f r \<noteq> v"
  shows "own f v (update_row k g t) = own f v t"
  using assms own_foreign [of t k r f v] own_update [of t k f g v] by (simp add: update_row_absent)

lemma own_delete_other:
  assumes "wf_dict t" and "dict_get t k = Some r" and "f r \<noteq> v"
  shows "delete_row k (own f v t) = own f v t"
  using assms own_foreign [of t k r f v] by (simp add: delete_row_absent)

lemma wf_tables:
  assumes "wf_db db"
  shows "wf_dict (db_users db)" "wf_dict (db_pipelines db)" "wf_dict (db_runs db)" "wf_dict (db_schedules db)" "wf_dict (db_secrets db)"
  using assms by (simp_all add: wf_db_def keys_ok_def)

lemma wf_own: "wf_dict t \<Longrightarrow> wf_dict (own f u t)"
  by (simp add: own_def wf_dict_filter)

section \<open>Lookups\<close>

lemma get_owned_view:
  assumes "wf_db db"
  shows "get_owned_pipeline (view u db) k u = get_owned_pipeline db k u"
    and "get_owned_run (view u db) k u = get_owned_run db k u"
    and "get_owned_schedule (view u db) k u = get_owned_schedule db k u"
  using wf_tables [OF assms]
  by (simp_all add: get_owned_pipeline_def get_owned_run_def get_owned_schedule_def get_own split: option.split)

lemma get_owned_Inr:
  "get_owned_pipeline db k u = Inr p \<longleftrightarrow> dict_get (db_pipelines db) k = Some p \<and> pl_owner_id p = u"
  "get_owned_run db k u = Inr r \<longleftrightarrow> dict_get (db_runs db) k = Some r \<and> rn_owner_id r = u"
  "get_owned_schedule db k u = Inr s \<longleftrightarrow> dict_get (db_schedules db) k = Some s \<and> sc_owner_id s = u"
  by (auto simp: get_owned_pipeline_def get_owned_run_def get_owned_schedule_def split: option.splits)

lemma secret_rows_view [simp]: "secret_rows (view u db) u ref = secret_rows db u ref"
  by (simp add: secret_rows_def own_def conj_ac)

section \<open>Isolated requests\<close>

definition isolated :: "uuid \<Rightarrow> (database \<Rightarrow> reply) \<Rightarrow> database \<Rightarrow> bool" where
  "isolated u f db \<longleftrightarrow>
     (case f db of (res, job, db') \<Rightarrow>
        f (view u db) = (res, job, view u db') \<and> (\<forall>v. v \<noteq> u \<longrightarrow> view v db' = view v db) \<and> wf_db db')"

lemma isolated_error: "wf_db db \<Longrightarrow> h db = Inl e \<Longrightarrow> h (view u db) = Inl e \<Longrightarrow> isolated u (session h) db"
  by (simp add: isolated_def session_def)

lemma isolated_ok:
  assumes "h db = Inr (res, db')" and "h (view u db) = Inr (res, view u db')"
    and "\<And>v. v \<noteq> u \<Longrightarrow> view v db' = view v db" and "wf_db db'"
  shows "isolated u (session h) db"
  using assms by (simp add: isolated_def session_def)

text \<open>Two handlers in sequence, the first of which only looks at the user's own rows.\<close>

lemma isolated_sbind:
  assumes "wf_db db" and "m (view u db) = m db" and "\<And>x. m db = Inr x \<Longrightarrow> isolated u (session (h x)) db"
  shows "isolated u (session (\<lambda>db. sbind (m db) (\<lambda>x. h x db))) db"
proof (cases "m db")
  case (Inl e)
  then show ?thesis using assms by (intro isolated_error) simp_all
next
  case (Inr x)
  then have "isolated u (session (h x)) db" by (rule assms(3))
  with assms(2) Inr show ?thesis by (simp add: isolated_def session_def)
qed

lemma isolated_read:
  assumes "wf_db db" and "g (view u db) = g db"
  shows "isolated u (session (\<lambda>db. Inr (g db, db))) db"
  using assms by (intro isolated_ok) simp_all

lemma isolated_lookups:
  assumes "wf_db db"
  shows "isolated u (session (get_pipeline u k)) db" "isolated u (session (get_run u k)) db"
    "isolated u (session (get_schedule u k)) db"
proof -
  show "isolated u (session (get_pipeline u k)) db" "isolated u (session (get_schedule u k)) db"
    unfolding get_pipeline_def [abs_def] get_schedule_def [abs_def]
    by (intro isolated_sbind isolated_read assms get_owned_view refl)+
  show "isolated u (session (get_run u k)) db"
    unfolding get_run_def [abs_def]
  proof (intro isolated_sbind isolated_read assms get_owned_view)
    fix r assume "get_owned_run db k u = Inr r"
    then have "k \<in> fst ` set (own rn_owner_id u (db_runs db))"
      using own_mine [OF wf_tables(3) [OF assms]] by (metis dict_get_SomeD get_owned_Inr(2))
    then have "filter (\<lambda>l. lg_run_id l = k) (db_logs (view u db)) = filter (\<lambda>l. lg_run_id l = k) (db_logs db)"
      "filter (\<lambda>e. er_run_id e = k) (db_errors (view u db)) = filter (\<lambda>e. er_run_id e = k) (db_errors db)"
      by (auto intro!: filter_cong)
    then show "RespRunDetail (read_run (k, r)) (map read_log (filter (\<lambda>l. lg_run_id l = k) (db_logs (view u db))))
        (map read_error (filter (\<lambda>e. er_run_id e = k) (db_errors (view u db)))) =
      RespRunDetail (read_run (k, r)) (map read_log (filter (\<lambda>l. lg_run_id l = k) (db_logs db)))
        (map read_error (filter (\<lambda>e. er_run_id e = k) (db_errors db)))" by simp
  qed
qed

lemma isolated_lists:
  assumes "wf_db db"
  shows "isolated u (session (list_pipelines u)) db" "isolated u (session (list_schedules u)) db"
    "isolated u (session (list_secrets u)) db" "isolated u (session (list_runs u pk limit)) db"
  unfolding list_pipelines_def [abs_def] list_schedules_def [abs_def] list_secrets_def [abs_def] list_runs_def [abs_def] Let_def
  by (intro isolated_read assms, simp add: own_def conj_ac cong: option.case_cong)+


section \<open>Changing requests\<close>

definition unused :: "database \<Rightarrow> uuid \<Rightarrow> bool" where
  "unused db k \<longleftrightarrow> k \<notin> fst ` set (db_pipelines db) \<and> k \<notin> fst ` set (db_runs db) \<and> k \<notin> fst ` set (db_schedules db) \<and>
     k \<notin> fst ` set (db_secrets db)"

definition external_queue :: "api_env \<Rightarrow> bool" where
  "external_queue env \<longleftrightarrow> (\<forall>k db. ae_enqueue env k db = (Inr (), db))"

lemma isolated_respond:
  assumes "f (view u db) = view u (f db)" and "dict_get (table (f db)) k = Some r" and "dict_get (table (view u (f db))) k = Some r"
    and "\<And>v. v \<noteq> u \<Longrightarrow> view v (f db) = view v db" and "wf_db (f db)"
  shows "isolated u (session (\<lambda>db. respond read tag table k (f db))) db"
  using assms by (intro isolated_ok) (simp_all add: respond_def)

lemma isolated_insert:
  assumes "ins db = Inr db'" and "ins (view u db) = Inr (view u db')"
    and "dict_get (table db') k = Some r" and "dict_get (table (view u db')) k = Some r"
    and "\<And>v. v \<noteq> u \<Longrightarrow> view v db' = view v db" and "wf_db db'"
  shows "isolated u (session (\<lambda>db. sbind (ins db) (respond read tag table k))) db"
  using assms by (intro isolated_ok) (simp_all add: respond_def)

lemma own_unused: "k \<notin> fst ` set t \<Longrightarrow> k \<notin> fst ` set (own f u t)"
  using own_keys by blast

lemma get_snoc [simp]: "k \<notin> fst ` set t \<Longrightarrow> ([k \<mapsto> r] ++ dict_get t) k = Some r"
  by (simp add: map_add_def flip: dict_get_None_iff)

lemma user_in_view: "u \<in> fst ` set (db_users db) \<Longrightarrow> u \<in> fst ` set (filter (\<lambda>p. fst p = u) (db_users db))"
  by force

lemma isolated_create_pipeline:
  assumes "wf_db db" and "u \<in> fst ` set (db_users db)" and "unused db (ca_new_id ca)"
  shows "isolated u (session (create_pipeline env ca u name spec)) db"
  unfolding create_pipeline_def [abs_def]
proof (rule isolated_sbind [OF assms(1) refl], rule isolated_insert)
  let ?p = "\<lparr>pl_owner_id = u, pl_name = name, pl_spec = spec, pl_created_at = ca_now ca, pl_updated_at = ca_now ca\<rparr>"
  let ?db = "db\<lparr>db_pipelines := db_pipelines db @ [(ca_new_id ca, ?p)]\<rparr>"
  have fresh: "ca_new_id ca \<notin> fst ` set (db_pipelines db)" using assms(3) by (simp add: unused_def)
  note fresh' = own_unused [OF fresh, of pl_owner_id u]
  show ins: "insert_pipeline (ca_new_id ca) ?p db = Inr ?db" 
    using fresh assms(2) by (simp add: insert_pipeline_def insert_row_def)
  show "insert_pipeline (ca_new_id ca) ?p (view u db) = Inr (view u ?db)" 
    using fresh' user_in_view [OF assms(2)] by (simp add: insert_pipeline_def insert_row_def)
  show "dict_get (db_pipelines ?db) (ca_new_id ca) = Some ?p" "dict_get (db_pipelines (view u ?db)) (ca_new_id ca) = Some ?p"
    using fresh fresh' by simp_all
  show "view v ?db = view v db" if "v \<noteq> u" for v using that by simp
  show "wf_db ?db" by (rule wf_insert_pipeline [OF assms(1) ins])
qed

lemma change_pipeline_owner [simp]: "pl_owner_id (change_pipeline now name spec p) = pl_owner_id p"
  by (simp add: change_pipeline_def Let_def)

lemma view_same [simp]:
  "(view v db)\<lparr>db_pipelines := own pl_owner_id v (db_pipelines db)\<rparr> = view v db"
  "(view v db)\<lparr>db_schedules := own sc_owner_id v (db_schedules db)\<rparr> = view v db"
  "(view v db)\<lparr>db_secrets := own se_owner_id v (db_secrets db)\<rparr> = view v db"
  by (simp_all add: view_def Let_def)

lemma isolated_update_pipeline:
  assumes "wf_db db"
  shows "isolated u (session (update_pipeline env ca u k name spec)) db"
  unfolding update_pipeline_def [abs_def]
proof (intro isolated_sbind assms refl get_owned_view isolated_respond)
  fix p assume "get_owned_pipeline db k u = Inr p"
  then have p: "dict_get (db_pipelines db) k = Some p" "pl_owner_id p = u" by (simp_all add: get_owned_Inr)
  let ?f = "change_pipeline (ca_now ca) name spec"
  let ?db = "db\<lparr>db_pipelines := update_row k ?f (db_pipelines db)\<rparr>"
  note wf = wf_tables(2) [OF assms]
  show "(view u db)\<lparr>db_pipelines := update_row k ?f (db_pipelines (view u db))\<rparr> = view u ?db"
    using own_update [OF wf, of k pl_owner_id ?f u] by simp
  show "dict_get (db_pipelines ?db) k = Some (?f p)" "dict_get (db_pipelines (view u ?db)) k = Some (?f p)"
    using p own_update [OF wf, of k pl_owner_id ?f u] own_mine [OF wf] by simp_all
  show "view v ?db = view v db" if "v \<noteq> u" for v
    using that p own_update_other [OF wf p(1), of pl_owner_id ?f v] by simp
  show "wf_db ?db" by (rule wf_update_pipeline [OF assms]) simp
qed


lemma view_delete_pipeline:
  assumes "wf_db db" and "dict_get (db_pipelines db) k = Some p"
  shows "delete_pipeline_row k (view (pl_owner_id p) db) = view (pl_owner_id p) (delete_pipeline_row k db)"
    and "v \<noteq> pl_owner_id p \<Longrightarrow> view v (delete_pipeline_row k db) = view v db"
proof -
  let ?u = "pl_owner_id p"
  have runs: "rn_owner_id r = ?u" if "(i, r) \<in> set (db_runs db)" "rn_pipeline_id r = k" for i r
    using assms that by (force simp: wf_db_def refs_ok_db_def list_all_iff owned_by_pipeline_def)
  have scheds: "sc_owner_id s = ?u" if "(i, s) \<in> set (db_schedules db)" "sc_pipeline_id s = k" for i s
    using assms that by (force simp: wf_db_def refs_ok_db_def list_all_iff owned_by_pipeline_def)
  have uniq: "r = r'" if "(i, r) \<in> set (db_runs db)" "(i, r') \<in> set (db_runs db)" for i r r'
    using that wf_tables(3) [OF assms(1)] by (auto simp: wf_dict_def dest: eq_key_imp_eq_value)
  let ?gone = "set (runs_of_pipeline db k)"
  let ?mine = "\<lambda>u. fst ` set (own rn_owner_id u (db_runs db))"
  have gone: "i \<in> ?gone \<longleftrightarrow> (\<exists>r. (i, r) \<in> set (db_runs db) \<and> rn_pipeline_id r = k)" for i
    by (force simp: runs_of_pipeline_def)
  have mine: "i \<in> ?mine u \<longleftrightarrow> (\<exists>r. (i, r) \<in> set (db_runs db) \<and> rn_owner_id r = u)" for i u
    by (force simp: own_def)
  have kept: "i \<in> fst ` set (own rn_owner_id u (filter (\<lambda>p. rn_pipeline_id (snd p) \<noteq> k) (db_runs db))) \<longleftrightarrow> i \<in> ?mine u \<and> i \<notin> ?gone" for i u
  proof -
    have "i \<in> fst ` set (own rn_owner_id u (filter (\<lambda>p. rn_pipeline_id (snd p) \<noteq> k) (db_runs db))) \<longleftrightarrow>
        (\<exists>r. (i, r) \<in> set (db_runs db) \<and> rn_owner_id r = u \<and> rn_pipeline_id r \<noteq> k)"
      by (force simp: own_def)
    then show ?thesis using uniq unfolding mine gone by blast
  qed
  have gone_view: "set (runs_of_pipeline (view ?u db) k) = ?gone"
    using runs by (force simp: runs_of_pipeline_def own_def)
  show "delete_pipeline_row k (view ?u db) = view ?u (delete_pipeline_row k db)"
    unfolding delete_pipeline_row_def Let_def gone_view
    by (simp add: view_def Let_def kept) (auto simp: own_def conj_ac intro!: filter_cong)
  show "view v (delete_pipeline_row k db) = view v db" if v: "v \<noteq> ?u"
  proof -
    have "own rn_owner_id v (filter (\<lambda>p. rn_pipeline_id (snd p) \<noteq> k) (db_runs db)) = own rn_owner_id v (db_runs db)"
      using runs v by (auto simp: own_def intro!: filter_cong)
    moreover have "own sc_owner_id v (filter (\<lambda>p. sc_pipeline_id (snd p) \<noteq> k) (db_schedules db)) = own sc_owner_id v (db_schedules db)"
      using scheds v by (auto simp: own_def intro!: filter_cong)
    moreover have "(i \<notin> ?gone \<and> i \<in> ?mine v) = (i \<in> ?mine v)" for i
      using runs uniq v unfolding gone mine by metis
    ultimately show ?thesis
      using own_delete_other [OF wf_tables(2) [OF assms(1)] assms(2), of pl_owner_id v] v
      unfolding delete_pipeline_row_def Let_def
      by (simp add: view_def Let_def)
  qed
qed

lemma isolated_delete_pipeline:
  assumes "wf_db db"
  shows "isolated u (session (delete_pipeline u k)) db"
  unfolding delete_pipeline_def [abs_def]
proof (intro isolated_sbind assms refl get_owned_view)
  fix p assume "get_owned_pipeline db k u = Inr p"
  then show "isolated u (session (\<lambda>db. Inr (RespNoContent, delete_pipeline_row k db))) db"
    using assms by (intro isolated_ok [where db' = "delete_pipeline_row k db"])
      (auto simp: get_owned_Inr view_delete_pipeline wf_delete_pipeline)
qed


lemma isolated_create_schedule:
  assumes "wf_db db" and "u \<in> fst ` set (db_users db)" and "unused db (ca_new_id ca)"
  shows "isolated u (session (create_schedule env ca u pk expr tz enabled)) db"
  unfolding create_schedule_def [abs_def] Let_def
proof (rule isolated_sbind [OF assms(1)], rule get_owned_view [OF assms(1)], rule isolated_sbind [OF assms(1) refl],
    rule isolated_sbind [OF assms(1) refl], rule isolated_insert)
  let ?s0 = "\<lparr>sc_pipeline_id = pk, sc_owner_id = u, sc_cron_expr = expr, sc_timezone = tz,
                  sc_enabled = enabled, sc_last_run = None, sc_next_run = None, sc_created_at = ca_now ca\<rparr>"
  fix p x s assume "get_owned_pipeline db pk u = Inr p" and "(if enabled then refreshed env ca ?s0 else Inr ?s0) = Inr s"
  then have p: "dict_get (db_pipelines db) pk = Some p" "pl_owner_id p = u" and s: "sc_pipeline_id s = pk" "sc_owner_id s = u"
    by (auto simp: get_owned_Inr refreshed_def refresh_next_run_def sbind_eq_Inr split: if_splits sum.splits)
  let ?k = "ca_new_id ca"
  let ?db = "db\<lparr>db_schedules := db_schedules db @ [(?k, s)]\<rparr>"
  have fresh: "?k \<notin> fst ` set (db_schedules db)" using assms(3) by (simp add: unused_def)
  note fresh' = own_unused [OF fresh, of sc_owner_id u]
  show ins: "insert_schedule ?k s db = Inr ?db" 
    using fresh assms(2) p s by (simp add: insert_schedule_def insert_row_def dict_get_SomeD)
  show "insert_schedule ?k s (view u db) = Inr (view u ?db)" 
    using fresh' user_in_view [OF assms(2)] s own_mine [where f = pl_owner_id, OF wf_tables(2) [OF assms(1)] p, THEN dict_get_SomeD]
    by (simp add: insert_schedule_def insert_row_def)
  show "dict_get (db_schedules ?db) ?k = Some s" "dict_get (db_schedules (view u ?db)) ?k = Some s"
    using fresh fresh' s by simp_all
  show "view v ?db = view v db" if "v \<noteq> u" for v using that s by simp
  show "wf_db ?db" using p s by (intro wf_insert_schedule [OF assms(1) ins]) (simp add: owned_by_pipeline_def)
qed

lemma change_schedule_owner:
  "change_schedule env ca expr tz enabled s = Inr s' \<Longrightarrow> sc_owner_id s' = sc_owner_id s \<and> sc_pipeline_id s' = sc_pipeline_id s"
  by (auto simp: change_schedule_def Let_def sbind_eq_Inr refreshed_def refresh_next_run_def split: if_splits sum.splits option.splits)

lemma isolated_update_schedule:
  assumes "wf_db db"
  shows "isolated u (session (update_schedule env ca u k expr tz enabled)) db"
  unfolding update_schedule_def [abs_def]
proof (intro isolated_sbind assms refl get_owned_view isolated_respond)
  fix s s' assume "get_owned_schedule db k u = Inr s" and "change_schedule env ca expr tz enabled s = Inr s'"
  then have s: "dict_get (db_schedules db) k = Some s" "sc_owner_id s = u" and s': "sc_owner_id s' = u" "sc_pipeline_id s' = sc_pipeline_id s"
    by (auto simp: get_owned_Inr dest: change_schedule_owner)
  let ?f = "\<lambda>_. s'"
  let ?db = "db\<lparr>db_schedules := update_row k ?f (db_schedules db)\<rparr>"
  note wf = wf_tables(4) [OF assms]
  have own: "own sc_owner_id u (update_row k ?f (db_schedules db)) = update_row k ?f (own sc_owner_id u (db_schedules db))"
    using s s' by (intro own_update [OF wf]) simp
  show "(view u db)\<lparr>db_schedules := update_row k ?f (db_schedules (view u db))\<rparr> = view u ?db"
    by (simp add: own)
  show "dict_get (db_schedules ?db) k = Some s'" "dict_get (db_schedules (view u ?db)) k = Some s'"
    using s own_mine [where f = sc_owner_id, OF wf s] by (simp_all add: own)
  show "view v ?db = view v db" if "v \<noteq> u" for v
    using that s s' own_update_other [OF wf s(1), of sc_owner_id ?f v] by simp
  show "wf_db ?db" using s s' by (intro wf_update_schedule [OF assms]) simp
qed

lemma isolated_delete_schedule:
  assumes "wf_db db"
  shows "isolated u (session (delete_schedule u k)) db"
  unfolding delete_schedule_def [abs_def]
proof (intro isolated_sbind assms refl get_owned_view)
  fix s assume "get_owned_schedule db k u = Inr s"
  then show "isolated u (session (\<lambda>db. Inr (RespNoContent, db\<lparr>db_schedules := delete_row k (db_schedules db)\<rparr>))) db"
    using assms wf_filter_schedules [OF assms, of "\<lambda>p. fst p \<noteq> k"]
    by (intro isolated_ok [where db' = "db\<lparr>db_schedules := delete_row k (db_schedules db)\<rparr>"])
      (auto simp: get_owned_Inr own_delete_other wf_tables simp flip: delete_row_def)
qed


lemma isolated_set_secret:
  assumes "wf_db db" and "u \<in> fst ` set (db_users db)" and "unused db (ca_new_id ca)"
  shows "isolated u (session (set_secret env ca u ref val)) db"
proof (cases "secret_rows db u ref = []")
  case True
  let ?k = "ca_new_id ca"
  let ?s = "\<lparr>se_owner_id = u, se_ref = ref, se_ciphertext = cipher_encrypt (ae_crypto env) (ae_cipher env) (ca_random ca) (utf8 val),
      se_created_at = ca_now ca, se_updated_at = ca_now ca\<rparr>"
  let ?db = "db\<lparr>db_secrets := db_secrets db @ [(?k, ?s)]\<rparr>"
  have fresh: "?k \<notin> fst ` set (db_secrets db)" using assms(3) by (simp add: unused_def)
  note fresh' = own_unused [OF fresh, of se_owner_id u]
  have "secret_key ?s \<notin> set (map secret_key (dict_values (db_secrets db)))"
    using True by (force simp: secret_rows_def filter_empty_conv secret_key_def)
  moreover from this have "secret_key ?s \<notin> set (map secret_key (dict_values (own se_owner_id u (db_secrets db))))"
    by (auto simp: own_def)
  ultimately have ins: "insert_secret ?k ?s db = Inr ?db" "insert_secret ?k ?s (view u db) = Inr (view u ?db)"
    using fresh fresh' assms(2) user_in_view [OF assms(2)] by (simp_all add: insert_secret_def insert_row_def)
  have "wf_db ?db" by (rule wf_insert_secret [OF assms(1) ins(1)])
  with ins fresh fresh' True show ?thesis
    by (intro isolated_ok) (simp_all add: set_secret_def upsert_secret_def one_or_none_def respond_def)
next
  case False
  then obtain k s where row: "secret_rows db u ref = [(k, s)]"
    using secret_rows_unique [OF assms(1), of u ref] by auto
  note wf = wf_tables(5) [OF assms(1)]
  have s: "dict_get (db_secrets db) k = Some s" "se_owner_id s = u"
    using secret_rows_mem [OF row] wf by (auto simp: wf_dict_def)
  let ?f = "set_ciphertext (cipher_encrypt (ae_crypto env) (ae_cipher env) (ca_random ca) (utf8 val)) (ca_now ca)"
  have own: "own se_owner_id v (update_row k ?f (db_secrets db)) = update_row k ?f (own se_owner_id v (db_secrets db))" for v
    by (intro own_update [OF wf]) simp
  have other: "update_row k ?f (own se_owner_id v (db_secrets db)) = own se_owner_id v (db_secrets db)" if "v \<noteq> u" for v
    using that own_update_other [OF wf s(1), of se_owner_id ?f v] s by (simp add: own)
  have "wf_db (db\<lparr>db_secrets := update_row k ?f (db_secrets db)\<rparr>)"
    by (rule wf_update_secret [OF assms(1)]) (simp add: secret_key_def)
  with row s other own_mine [where f = se_owner_id, OF wf s] show ?thesis
    by (intro isolated_ok) (simp_all add: set_secret_def upsert_secret_def one_or_none_def respond_def own)
qed

lemma isolated_remove_secret:
  assumes "wf_db db"
  shows "isolated u (session (remove_secret u ref)) db"
proof (cases "secret_rows db u ref = []")
  case True
  with assms show ?thesis by (intro isolated_error) (simp_all add: remove_secret_def delete_secret_def)
next
  case False
  let ?keep = "\<lambda>p. \<not> (se_owner_id (snd p) = u \<and> se_ref (snd p) = ref)"
  have "own se_owner_id u (filter ?keep (db_secrets db)) = filter ?keep (own se_owner_id u (db_secrets db))"
    by (simp add: own_def conj_commute)
  moreover have "own se_owner_id v (filter ?keep (db_secrets db)) = own se_owner_id v (db_secrets db)" if "v \<noteq> u" for v
    using that by (auto simp: own_def intro: filter_cong)
  moreover note wf_filter_secrets [OF assms, of ?keep]
  ultimately show ?thesis using False
    by (intro isolated_ok) (simp_all add: remove_secret_def delete_secret_def)
qed

lemma isolated_trigger_run:
  assumes "wf_db db" and "u \<in> fst ` set (db_users db)" and "unused db (ca_new_id ca)" and "external_queue env"
  shows "isolated u (trigger_run env ca u pk params) db"
proof (cases "get_owned_pipeline db pk u")
  case (Inl e)
  with assms(1) show ?thesis by (simp add: isolated_def trigger_run_def get_owned_view)
next
  case (Inr p)
  then have p: "dict_get (db_pipelines db) pk = Some p" "pl_owner_id p = u" by (simp_all add: get_owned_Inr)
  let ?k = "ca_new_id ca" and ?r = "manual_run (ca_now ca) pk u params"
  let ?db = "db\<lparr>db_runs := db_runs db @ [(?k, ?r)]\<rparr>"
  have r: "rn_owner_id ?r = u" "rn_pipeline_id ?r = pk" "run_ok ?r" by (simp_all add: manual_run_def run_ok_def)
  have fresh: "?k \<notin> fst ` set (db_runs db)" using assms(3) by (simp add: unused_def)
  note fresh' = own_unused [OF fresh, of rn_owner_id u]
  have ins: "insert_run ?k ?r db = Inr ?db" 
    using fresh assms(2) p r by (simp add: insert_run_def insert_row_def dict_get_SomeD)
  have refs: "\<forall>l \<in> set (db_logs db). lg_run_id l \<noteq> ?k" "\<forall>e \<in> set (db_errors db). er_run_id e \<noteq> ?k"
    using assms(1) fresh unfolding wf_db_def refs_ok_db_def list_all_iff by metis+
  have "filter (\<lambda>l. lg_run_id l = ?k \<or> lg_run_id l \<in> X) (db_logs db) = filter (\<lambda>l. lg_run_id l \<in> X) (db_logs db)"
    "filter (\<lambda>e. er_run_id e = ?k \<or> er_run_id e \<in> X) (db_errors db) = filter (\<lambda>e. er_run_id e \<in> X) (db_errors db)" for X
    using refs by (auto intro: filter_cong)
  then have view: "view v ?db = (view v db)\<lparr>db_runs := own rn_owner_id v (db_runs ?db)\<rparr>" for v
    by (intro database.equality; cases "rn_owner_id ?r = v") (simp_all add: view_def Let_def)
  have "insert_run ?k ?r (view u db) = Inr (view u ?db)" 
    using fresh' user_in_view [OF assms(2)] r own_mine [where f = pl_owner_id, OF wf_tables(2) [OF assms(1)] p, THEN dict_get_SomeD]
    by (simp add: insert_run_def insert_row_def view)
  moreover have "view v ?db = view v db" if "v \<noteq> u" for v using that r view [of v] by (simp add: view_def Let_def)
  moreover have "wf_db ?db" using p r by (intro wf_insert_run [OF assms(1) ins]) (simp_all add: owned_by_pipeline_def)
  moreover have "dict_get (db_runs ?db) ?k = Some ?r" "dict_get (db_runs (view u ?db)) ?k = Some ?r"
    using fresh fresh' r by simp_all
  ultimately show ?thesis using assms(1,4) ins Inr
    by (simp add: isolated_def trigger_run_def get_owned_view external_queue_def respond_def Let_def)
qed


lemmas isolated_requests = isolated_create_pipeline isolated_update_pipeline isolated_delete_pipeline isolated_lookups
  isolated_lists isolated_create_schedule isolated_update_schedule isolated_delete_schedule isolated_set_secret
  isolated_remove_secret isolated_trigger_run

lemma handle_isolated:
  assumes "wf_db db" and "u \<in> fst ` set (db_users db)" and "unused db (ca_new_id ca)" and "external_queue env"
  shows "isolated u (handle env ca u req) db"
  using assms by (cases req) (simp_all add: isolated_requests)

text \<open>
  C37. Users are separated. A request of a known user answers as if the user were alone in the database: run on the
  view of this user it gives the same response, the same job for the queue and the view of the same new database.
  What other users see is exactly as before, and the new database is well-typed. The identifier drawn for a new row
  is unused and the queue does not touch the database.
\<close>

theorem tenant_isolation:
  assumes "wf_db db" and "u \<in> fst ` set (db_users db)" and "unused db (ca_new_id ca)" and "external_queue env"
    and "handle env ca u req db = (res, job, db')"
  shows "handle env ca u req (view u db) = (res, job, view u db') \<and>
    (\<forall>v. v \<noteq> u \<longrightarrow> view v db' = view v db) \<and> wf_db db'"
  using handle_isolated [OF assms(1-4), of req] assms(5) by (simp add: isolated_def)

definition demo_api :: api_env where
  "demo_api = \<lparr>ae_spec_errors = (\<lambda>_. 0), ae_cron = demo_cron, ae_crypto = demo_crypto, ae_cipher = FernetCipher ''key'',
     ae_enqueue = (\<lambda>_ db. (Inr (), db))\<rparr>"

definition demo_tenants :: database where
  "demo_tenants = empty_db\<lparr>
     db_users := [(1, \<lparr>us_email = ''a'', us_hashed_password = [], us_is_active = True, us_created_at = 0\<rparr>),
                  (2, \<lparr>us_email = ''b'', us_hashed_password = [], us_is_active = True, us_created_at = 0\<rparr>)],
     db_pipelines := [(10, \<lparr>pl_owner_id = 1, pl_name = ''p'', pl_spec = JDict [], pl_created_at = 0, pl_updated_at = 0\<rparr>),
                      (20, \<lparr>pl_owner_id = 2, pl_name = ''q'', pl_spec = JDict [], pl_created_at = 0, pl_updated_at = 0\<rparr>)]\<rparr>"

text \<open>User 1 deletes a pipeline; the pipeline of user 2 stays, and to delete that one is an error.\<close>

theorem tenant_isolation_witness:
  "let ca = \<lparr>ca_new_id = 30, ca_now = 5, ca_random = []\<rparr>;
       db = snd (snd (handle demo_api ca 1 (DeletePipeline 10) demo_tenants))
   in wf_db db \<and> view 2 db = view 2 demo_tenants \<and> db_pipelines (view 1 db) = [] \<and>
      handle demo_api ca 1 (DeletePipeline 20) db = (Inl (HTTPException 404 ''pipeline not found''), None, db)"
proof -
  define ca where "ca = \<lparr>ca_new_id = 30, ca_now = 5, ca_random = []\<rparr>"
  have wf: "wf_db demo_tenants"
    by (simp add: wf_db_defs demo_tenants_def empty_db_def wf_dict_def)
  have "handle demo_api ca 1 (DeletePipeline 10) demo_tenants = (Inr RespNoContent, None, delete_pipeline_row 10 demo_tenants)"
    by (simp add: session_def delete_pipeline_def get_owned_pipeline_def demo_tenants_def empty_db_def)
  moreover from this have "wf_db (delete_pipeline_row 10 demo_tenants) \<and> view 2 (delete_pipeline_row 10 demo_tenants) = view 2 demo_tenants"
    using tenant_isolation [OF wf, of 1 ca demo_api "DeletePipeline 10"]
    by (simp add: unused_def external_queue_def demo_api_def demo_tenants_def empty_db_def ca_def)
  ultimately show ?thesis
    by (simp add: ca_def [symmetric] Let_def) (simp add: demo_tenants_def empty_db_def delete_pipeline_row_def delete_row_def own_def Let_def
        session_def delete_pipeline_def get_owned_pipeline_def not_found_def)
qed

end
