(* ===== verification/Worker.thy ===== *)
theory Worker
  imports Settings Secret_Store Engine
begin

text \<open>
  \<open>etl_server/worker.py\<close>: how a queued run becomes an execution of the engine and its persisted results. Every
  session that commits is one function on the database; \<open>execute_run\<close> puts them together. Exceptions that leave
  \<open>execute_run\<close> are values, with the database as the commits before them left it. Timestamps of log events and
  errors and the durations in a stored result are left out.
\<close>

section \<open>The stored result\<close>

definition OUTPUT_RECORD_CAP :: nat where "OUTPUT_RECORD_CAP = 1000"

fun node_status_value :: "node_status \<Rightarrow> string" where
  "node_status_value SUCCEEDED = ''succeeded''"
| "node_status_value FAILED = ''failed''"
| "node_status_value SKIPPED = ''skipped''"

definition opt_json :: "('a \<Rightarrow> json) \<Rightarrow> 'a option \<Rightarrow> json" where
  "opt_json f x = (case x of None \<Rightarrow> JNull | Some y \<Rightarrow> f y)"

definition dump_error :: "node_error \<Rightarrow> json" where
  "dump_error e = JDict
     [(''node_id'', JStr (ne_node_id e)), (''node_type'', JStr (ne_node_type e)),
      (''category'', JStr (category_value (ne_category e))), (''message'', JStr (ne_message e)),
      (''http_status'', opt_json JInt (ne_http_status e)), (''request_summary'', opt_json JStr (ne_request_summary e)),
      (''attempts'', JInt (int (ne_attempts e))), (''details'', opt_json JDict (ne_details e))]"

definition dump_node_result :: "node_result \<Rightarrow> json" where
  "dump_node_result r = JDict
     [(''node_id'', JStr (nr_node_id r)), (''node_type'', JStr (nr_node_type r)),
      (''status'', JStr (node_status_value (nr_status r))),
      (''records_out'', opt_json (\<lambda>n. JInt (int n)) (nr_records_out r)),
      (''iterations'', opt_json (\<lambda>n. JInt (int n)) (nr_iterations r)), (''error'', opt_json dump_error (nr_error r))]"

fun trim_outputs :: "(string \<times> records) list \<Rightarrow> json dict \<Rightarrow> bool \<Rightarrow> json dict \<times> bool" where
  "trim_outputs [] outputs truncated = (outputs, truncated)"
| "trim_outputs ((n, recs) # rest) outputs truncated =
     (if OUTPUT_RECORD_CAP < length recs
      then trim_outputs rest (dict_set n (JList (map JDict (take OUTPUT_RECORD_CAP recs))) outputs) True
      else trim_outputs rest (dict_set n (JList (map JDict recs)) outputs) truncated)"

definition trimmed_result :: "run_result \<Rightarrow> json" where
  "trimmed_result rr =
     (case trim_outputs (rr_outputs rr) [] False of
        (outputs, truncated) \<Rightarrow> JDict
          [(''status'', JStr (run_status_value (rr_status rr))),
           (''node_results'', JDict (map (\<lambda>(n, r). (n, dump_node_result r)) (rr_node_results rr))),
           (''outputs'', JDict outputs), (''outputs_truncated'', JBool truncated)])"

section \<open>Sessions of the worker\<close>

definition error_row_of :: "uuid \<Rightarrow> node_error \<Rightarrow> error_row" where
  "error_row_of run_id e =
     \<lparr>er_id = 0, er_run_id = run_id, er_node_id = ne_node_id e, er_node_type = ne_node_type e,
      er_category = category_value (ne_category e), er_message = ne_message e, er_http_status = ne_http_status e,
      er_request_summary = ne_request_summary e, er_attempts = ne_attempts e, er_details = ne_details e\<rparr>"

fun persist_errors :: "uuid \<Rightarrow> node_error list \<Rightarrow> database \<Rightarrow> server_exn + database" where
  "persist_errors run_id [] db = Inr db"
| "persist_errors run_id (e # es) db = sbind (insert_error (error_row_of run_id e) db) (persist_errors run_id es)"

text \<open>Updating the row of a run; the session has it loaded, so a row deleted meanwhile is an error at the commit.\<close>

definition save_run :: "uuid \<Rightarrow> (run_row \<Rightarrow> run_row) \<Rightarrow> database \<Rightarrow> server_exn + database" where
  "save_run run_id f db =
     (if dict_has (db_runs db) run_id then Inr (db\<lparr>db_runs := update_row run_id f (db_runs db)\<rparr>)
      else Inl (Uncaught ''StaleDataError''))"

definition fail_run :: "uuid \<Rightarrow> node_error \<Rightarrow> bool \<Rightarrow> timestamp \<Rightarrow> database \<Rightarrow> server_exn + database" where
  "fail_run run_id err started now db =
     (case dict_get (db_runs db) run_id of
        None \<Rightarrow> Inr db
      | Some _ \<Rightarrow>
          sbind (save_run run_id (\<lambda>r. r\<lparr>rn_status := phase_value RFailed, rn_finished_at := Some now,
              rn_started_at := (if started \<and> rn_started_at r = None then Some now else rn_started_at r),
              rn_error_count := 1\<rparr>) db)
            (persist_errors run_id [err]))"

text \<open>The claim reads the run and its pipeline, then commits the new state.\<close>

datatype claim = Skip | Orphan | Claim uuid json

definition load_run :: "uuid \<Rightarrow> database \<Rightarrow> claim" where
  "load_run run_id db =
     (case dict_get (db_runs db) run_id of
        None \<Rightarrow> Skip
      | Some r \<Rightarrow>
          if rn_status r \<noteq> phase_value RQueued then Skip
          else (case dict_get (db_pipelines db) (rn_pipeline_id r) of
              None \<Rightarrow> Orphan
            | Some p \<Rightarrow> Claim (rn_owner_id r) (pl_spec p)))"

definition mark_orphan :: "uuid \<Rightarrow> timestamp \<Rightarrow> database \<Rightarrow> server_exn + database" where
  "mark_orphan run_id now = save_run run_id (\<lambda>r. r\<lparr>rn_status := phase_value RFailed, rn_finished_at := Some now\<rparr>)"

definition mark_running :: "uuid \<Rightarrow> timestamp \<Rightarrow> database \<Rightarrow> server_exn + database" where
  "mark_running run_id now = save_run run_id (\<lambda>r. r\<lparr>rn_status := phase_value RRunning, rn_started_at := Some now\<rparr>)"

definition log_row_of :: "uuid \<Rightarrow> nat \<Rightarrow> log_event \<Rightarrow> log_row" where
  "log_row_of run_id seq e =
     \<lparr>lg_id = 0, lg_run_id = run_id, lg_seq = seq, lg_level = level_value (le_level e), lg_node_id = le_node_id e,
      lg_message = le_message e, lg_data = le_data e\<rparr>"

text \<open>The inner loop of the flusher: write the events of the buffer from \<open>written\<close> on.\<close>

fun flush_events :: "uuid \<Rightarrow> nat \<Rightarrow> log_event list \<Rightarrow> database \<Rightarrow> server_exn + database" where
  "flush_events run_id written [] db = Inr db"
| "flush_events run_id written (e # es) db =
     sbind (insert_log (log_row_of run_id written e) db) (flush_events run_id (Suc written) es)"

text \<open>
  The flusher next to the engine. At each wake-up the buffer has grown by some events, which are written and
  committed; once the engine has returned and \<open>stop\<close> is set, the rest is written and the loop ends. The list
  gives the growth of the buffer at each wake-up. The database of an exception is that of the last commit.
\<close>

fun flusher :: "uuid \<Rightarrow> nat list \<Rightarrow> nat \<Rightarrow> log_event list \<Rightarrow> database \<Rightarrow> (server_exn + unit) \<times> database" where
  "flusher run_id [] written events db =
     (case flush_events run_id written events db of Inl e \<Rightarrow> (Inl e, db) | Inr db' \<Rightarrow> (Inr (), db'))"
| "flusher run_id (n # wakes) written events db =
     (case flush_events run_id written (take n events) db of
        Inl e \<Rightarrow> (Inl e, db)
      | Inr db' \<Rightarrow> flusher run_id wakes (written + length (take n events)) (drop n events) db')"

definition finish_run :: "uuid \<Rightarrow> run_result \<Rightarrow> timestamp \<Rightarrow> database \<Rightarrow> server_exn + database" where
  "finish_run run_id rr now db =
     (case dict_get (db_runs db) run_id of
        None \<Rightarrow> Inr db
      | Some _ \<Rightarrow>
          sbind (persist_errors run_id (rr_errors rr) db)
            (save_run run_id (\<lambda>r. r\<lparr>rn_error_count := length (rr_errors rr), rn_result := Some (trimmed_result rr),
               rn_status := (if rr_status rr = RunSucceeded then phase_value RSucceeded else phase_value RFailed),
               rn_finished_at := Some now\<rparr>)))"

section \<open>Executing a run\<close>

record 'c worker_env =
  we_registry :: "'c registry"
  we_settings :: settings
  we_crypto :: crypto_lib
  we_parse :: "json \<Rightarrow> string + pipeline_spec"

text \<open>What the environment contributes to one execution: clock readings, interleavings, and the events an engine that raises has logged.\<close>

record execution =
  ex_claimed_at :: timestamp
  ex_finished_at :: timestamp
  ex_schedule :: "string \<Rightarrow> choice list"
  ex_wakes :: "nat list"
  ex_emitted :: "log_event list"

definition db_exn :: "server_exn \<Rightarrow> exn" where
  "db_exn e = (case e of Uncaught t \<Rightarrow> OtherException t [] | HTTPException n m \<Rightarrow> OtherException ''HTTPException'' m)"

definition run_options :: "settings \<Rightarrow> string + exec_options" where
  "run_options s =
     (if sg_max_run_concurrency s < 1 then Inl ''max_concurrency''
      else Inr (default_options\<lparr>eo_max_concurrency := nat (sg_max_run_concurrency s), eo_ssrf_policy := settings_policy s\<rparr>))"

definition missing_secret_error :: "string \<Rightarrow> node_error" where
  "missing_secret_error ref =
     \<lparr>ne_node_id = ''__pipeline__'', ne_node_type = ''pipeline'', ne_category = CONFIG,
      ne_message = ''secret '' @ repr_str ref @ '' is not configured for this user'', ne_http_status = None,
      ne_request_summary = None, ne_attempts = 1, ne_details = None\<rparr>"

definition raising :: "string \<Rightarrow> string + 'a \<Rightarrow> exn + 'a" where
  "raising t r = (case r of Inl m \<Rightarrow> Inl (OtherException t m) | Inr x \<Rightarrow> Inr x)"

text \<open>Parsing the document, building the cipher, resolving the owner's secrets, building the options.\<close>

definition prepare_run :: "'c worker_env \<Rightarrow> uuid \<Rightarrow> json \<Rightarrow> database \<Rightarrow>
    exn + (pipeline_spec \<times> string dict \<times> exec_options)" where
  "prepare_run env owner_id spec_dict db =
     sbind (raising ''ValidationError'' (we_parse env spec_dict)) (\<lambda>spec.
       sbind (raising ''CryptoError'' (secrets_cipher (we_crypto env) (we_settings env))) (\<lambda>cipher.
         sbind (resolve_secrets (db_secret_get (we_crypto env) cipher db owner_id) spec) (\<lambda>secrets.
           sbind (raising ''ValidationError'' (run_options (we_settings env))) (\<lambda>options. Inr (spec, secrets, options)))))"

definition committed :: "database \<Rightarrow> server_exn + database \<Rightarrow> (exn + unit) \<times> database" where
  "committed db r = (case r of Inl e \<Rightarrow> (Inl (db_exn e), db) | Inr db' \<Rightarrow> (Inr (), db'))"

text \<open>The engine runs with the flusher beside it; then the result is stored, unless the engine or the flusher raised.\<close>

definition run_engine :: "'c worker_env \<Rightarrow> execution \<Rightarrow> uuid \<Rightarrow> pipeline_spec \<Rightarrow> string dict \<Rightarrow> exec_options \<Rightarrow> database \<Rightarrow>
    ((exn + unit) \<times> database) option" where
  "run_engine env ex run_id spec secrets options db =
     (case execute_pipeline (we_registry env) (ex_schedule ex) spec secrets options of
        None \<Rightarrow> None
      | Some (Inl e) \<Rightarrow>
          Some (case flusher run_id (ex_wakes ex) 0 (ex_emitted ex) db of
                  (Inl f, db) \<Rightarrow> (Inl (db_exn f), db)
                | (Inr _, db) \<Rightarrow> (Inl e, db))
      | Some (Inr rr) \<Rightarrow>
          Some (case flusher run_id (ex_wakes ex) 0 (rr_logs rr) db of
                  (Inl f, db) \<Rightarrow> (Inl (db_exn f), db)
                | (Inr _, db) \<Rightarrow> committed db (finish_run run_id rr (ex_finished_at ex) db)))"

definition run_claimed :: "'c worker_env \<Rightarrow> execution \<Rightarrow> uuid \<Rightarrow> uuid \<Rightarrow> json \<Rightarrow> database \<Rightarrow> ((exn + unit) \<times> database) option" where
  "run_claimed env ex run_id owner_id spec_dict db =
     (case prepare_run env owner_id spec_dict db of
        Inl (SecretNotFoundError ref) \<Rightarrow>
          Some (committed db (fail_run run_id (missing_secret_error ref) True (ex_finished_at ex) db))
      | Inl e \<Rightarrow> Some (Inl e, db)
      | Inr (spec, secrets, options) \<Rightarrow> run_engine env ex run_id spec secrets options db)"

definition execute_run :: "'c worker_env \<Rightarrow> execution \<Rightarrow> uuid \<Rightarrow> database \<Rightarrow> ((exn + unit) \<times> database) option" where
  "execute_run env ex run_id db =
     (case load_run run_id db of
        Skip \<Rightarrow> Some (Inr (), db)
      | Orphan \<Rightarrow> Some (committed db (mark_orphan run_id (ex_claimed_at ex) db))
      | Claim owner_id spec_dict \<Rightarrow>
          (case mark_running run_id (ex_claimed_at ex) db of
             Inl e \<Rightarrow> Some (Inl (db_exn e), db)
           | Inr db \<Rightarrow> run_claimed env ex run_id owner_id spec_dict db))"


section \<open>The sessions keep the database well-typed\<close>

lemma insert_error_runs: "insert_error e db = Inr db' \<Longrightarrow> db_runs db' = db_runs db"
  by (auto simp: insert_error_def split: if_splits)

lemma wf_persist_errors: "wf_db db \<Longrightarrow> persist_errors k es db = Inr db' \<Longrightarrow> wf_db db'"
  by (induction es arbitrary: db) (auto simp: sbind_eq_Inr dest: wf_insert_error)

lemma wf_flush_events: "wf_db db \<Longrightarrow> flush_events k n es db = Inr db' \<Longrightarrow> wf_db db'"
  by (induction es arbitrary: db n) (auto simp: sbind_eq_Inr dest: wf_insert_log)

lemma wf_save_run:
  assumes "wf_db db" and "save_run k f db = Inr db'" and "\<And>r. rn_pipeline_id (f r) = rn_pipeline_id r"
    and "\<And>r. rn_owner_id (f r) = rn_owner_id r" and "\<And>r. run_ok r \<Longrightarrow> run_ok (f r)"
  shows "wf_db db'"
  using assms wf_update_run [of db f k] by (auto simp: save_run_def split: if_splits)

lemma wf_mark_running: "wf_db db \<Longrightarrow> mark_running k now db = Inr db' \<Longrightarrow> wf_db db'"
  unfolding mark_running_def by (erule (1) wf_save_run) (auto simp: run_ok_def)

lemma wf_mark_orphan: "wf_db db \<Longrightarrow> mark_orphan k now db = Inr db' \<Longrightarrow> wf_db db'"
  unfolding mark_orphan_def by (erule (1) wf_save_run) (auto simp: run_ok_def)

lemma wf_fail_run:
  assumes "wf_db db" and "fail_run k err started now db = Inr db'"
  shows "wf_db db'"
proof (cases "dict_get (db_runs db) k")
  case None
  with assms show ?thesis by (simp add: fail_run_def)
next
  case (Some r)
  with assms obtain db1 where "save_run k (\<lambda>r. r\<lparr>rn_status := phase_value RFailed, rn_finished_at := Some now,
      rn_started_at := (if started \<and> rn_started_at r = None then Some now else rn_started_at r), rn_error_count := 1\<rparr>) db = Inr db1"
    and db': "persist_errors k [err] db1 = Inr db'" by (auto simp: fail_run_def sbind_eq_Inr)
  then have "wf_db db1" by (elim wf_save_run [OF assms(1)]) (auto simp: run_ok_def)
  then show ?thesis by (rule wf_persist_errors [OF _ db'])
qed

lemma wf_finish_run:
  assumes "wf_db db" and "finish_run k rr now db = Inr db'"
  shows "wf_db db'"
proof (cases "dict_get (db_runs db) k")
  case None
  with assms show ?thesis by (simp add: finish_run_def)
next
  case (Some r)
  with assms obtain db1 where db1: "persist_errors k (rr_errors rr) db = Inr db1"
    and "save_run k (\<lambda>r. r\<lparr>rn_error_count := length (rr_errors rr), rn_result := Some (trimmed_result rr),
               rn_status := (if rr_status rr = RunSucceeded then phase_value RSucceeded else phase_value RFailed),
               rn_finished_at := Some now\<rparr>) db1 = Inr db'" by (auto simp: finish_run_def sbind_eq_Inr)
  then show ?thesis by (elim wf_save_run [OF wf_persist_errors [OF assms(1) db1]]) (auto simp: run_ok_def)
qed

lemmas wf_sessions = wf_mark_running wf_mark_orphan wf_flush_events wf_fail_run wf_finish_run

section \<open>What the sessions write\<close>

fun log_rows :: "uuid \<Rightarrow> nat \<Rightarrow> nat \<Rightarrow> log_event list \<Rightarrow> log_row list" where
  "log_rows k i n [] = []"
| "log_rows k i n (e # es) = (log_row_of k n e)\<lparr>lg_id := i\<rparr> # log_rows k (Suc i) (Suc n) es"

fun error_rows :: "uuid \<Rightarrow> nat \<Rightarrow> node_error list \<Rightarrow> error_row list" where
  "error_rows k i [] = []"
| "error_rows k i (e # es) = (error_row_of k e)\<lparr>er_id := i\<rparr> # error_rows k (Suc i) es"

lemma flush_events_eq:
  assumes "k \<in> fst ` set (db_runs db)"
  shows "flush_events k n es db = Inr (db\<lparr>db_logs := db_logs db @ log_rows k (db_next_log db) n es, db_next_log := db_next_log db + length es\<rparr>)"
  using assms
proof (induction es arbitrary: db n)
  case (Cons e es)
  then show ?case by (simp add: insert_log_def log_row_of_def [of k n e])
qed simp

lemma persist_errors_eq:
  assumes "k \<in> fst ` set (db_runs db)"
  shows "persist_errors k es db =
    Inr (db\<lparr>db_errors := db_errors db @ error_rows k (db_next_error db) es, db_next_error := db_next_error db + length es\<rparr>)"
  using assms
proof (induction es arbitrary: db)
  case (Cons e es)
  then show ?case by (simp add: insert_error_def error_row_of_def [of k e])
qed simp

lemma log_rows_append: "log_rows k i n (xs @ ys) = log_rows k i n xs @ log_rows k (i + length xs) (n + length xs) ys"
  by (induction xs arbitrary: i n) simp_all

text \<open>The flusher writes the same rows whenever it wakes up.\<close>

lemma flusher_eq:
  assumes "k \<in> fst ` set (db_runs db)"
  shows "flusher k wakes n es db =
    (Inr (), db\<lparr>db_logs := db_logs db @ log_rows k (db_next_log db) n es, db_next_log := db_next_log db + length es\<rparr>)"
  using assms
proof (induction wakes arbitrary: n es db)
  case (Cons w wakes)
  then show ?case using log_rows_append [of k "db_next_log db" n "take w es" "drop w es"]
    by (simp add: flush_events_eq)
qed (simp add: flush_events_eq)

end
