(* ===== verification/Run_Lifecycle.thy ===== *)
theory Run_Lifecycle
  imports Tenant_Isolation Worker
begin

text \<open>
  The life of a run across the components: the API creates it and hands it to the queue, the worker claims it,
  runs the engine and stores what it reports, and the API shows the stored run to its owner.
\<close>

section \<open>Executing a claimed run\<close>

text \<open>What a run looks like after a successful engine call.\<close>

definition finished_run :: "execution \<Rightarrow> run_result \<Rightarrow> run_row \<Rightarrow> run_row" where
  "finished_run ex rr r =
     r\<lparr>rn_started_at := Some (ex_claimed_at ex), rn_error_count := length (rr_errors rr), rn_result := Some (trimmed_result rr),
       rn_status := (if rr_status rr = RunSucceeded then phase_value RSucceeded else phase_value RFailed),
       rn_finished_at := Some (ex_finished_at ex)\<rparr>"

definition after_run :: "execution \<Rightarrow> run_result \<Rightarrow> uuid \<Rightarrow> database \<Rightarrow> database" where
  "after_run ex rr k db =
     db\<lparr>db_logs := db_logs db @ log_rows k (db_next_log db) 0 (rr_logs rr), db_next_log := db_next_log db + length (rr_logs rr),
        db_errors := db_errors db @ error_rows k (db_next_error db) (rr_errors rr),
        db_next_error := db_next_error db + length (rr_errors rr),
        db_runs := update_row k (finished_run ex rr) (db_runs db)\<rparr>"

lemma update_row_update_row: "update_row k f (update_row k g t) = update_row k (f \<circ> g) t"
  by (auto simp: update_row_def)

lemma secret_get_same [simp]: "db_secret_get lib c (db\<lparr>db_runs := t\<rparr>) = db_secret_get lib c db"
  by (intro ext) (simp add: db_secret_get_def secret_rows_def)

lemma prepare_run_same [simp]: "prepare_run env owner j (db\<lparr>db_runs := t\<rparr>) = prepare_run env owner j db"
  by (simp add: prepare_run_def)

lemma execute_run_finishes:
  assumes "load_run k db = Claim owner j" and "prepare_run env owner j db = Inr (spec, secrets, options)"
    and "execute_pipeline (we_registry env) (ex_schedule ex) spec secrets options = Some (Inr rr)"
  shows "execute_run env ex k db = Some (Inr (), after_run ex rr k db)"
proof -
  obtain r where r: "dict_get (db_runs db) k = Some r"
    using assms(1) by (auto simp: load_run_def split: option.splits)
  moreover have "k \<in> fst ` set (db_runs db)" by (rule dict_get_SomeD [OF r])
  ultimately show ?thesis
    using assms
    by (simp add: execute_run_def mark_running_def save_run_def run_claimed_def run_engine_def flusher_eq finish_run_def
        persist_errors_eq committed_def after_run_def update_row_update_row comp_def finished_run_def [abs_def])
qed


text \<open>However the execution ends, the database stays well-typed.\<close>

lemma wf_flusher: "wf_db db \<Longrightarrow> flusher k wakes n es db = (res, db') \<Longrightarrow> wf_db db'"
  by (induction wakes arbitrary: db n es) (auto dest: wf_flush_events split: sum.splits)

lemma wf_execute_run:
  assumes "wf_db db" and "execute_run env ex k db = Some (res, db')"
  shows "wf_db db'"
proof -
  have engine: "wf_db db2" if "wf_db db1" "run_engine env ex k spec secrets options db1 = Some (r, db2)" for db1 db2 spec secrets options r
    using that by (auto simp: run_engine_def committed_def split: option.splits sum.splits prod.splits dest: wf_flusher wf_finish_run)
  have "wf_db db2" if "wf_db db1" "run_claimed env ex k owner j db1 = Some (r, db2)" for db1 db2 owner j r
    using that engine by (auto simp: run_claimed_def committed_def split: sum.splits exn.splits dest: wf_fail_run)
  with assms show ?thesis
    by (auto simp: execute_run_def committed_def split: claim.splits sum.splits dest: wf_mark_orphan wf_mark_running)
qed

section \<open>What the owner then sees\<close>

definition log_content :: "log_read \<Rightarrow> nat \<times> string \<times> string option \<times> string \<times> json dict option" where
  "log_content l = (lr_seq l, lr_level l, lr_node_id l, lr_message l, lr_data l)"

definition event_content :: "nat \<times> log_event \<Rightarrow> nat \<times> string \<times> string option \<times> string \<times> json dict option" where
  "event_content = (\<lambda>(i, e). (i, level_value (le_level e), le_node_id e, le_message e, le_data e))"

definition error_content :: "error_read \<Rightarrow> node_error \<Rightarrow> bool" where
  "error_content d e \<longleftrightarrow>
     ed_node_id d = ne_node_id e \<and> ed_node_type d = ne_node_type e \<and> ed_category d = category_value (ne_category e) \<and>
     ed_message d = ne_message e \<and> ed_http_status d = ne_http_status e \<and> ed_request_summary d = ne_request_summary e \<and>
     ed_attempts d = ne_attempts e \<and> ed_details d = ne_details e"

lemma read_log_rows: "map log_content (map read_log (log_rows k i n es)) = map event_content (enumerate n es)"
  by (induction es arbitrary: i n) (simp_all add: log_content_def read_log_def event_content_def log_row_of_def)

lemma read_error_rows: "list_all2 error_content (map read_error (error_rows k i es)) es"
  by (induction es arbitrary: i) (simp_all add: error_content_def read_error_def error_row_of_def)

lemma rows_of_run:
  "filter (\<lambda>l. lg_run_id l = k) (log_rows k i n es) = log_rows k i n es"
  "filter (\<lambda>e. er_run_id e = k) (error_rows k i xs) = error_rows k i xs"
  by (induction es arbitrary: i n, simp_all add: log_row_of_def) (induction xs arbitrary: i, simp_all add: error_row_of_def)

lemma rows_of_others:
  "k \<notin> S \<Longrightarrow> filter (\<lambda>l. lg_run_id l \<in> S) (log_rows k i n es) = []"
  "k \<notin> S \<Longrightarrow> filter (\<lambda>e. er_run_id e \<in> S) (error_rows k i xs) = []"
  by (induction es arbitrary: i n, simp_all add: log_row_of_def) (induction xs arbitrary: i, simp_all add: error_row_of_def)

lemma view_after_run:
  assumes "wf_db db" and "dict_get (db_runs db) k = Some r" and "rn_owner_id r \<noteq> v"
  shows "(view v (after_run ex rr k db))\<lparr>db_next_log := db_next_log db, db_next_error := db_next_error db\<rparr> = view v db"
proof -
  note wf = wf_tables(3) [OF assms(1)]
  have "own rn_owner_id v (update_row k (finished_run ex rr) (db_runs db)) = own rn_owner_id v (db_runs db)"
    using assms(3) by (intro own_update_other [OF wf assms(2)]) (simp_all add: finished_run_def)
  then show ?thesis
    using own_foreign [OF wf assms(2), of rn_owner_id v] assms(3)
    by (simp add: after_run_def view_def Let_def rows_of_others)
qed


lemma triggered_run:
  assumes "wf_db db" and "u \<in> fst ` set (db_users db)" and "unused db (ca_new_id ca)" and "external_queue env"
    and "get_owned_pipeline db pk u = Inr p"
  shows "trigger_run env ca u pk params db =
      (Inr (RespRun (read_run (ca_new_id ca, manual_run (ca_now ca) pk u params))), Some (ca_new_id ca),
       db\<lparr>db_runs := db_runs db @ [(ca_new_id ca, manual_run (ca_now ca) pk u params)]\<rparr>)"
proof -
  have "pk \<in> fst ` set (db_pipelines db)" using assms(5) by (auto simp: get_owned_Inr dest: dict_get_SomeD)
  with assms show ?thesis
    by (simp add: trigger_run_def insert_run_def insert_row_def unused_def external_queue_def respond_def manual_run_def Let_def)
qed

text \<open>
  C38. The life of a run. A user triggers a pipeline of hers; the document parses, her secrets resolve and the engine
  returns a result. Then the response shows a queued run, which is the one job for the queue. When the worker takes
  the job, it ends without an exception, however the flusher of the log is scheduled, and what the user then reads
  is the engine's report: its status, its trimmed result, the number of its errors, every log event once, in
  order and numbered from zero, every error with its fields, and both times. To execute the job again changes
  nothing. What other users see stays the same, and the database is well-typed.
\<close>

theorem run_lifecycle:
  assumes "wf_db db" and "u \<in> fst ` set (db_users db)" and "unused db k" and "external_queue env" and "ca_new_id ca = k"
    and "get_owned_pipeline db pk u = Inr p" and "prepare_run wenv u (pl_spec p) db = Inr (spec, secrets, options)"
    and "execute_pipeline (we_registry wenv) (ex_schedule ex) spec secrets options = Some (Inr rr)"
  shows "\<exists>queued db1 db2 run logs errors.
    trigger_run env ca u pk params db = (Inr (RespRun queued), Some k, db1) \<and> rr_state queued = ''queued'' \<and>
    execute_run wenv ex k db1 = Some (Inr (), db2) \<and>
    get_run u k db2 = Inr (RespRunDetail run logs errors, db2) \<and>
    rr_state run = run_status_value (rr_status rr) \<and> rr_result run = Some (trimmed_result rr) \<and>
    rr_error_count run = length (rr_errors rr) \<and> rr_params run = params \<and>
    rr_started_at run = Some (ex_claimed_at ex) \<and> rr_finished_at run = Some (ex_finished_at ex) \<and>
    map log_content logs = map event_content (enumerate 0 (rr_logs rr)) \<and> list_all2 error_content errors (rr_errors rr) \<and>
    execute_run wenv ex' k db2 = Some (Inr (), db2) \<and> wf_db db2 \<and>
    (\<forall>v. v \<noteq> u \<longrightarrow> (view v db2)\<lparr>db_next_log := db_next_log db, db_next_error := db_next_error db\<rparr> = view v db)"
proof -
  let ?r = "manual_run (ca_now ca) pk u params"
  define db1 where "db1 = db\<lparr>db_runs := db_runs db @ [(k, ?r)]\<rparr>"
  define db2 where "db2 = after_run ex rr k db1"
  have fresh: "k \<notin> fst ` set (db_runs db)" using assms(3) by (simp add: unused_def)
  have trigger: "trigger_run env ca u pk params db = (Inr (RespRun (read_run (k, ?r))), Some k, db1)"
    using triggered_run [of db u ca env pk p params] assms(1-6) by (simp add: db1_def)
  have iso: "wf_db db1" "\<And>v. v \<noteq> u \<Longrightarrow> view v db1 = view v db"
    using isolated_trigger_run [OF assms(1,2) _ assms(4), of ca pk params] assms(3,5) by (simp_all add: isolated_def trigger)
  have row: "dict_get (db_runs db1) k = Some ?r" "rn_owner_id ?r = u" "rn_status ?r = ''queued''"
    using fresh by (simp_all add: db1_def manual_run_def)
  have p: "dict_get (db_pipelines db) pk = Some p" using assms(6) by (simp add: get_owned_Inr)
  have "load_run k db1 = Claim u (pl_spec p)"
    using row p by (simp add: load_run_def) (simp add: db1_def manual_run_def)
  then have exec: "execute_run wenv ex k db1 = Some (Inr (), db2)"
    unfolding db2_def by (rule execute_run_finishes [OF _ _ assms(8)]) (simp add: db1_def assms(7))
  have row2: "dict_get (db_runs db2) k = Some (finished_run ex rr ?r)" by (simp add: db2_def after_run_def row)
  have refs: "\<forall>l \<in> set (db_logs db). lg_run_id l \<noteq> k" "\<forall>e \<in> set (db_errors db). er_run_id e \<noteq> k"
    using assms(1) fresh unfolding wf_db_def refs_ok_db_def list_all_iff by metis+
  have get: "get_run u k db2 = Inr (RespRunDetail (read_run (k, finished_run ex rr ?r))
      (map read_log (log_rows k (db_next_log db) 0 (rr_logs rr))) (map read_error (error_rows k (db_next_error db) (rr_errors rr))), db2)"
    using row2 row(2) refs
    by (simp add: get_run_def get_owned_run_def finished_run_def)
      (simp add: db2_def after_run_def db1_def rows_of_run filter_empty_conv)
  have "finished_run ex rr ?r = ?r\<lparr>rn_started_at := Some (ex_claimed_at ex), rn_error_count := length (rr_errors rr),
      rn_result := Some (trimmed_result rr), rn_status := run_status_value (rr_status rr), rn_finished_at := Some (ex_finished_at ex)\<rparr>"
    by (cases "rr_status rr") (simp_all add: finished_run_def)
  moreover have "execute_run wenv ex' k db2 = Some (Inr (), db2)"
    using row2 by (simp add: execute_run_def load_run_def finished_run_def)
  moreover have "wf_db db2" by (rule wf_execute_run [OF iso(1) exec])
  moreover have "(view v db2)\<lparr>db_next_log := db_next_log db, db_next_error := db_next_error db\<rparr> = view v db" if "v \<noteq> u" for v
    using view_after_run [OF iso(1) row(1), of v ex rr] that row(2) iso(2) by (simp add: db2_def db1_def)
  ultimately show ?thesis
    using trigger exec get row(3) read_log_rows read_error_rows
    by (intro exI conjI) (assumption | simp add: read_run_def manual_run_def)+
qed


definition mystery_spec :: pipeline_spec where
  "mystery_spec = \<lparr>ps_id = ''p'', ps_nodes = [\<lparr>ns_id = ''n'', ns_type = ''mystery'', ns_config = []\<rparr>], ps_edges = []\<rparr>"

definition demo_worker :: "unit worker_env" where
  "demo_worker = \<lparr>we_registry = [], we_settings = default_settings (\<lambda>b. []), we_crypto = demo_crypto, we_parse = (\<lambda>j. Inr mystery_spec)\<rparr>"

definition demo_execution :: "nat list \<Rightarrow> execution" where
  "demo_execution wakes = \<lparr>ex_claimed_at = 6, ex_finished_at = 7, ex_schedule = (\<lambda>i. []), ex_wakes = wakes, ex_emitted = []\<rparr>"

text \<open>A pipeline with an unknown node type: the run ends as failed, with the one error of the validation.\<close>

theorem run_lifecycle_witness:
  "\<exists>db1 db2 run logs errors. trigger_run demo_api \<lparr>ca_new_id = 30, ca_now = 5, ca_random = []\<rparr> 1 10 None demo_tenants = 
       (Inr (RespRun (read_run (30, manual_run 5 10 1 None))), Some 30, db1) \<and>
     execute_run demo_worker (demo_execution [0, 2]) 30 db1 = Some (Inr (), db2) \<and>
     get_run 1 30 db2 = Inr (RespRunDetail run logs errors, db2) \<and> rr_state run = ''failed'' \<and> rr_error_count run = 1 \<and>
     length errors = 1 \<and> rr_finished_at run = Some 7"
proof -
  have wf: "wf_db demo_tenants"
    by (simp add: wf_db_defs demo_tenants_def empty_db_def wf_dict_def)
  have users: "1 \<in> fst ` set (db_users demo_tenants)" "unused demo_tenants 30" "external_queue demo_api"
    by (simp_all add: demo_tenants_def empty_db_def unused_def external_queue_def demo_api_def)
  obtain p where p: "get_owned_pipeline demo_tenants 10 1 = Inr p"
    by (simp add: get_owned_pipeline_def demo_tenants_def empty_db_def)
  have "collect_secret_refs mystery_spec = []" by code_simp
  then obtain options where prep: "prepare_run demo_worker 1 (pl_spec p) demo_tenants = Inr (mystery_spec, [], options)"
    by (simp add: prepare_run_def demo_worker_def raising_def secrets_cipher_def default_settings_def make_cipher_def fernet_init_def
        demo_crypto_def run_options_def resolve_secrets_def)
  have "length (validate_pipeline (we_registry demo_worker) mystery_spec) = 1" by code_simp
  then have valid: "validate_pipeline (we_registry demo_worker) mystery_spec \<noteq> []" "length (validate_pipeline (we_registry demo_worker) mystery_spec) = 1"
    by auto
  let ?rr = "invalid_result mystery_spec (validate_pipeline (we_registry demo_worker) mystery_spec)"
  have rr: "execute_pipeline (we_registry demo_worker) (ex_schedule (demo_execution [0, 2])) mystery_spec [] options = Some (Inr ?rr)"
    "rr_status ?rr = RunFailed" "length (rr_errors ?rr) = 1"
    using valid by (simp_all add: execute_pipeline_def invalid_result_def Let_def)
  define ca where "ca = \<lparr>ca_new_id = 30, ca_now = 5, ca_random = []\<rparr>"
  have "ca_new_id ca = 30" by (simp add: ca_def)
  from run_lifecycle [OF wf users this p prep rr(1), of None undefined] rr(2,3)
    triggered_run [OF wf users(1) _ users(3) p, of ca None]
  show ?thesis by (auto simp: ca_def users demo_execution_def dest!: list_all2_lengthD)
qed

end
