(* ===== verification/Auth.thy ===== *)
theory Auth
  imports Settings Secret_Store
begin

text \<open>
  Authentication: \<open>etl_server/security.py\<close>, the routes of \<open>routers/auth.py\<close> and the dependency \<open>get_current_user\<close>
  of \<open>deps.py\<close>. The bcrypt and PyJWT libraries, the digest and the text form of an identifier are parameters; what
  they document is \<open>auth_laws\<close>. Times are whole seconds.
\<close>

record auth_lib =
  au_sha256 :: "bytes \<Rightarrow> bytes"
  au_hashpw :: "bytes \<Rightarrow> bytes \<Rightarrow> string"
  au_checkpw :: "bytes \<Rightarrow> string \<Rightarrow> bool option"
  au_jwt_encode :: "json dict \<Rightarrow> string \<Rightarrow> string \<Rightarrow> string"
  au_jwt_decode :: "timestamp \<Rightarrow> string \<Rightarrow> string \<Rightarrow> string list \<Rightarrow> string + json dict"
  au_uuid_str :: "uuid \<Rightarrow> string"
  au_uuid :: "string \<Rightarrow> uuid option"

section \<open>Passwords and tokens\<close>

definition prehash :: "auth_lib \<Rightarrow> string \<Rightarrow> bytes" where
  "prehash lib password = map of_char (b64encode (au_sha256 lib (utf8 password)))"

definition hash_password :: "auth_lib \<Rightarrow> bytes \<Rightarrow> string \<Rightarrow> string" where
  "hash_password lib salt password = au_hashpw lib (prehash lib password) salt"

definition is_ascii :: "string \<Rightarrow> bool" where
  "is_ascii s = list_all (\<lambda>c. (of_char c :: nat) < 128) s"

definition verify_password :: "auth_lib \<Rightarrow> string \<Rightarrow> string \<Rightarrow> bool" where
  "verify_password lib password hashed =
     (if is_ascii hashed then (case au_checkpw lib (prehash lib password) hashed of Some b \<Rightarrow> b | None \<Rightarrow> False) else False)"

definition create_access_token :: "auth_lib \<Rightarrow> timestamp \<Rightarrow> string \<Rightarrow> string \<Rightarrow> string \<Rightarrow> int \<Rightarrow> string" where
  "create_access_token lib now subject secret algorithm ttl_minutes =
     au_jwt_encode lib [(''sub'', JStr subject), (''iat'', JInt now), (''exp'', JInt (now + 60 * ttl_minutes))] secret algorithm"

definition decode_token :: "auth_lib \<Rightarrow> timestamp \<Rightarrow> string \<Rightarrow> string \<Rightarrow> string list \<Rightarrow> string + json dict" where
  "decode_token lib now token secret algorithms =
     au_jwt_decode lib now token secret (if algorithms = [] then [''HS256''] else algorithms)"

section \<open>The current user\<close>

definition unauth :: server_exn where
  "unauth = HTTPException 401 ''not authenticated''"

definition subject_id :: "auth_lib \<Rightarrow> json dict \<Rightarrow> uuid option" where
  "subject_id lib payload =
     (case dict_get payload ''sub'' of
        None \<Rightarrow> None
      | Some subject \<Rightarrow> if truthy subject then au_uuid lib (py_str subject) else None)"

definition get_current_user :: "auth_lib \<Rightarrow> settings \<Rightarrow> timestamp \<Rightarrow> string option \<Rightarrow> database \<Rightarrow> server_exn + (uuid \<times> user_row)" where
  "get_current_user lib s now token db =
     (case token of
        None \<Rightarrow> Inl unauth
      | Some t \<Rightarrow>
          if t = [] then Inl unauth
          else (case decode_token lib now t (sg_jwt_secret s) [sg_jwt_algorithm s] of
              Inl _ \<Rightarrow> Inl unauth
            | Inr payload \<Rightarrow>
                (case subject_id lib payload of
                   None \<Rightarrow> Inl unauth
                 | Some user_id \<Rightarrow>
                     (case dict_get (db_users db) user_id of
                        None \<Rightarrow> Inl unauth
                      | Some user \<Rightarrow> if us_is_active user then Inr (user_id, user) else Inl unauth))))"

section \<open>Routes\<close>

record user_read =
  ur_id :: uuid
  ur_email :: string
  ur_is_active :: bool
  ur_created_at :: timestamp

definition read_user :: "uuid \<times> user_row \<Rightarrow> user_read" where
  "read_user = (\<lambda>(k, u). \<lparr>ur_id = k, ur_email = us_email u, ur_is_active = us_is_active u, ur_created_at = us_created_at u\<rparr>)"

definition user_by_email :: "string \<Rightarrow> database \<Rightarrow> server_exn + (uuid \<times> user_row) option" where
  "user_by_email email db =
     (case one_or_none (filter (\<lambda>p. us_email (snd p) = email) (db_users db)) of
        Inl e \<Rightarrow> Inl (Uncaught ''MultipleResultsFound'')
      | Inr row \<Rightarrow> Inr row)"

definition register :: "auth_lib \<Rightarrow> bytes \<Rightarrow> uuid \<Rightarrow> timestamp \<Rightarrow> string \<Rightarrow> string \<Rightarrow> database \<Rightarrow> server_exn + (user_read \<times> database)" where
  "register lib salt new_id now email password db =
     sbind (user_by_email email db) (\<lambda>existing.
       case existing of
         Some _ \<Rightarrow> Inl (HTTPException 409 ''email already registered'')
       | None \<Rightarrow>
           (let user = \<lparr>us_email = email, us_hashed_password = hash_password lib salt password, us_is_active = True, us_created_at = now\<rparr>
            in sbind (insert_user new_id user db) (\<lambda>db. Inr (read_user (new_id, user), db))))"

definition login :: "auth_lib \<Rightarrow> settings \<Rightarrow> timestamp \<Rightarrow> string \<Rightarrow> string \<Rightarrow> database \<Rightarrow> server_exn + string" where
  "login lib s now username password db =
     sbind (user_by_email username db) (\<lambda>row.
       case row of
         None \<Rightarrow> Inl (HTTPException 401 ''incorrect email or password'')
       | Some (k, user) \<Rightarrow>
           if \<not> verify_password lib password (us_hashed_password user) then Inl (HTTPException 401 ''incorrect email or password'')
           else Inr (create_access_token lib now (au_uuid_str lib k) (sg_jwt_secret s) (sg_jwt_algorithm s)
                  (sg_access_token_ttl_minutes s)))"

definition me :: "uuid \<times> user_row \<Rightarrow> user_read" where
  "me = read_user"

section \<open>Authentication works\<close>

definition auth_laws :: "auth_lib \<Rightarrow> bool" where
  "auth_laws lib \<longleftrightarrow>
     (\<forall>p salt. is_ascii (au_hashpw lib p salt) \<and> au_checkpw lib p (au_hashpw lib p salt) = Some True) \<and>
     (\<forall>payload secret alg now iat exp. dict_get payload ''iat'' = Some (JInt iat) \<longrightarrow> dict_get payload ''exp'' = Some (JInt exp) \<longrightarrow>
        iat \<le> now \<longrightarrow> now < exp \<longrightarrow> au_jwt_encode lib payload secret alg \<noteq> [] \<and>
        au_jwt_decode lib now (au_jwt_encode lib payload secret alg) secret [alg] = Inr payload) \<and>
     (\<forall>k. au_uuid_str lib k \<noteq> [] \<and> au_uuid lib (au_uuid_str lib k) = Some k)"

lemma register_Inr:
  "register lib salt k now email pw db = Inr (r, db') \<longleftrightarrow>
     user_by_email email db = Inr None \<and>
     (let u = \<lparr>us_email = email, us_hashed_password = hash_password lib salt pw, us_is_active = True, us_created_at = now\<rparr>
      in insert_user k u db = Inr db' \<and> r = read_user (k, u))"
proof (cases "user_by_email email db")
  case (Inr row)
  then show ?thesis by (cases row) (auto simp: register_def sbind_eq_Inr Let_def)
qed (simp add: register_def)

lemma wf_register: "wf_db db \<Longrightarrow> register lib salt k now email pw db = Inr (r, db') \<Longrightarrow> wf_db db'"
  by (auto simp: register_Inr Let_def dest: wf_insert_user)

lemma user_by_email_registered:
  assumes "user_by_email email db = Inr None" and "insert_user k u db = Inr db'" and "us_email u = email"
  shows "user_by_email email db' = Inr (Some (k, u))"
proof -
  have "filter (\<lambda>p. us_email (snd p) = email) (db_users db) = []"
    using assms(1) by (auto simp: user_by_email_def one_or_none_def split: list.splits)
  with assms(2,3) show ?thesis
    by (auto simp: user_by_email_def one_or_none_def insert_user_def sbind_eq_Inr)
qed

text \<open>A user who registers can log in with the password, and the token stands for that user until it expires.\<close>

lemma login_authenticates:
  assumes "auth_laws lib" and "register lib salt k t0 email pw db = Inr (r, db')"
    and "t1 \<le> t2" and "t2 < t1 + 60 * sg_access_token_ttl_minutes s"
  shows "\<exists>token u. login lib s t1 email pw db' = Inr token \<and> get_current_user lib s t2 (Some token) db' = Inr (k, u) \<and>
    us_email u = email \<and> r = me (k, u)"
proof -
  define u where "u = \<lparr>us_email = email, us_hashed_password = hash_password lib salt pw, us_is_active = True, us_created_at = t0\<rparr>"
  from assms(2) have by_email: "user_by_email email db = Inr None" and ins: "insert_user k u db = Inr db'" and r: "r = read_user (k, u)"
    by (simp_all add: register_Inr Let_def u_def)
  note user = user_by_email_registered [OF by_email ins, unfolded u_def, simplified, folded u_def]
  have "k \<notin> fst ` set (db_users db)" "db' = db\<lparr>db_users := db_users db @ [(k, u)]\<rparr>"
    using ins unfolding insert_user_def sbind_eq_Inr insert_row_Inr by blast+
  then have "dict_get (db_users db') k = Some u" by (auto simp: map_add_def dest: dict_get_SomeD split: option.split)
  moreover have "verify_password lib pw (us_hashed_password u)"
    using assms(1) by (simp add: auth_laws_def verify_password_def hash_password_def u_def)
  moreover define token where "token = create_access_token lib t1 (au_uuid_str lib k) (sg_jwt_secret s) (sg_jwt_algorithm s) (sg_access_token_ttl_minutes s)"
  moreover have "token \<noteq> []" and "decode_token lib t2 token (sg_jwt_secret s) [sg_jwt_algorithm s] =
      Inr [(''sub'', JStr (au_uuid_str lib k)), (''iat'', JInt t1), (''exp'', JInt (t1 + 60 * sg_access_token_ttl_minutes s))]"
    using assms(1,3,4) unfolding token_def decode_token_def create_access_token_def auth_laws_def by simp_all
  moreover have "au_uuid_str lib k \<noteq> []" "au_uuid lib (au_uuid_str lib k) = Some k" using assms(1) by (simp_all add: auth_laws_def)
  ultimately show ?thesis
    using user r by (simp add: login_def get_current_user_def subject_id_def py_str_def me_def) (simp add: u_def)
qed

end
