(* ===== verification/Server_Machine.thy ===== *)
theory Server_Machine
  imports Run_Lifecycle Auth
begin

text \<open>
  The server as a machine: API processes, the scheduler and any number of workers on one database and one queue,
  interleaved at their commits. A request, a registration and a tick of the scheduler are one step each; a worker
  makes one step per session, and between reading a run and marking it others may move.
\<close>

section \<open>Workers\<close>

text \<open>Where an execution of \<open>execute_run\<close> stands.\<close>

datatype proc =
    Fetched uuid
  | Loaded uuid uuid json
  | Marked uuid uuid json
  | Missing uuid string
  | Flushing uuid nat "log_event list" "exn + run_result"
  | Ended

definition emitted_ok :: "exn + run_result \<Rightarrow> log_event list \<Rightarrow> bool" where
  "emitted_ok res events = (case res of Inl _ \<Rightarrow> True | Inr rr \<Rightarrow> events = rr_logs rr)"

text \<open>A session that fails ends the execution with the exception; its changes are rolled back.\<close>

definition session_end :: "database \<Rightarrow> server_exn + database \<Rightarrow> database" where
  "session_end db r = (case r of Inl _ \<Rightarrow> db | Inr db' \<Rightarrow> db')"

inductive worker_step :: "'c worker_env \<Rightarrow> proc \<times> database \<Rightarrow> proc \<times> database \<Rightarrow> bool" for env where
  skip: "load_run k db = Skip \<Longrightarrow> worker_step env (Fetched k, db) (Ended, db)"
| orphan: "load_run k db = Orphan \<Longrightarrow> worker_step env (Fetched k, db) (Ended, session_end db (mark_orphan k now db))"
| load: "load_run k db = Claim owner j \<Longrightarrow> worker_step env (Fetched k, db) (Loaded k owner j, db)"
| mark: "mark_running k now db = Inr db' \<Longrightarrow> worker_step env (Loaded k owner j, db) (Marked k owner j, db')"
| vanished: "mark_running k now db = Inl e \<Longrightarrow> worker_step env (Loaded k owner j, db) (Ended, db)"
| missing: "prepare_run env owner j db = Inl (SecretNotFoundError ref) \<Longrightarrow> worker_step env (Marked k owner j, db) (Missing k ref, db)"
| unprepared: "prepare_run env owner j db = Inl e \<Longrightarrow> \<forall>ref. e \<noteq> SecretNotFoundError ref \<Longrightarrow>
    worker_step env (Marked k owner j, db) (Ended, db)"
| start: "prepare_run env owner j db = Inr (spec, secrets, options) \<Longrightarrow>
    execute_pipeline (we_registry env) sched spec secrets options = Some res \<Longrightarrow> emitted_ok res events \<Longrightarrow>
    worker_step env (Marked k owner j, db) (Flushing k 0 events res, db)"
| fail: "worker_step env (Missing k ref, db) (Ended, session_end db (fail_run k (missing_secret_error ref) True now db))"
| flush: "flush_events k n (take m events) db = Inr db' \<Longrightarrow>
    worker_step env (Flushing k n events res, db) (Flushing k (n + length (take m events)) (drop m events) res, db')"
| unflushed: "flush_events k n (take m events) db = Inl e \<Longrightarrow> worker_step env (Flushing k n events res, db) (Ended, db)"
| finish: "worker_step env (Flushing k n [] (Inr rr), db) (Ended, session_end db (finish_run k rr now db))"
| raised: "worker_step env (Flushing k n [] (Inl e), db) (Ended, db)"

inductive_cases worker_stepE: "worker_step env (p, db) (p', db')"

text \<open>An execution that nobody disturbs is a sequence of these steps.\<close>

lemma flusher_steps:
  "\<exists>n'. (worker_step env)\<^sup>*\<^sup>* (Flushing k n es res, db)
     (case flusher k wakes n es db of (Inl e, db') \<Rightarrow> (Ended, db') | (Inr _, db') \<Rightarrow> (Flushing k n' [] res, db'))"
proof (induction wakes arbitrary: n es db)
  case Nil
  show ?case
  proof (cases "flush_events k n es db")
    case (Inl e)
    then have "worker_step env (Flushing k n es res, db) (Ended, db)" by (intro unflushed [where m = "length es"]) simp
    with Inl show ?thesis by simp
  next
    case (Inr db')
    then have "worker_step env (Flushing k n es res, db) (Flushing k (n + length es) [] res, db')"
      using flush [where m = "length es" and events = es] by simp
    with Inr show ?thesis by (intro exI [of _ "n + length es"]) simp
  qed
next
  case (Cons w wakes)
  show ?case
  proof (cases "flush_events k n (take w es) db")
    case (Inl e)
    then show ?thesis by (simp add: r_into_rtranclp unflushed)
  next
    case (Inr db')
    note step = flush [OF Inr, of env res]
    obtain n' where "(worker_step env)\<^sup>*\<^sup>* (Flushing k (n + length (take w es)) (drop w es) res, db')
        (case flusher k wakes (n + length (take w es)) (drop w es) db' of
           (Inl e, db') \<Rightarrow> (Ended, db') | (Inr _, db') \<Rightarrow> (Flushing k n' [] res, db'))"
      using Cons.IH by blast
    from converse_rtranclp_into_rtranclp [of "worker_step env", OF step this] Inr show ?thesis
      by (intro exI [of _ n']) simp
  qed
qed

lemma run_engine_steps:
  assumes "run_engine env ex k spec secrets options db = Some (res, db')"
    and "prepare_run env owner j db = Inr (spec, secrets, options)"
  shows "(worker_step env)\<^sup>*\<^sup>* (Marked k owner j, db) (Ended, db')"
proof -
  obtain out where out: "execute_pipeline (we_registry env) (ex_schedule ex) spec secrets options = Some out"
    using assms(1) by (auto simp: run_engine_def split: option.splits)
  define events where "events = (case out of Inl _ \<Rightarrow> ex_emitted ex | Inr rr \<Rightarrow> rr_logs rr)"
  have "emitted_ok out events" by (auto simp: emitted_ok_def events_def split: sum.splits)
  then have go: "worker_step env (Marked k owner j, db) (Flushing k 0 events out, db)"
    by (rule start [OF assms(2) out])
  have ended: "worker_step env (Flushing k n [] (Inr rr), db1) (Ended, db1)" if "finish_run k rr (ex_finished_at ex) db1 = Inl e" for n rr db1 e
    using finish [of env k n rr db1 "ex_finished_at ex"] that by (simp add: session_end_def)
  have ended': "worker_step env (Flushing k n [] (Inr rr), db1) (Ended, db2)" if "finish_run k rr (ex_finished_at ex) db1 = Inr db2" for n rr db1 db2
    using finish [of env k n rr db1 "ex_finished_at ex"] that by (simp add: session_end_def)
  obtain n' where fl: "(worker_step env)\<^sup>*\<^sup>* (Flushing k 0 events out, db)
     (case flusher k (ex_wakes ex) 0 events db of (Inl e, db') \<Rightarrow> (Ended, db') | (Inr _, db') \<Rightarrow> (Flushing k n' [] out, db'))"
    using flusher_steps by blast
  have "(worker_step env)\<^sup>*\<^sup>*
     (case flusher k (ex_wakes ex) 0 events db of (Inl e, db') \<Rightarrow> (Ended, db') | (Inr _, db') \<Rightarrow> (Flushing k n' [] out, db')) (Ended, db')"
    using assms(1) out
    by (cases out)
      (auto simp: run_engine_def events_def committed_def split: prod.splits sum.splits intro: r_into_rtranclp raised ended ended')
  with go fl show ?thesis by (meson converse_rtranclp_into_rtranclp rtranclp_trans)
qed

lemma execute_run_steps:
  assumes "execute_run env ex k db = Some (res, db')"
  shows "(worker_step env)\<^sup>*\<^sup>* (Fetched k, db) (Ended, db')"
proof (cases "load_run k db")
  case Skip
  then show ?thesis using assms worker_step.skip [OF Skip, of env] by (auto simp: execute_run_def)
next
  case Orphan
  then show ?thesis using assms orphan [OF Orphan, of env "ex_claimed_at ex"]
    by (auto simp: execute_run_def committed_def session_end_def split: sum.splits)
next
  case (Claim owner j)
  note loaded = load [OF Claim, of env]
  show ?thesis
  proof (cases "mark_running k (ex_claimed_at ex) db")
    case (Inl e)
    then show ?thesis using assms Claim loaded vanished [OF Inl, of env owner j] by (auto simp: execute_run_def)
  next
    case (Inr db1)
    have claimed: "run_claimed env ex k owner j db1 = Some (res, db')" using assms Claim Inr by (simp add: execute_run_def)
    have "(worker_step env)\<^sup>*\<^sup>* (Marked k owner j, db1) (Ended, db')"
    proof (cases "prepare_run env owner j db1")
      case (Inr x)
      then show ?thesis using claimed by (cases x) (auto simp: run_claimed_def intro: run_engine_steps)
    next
      case prep: (Inl e)
      show ?thesis
      proof (cases "\<exists>ref. e = SecretNotFoundError ref")
        case True
        then obtain ref where e: "e = SecretNotFoundError ref" ..
        have "worker_step env (Marked k owner j, db1) (Missing k ref, db1)" using prep e by (intro missing) simp
        moreover have "worker_step env (Missing k ref, db1) (Ended, db')"
          using claimed prep e fail [of env k ref db1 "ex_finished_at ex"]
          by (auto simp: run_claimed_def committed_def session_end_def split: sum.splits)
        ultimately show ?thesis by (meson converse_rtranclp_into_rtranclp r_into_rtranclp)
      next
        case False
        then have "worker_step env (Marked k owner j, db1) (Ended, db1)" using prep by (intro unprepared) auto
        moreover have "db' = db1" using claimed prep False by (auto simp: run_claimed_def split: exn.splits)
        ultimately show ?thesis by simp
      qed
    qed
    with loaded mark [OF Inr, of env owner j] show ?thesis by (meson converse_rtranclp_into_rtranclp)
  qed
qed

section \<open>The server\<close>

record 'c deployment =
  dp_api :: api_env
  dp_worker :: "'c worker_env"
  dp_auth :: auth_lib

record server =
  sv_db :: database
  sv_queue :: arq_pool
  sv_procs :: "proc list"

definition initial :: server where
  "initial = \<lparr>sv_db = empty_db, sv_queue = [], sv_procs = []\<rparr>"

definition enqueued :: "uuid option \<Rightarrow> arq_pool \<Rightarrow> arq_pool" where
  "enqueued job q = (case job of None \<Rightarrow> q | Some k \<Rightarrow> arq_enqueue k q)"

inductive server_step :: "'c deployment \<Rightarrow> server \<Rightarrow> server \<Rightarrow> bool" for d where
  request: "get_current_user (dp_auth d) (we_settings (dp_worker d)) now token (sv_db s) = Inr (u, row) \<Longrightarrow>
    unused (sv_db s) (ca_new_id ca) \<Longrightarrow> handle (dp_api d) ca u req (sv_db s) = (res, job, db') \<Longrightarrow>
    server_step d s (s\<lparr>sv_db := db', sv_queue := enqueued job (sv_queue s)\<rparr>)"
| registration: "register (dp_auth d) salt k now email pw (sv_db s) = Inr (r, db') \<Longrightarrow> server_step d s (s\<lparr>sv_db := db'\<rparr>)"
| tick: "inj fresh \<Longrightarrow> \<forall>i. fresh i \<notin> fst ` set (db_runs (sv_db s)) \<Longrightarrow>
    enqueue_due_schedules (ae_cron (dp_api d)) now fresh arq_enqueue (sv_queue s) (sv_db s) = Inr (ids, q', db') \<Longrightarrow>
    server_step d s (s\<lparr>sv_db := db', sv_queue := q'\<rparr>)"
| fetch: "sv_queue s = (task, k) # q \<Longrightarrow> server_step d s (s\<lparr>sv_queue := q, sv_procs := sv_procs s @ [Fetched k]\<rparr>)"
| work: "i < length (sv_procs s) \<Longrightarrow> worker_step (dp_worker d) (sv_procs s ! i, sv_db s) (p', db') \<Longrightarrow>
    server_step d s (s\<lparr>sv_db := db', sv_procs := (sv_procs s)[i := p']\<rparr>)"

inductive reachable :: "'c deployment \<Rightarrow> server \<Rightarrow> bool" for d where
  start: "reachable d initial"
| step: "reachable d s \<Longrightarrow> server_step d s s' \<Longrightarrow> reachable d s'"

section \<open>Every reachable database is well-typed\<close>

lemma current_user_known:
  "get_current_user lib s now token db = Inr (u, row) \<Longrightarrow> u \<in> fst ` set (db_users db)"
  by (auto simp: get_current_user_def split: option.splits sum.splits if_splits dest: dict_get_SomeD)

lemma tick_eq:
  assumes "wf_db db" and "inj fresh" and "\<forall>i. fresh i \<notin> fst ` set (db_runs db)"
    and "enqueue_due_schedules lib now fresh arq_enqueue q db = Inr (ids, q', db')"
  shows "wf_db db'" and "db_logs db' = db_logs db" and "db_next_log db' = db_next_log db" and "set (db_runs db) \<subseteq> set (db_runs db')"
proof -
  let ?due = "filter (\<lambda>p. is_due now (snd p)) (db_schedules db)"
  have "distinct (map fst ?due)" "\<forall>(k, s) \<in> set ?due. dict_get (db_schedules db) k = Some s"
    using wf_tables(4) [OF assms(1)] by (auto simp: wf_dict_def distinct_map_filter)
  note tick = tick_loop_spec [OF assms(1) this assms(2), of 0 lib now]
  show "wf_db db'" "db_logs db' = db_logs db" "db_next_log db' = db_next_log db" "set (db_runs db) \<subseteq> set (db_runs db')"
    using tick assms(3,4) by (auto simp: enqueue_due_schedules_def)
qed

lemma wf_worker_step:
  assumes "worker_step env (p, db) (p', db')" and "wf_db db"
  shows "wf_db db'"
  using assms by (cases rule: worker_stepE) (auto simp: session_end_def split: sum.splits dest: wf_sessions)

lemma wf_server_step:
  assumes "server_step d s s'" and "wf_db (sv_db s)" and "external_queue (dp_api d)"
  shows "wf_db (sv_db s')"
  using assms
proof cases
  case (request now token u row ca req res job db')
  then show ?thesis
    using handle_isolated [OF assms(2) current_user_known [OF request(2)] request(3) assms(3), of req] by (simp add: isolated_def)
qed (auto dest: wf_register tick_eq(1) wf_worker_step)

lemma reachable_wf: "reachable d s \<Longrightarrow> external_queue (dp_api d) \<Longrightarrow> wf_db (sv_db s)"
  by (induction rule: reachable.induct) (simp_all add: initial_def wf_empty_db wf_server_step)


text \<open>Undisturbed steps of one worker, and with them a whole execution of a run, are steps of the server.\<close>

lemma work_steps:
  assumes "(worker_step (dp_worker d))\<^sup>*\<^sup>* (sv_procs s ! i, sv_db s) (p', db')" and "reachable d s" and "i < length (sv_procs s)"
  shows "reachable d (s\<lparr>sv_db := db', sv_procs := (sv_procs s)[i := p']\<rparr>)"
  using assms(1)
proof (induction rule: rtranclp_induct2)
  case refl
  then show ?case using assms(2) by simp
next
  case (step p db p' db')
  let ?s = "s\<lparr>sv_db := db, sv_procs := (sv_procs s)[i := p]\<rparr>"
  have "server_step d ?s (?s\<lparr>sv_db := db', sv_procs := (sv_procs ?s)[i := p']\<rparr>)"
    using step.hyps(2) assms(3) by (intro work) simp_all
  with step.IH show ?case using reachable.step by fastforce
qed

lemma reachable_execution:
  assumes "reachable d s" and "sv_queue s = [(task, k)]" and "execute_run (dp_worker d) ex k (sv_db s) = Some (res, db')"
  shows "reachable d (s\<lparr>sv_queue := [], sv_db := db', sv_procs := sv_procs s @ [Ended]\<rparr>)"
proof -
  let ?s = "s\<lparr>sv_queue := [], sv_procs := sv_procs s @ [Fetched k]\<rparr>"
  have "reachable d ?s" by (rule reachable.step [OF assms(1) fetch [OF assms(2)]])
  from work_steps [OF _ this, of "length (sv_procs s)" Ended db'] execute_run_steps [OF assms(3)]
  show ?thesis by simp
qed

text \<open>
  C39. Whatever users, scheduler and workers do, in whatever interleaving of their commits, every reachable database
  is well-typed: identifiers, e-mail addresses and the names of a user's secrets are unique; every reference leads
  to a row, and a run or schedule belongs to the owner of its pipeline; the numbers of log and error rows increase;
  every run is in a declared state with a declared trigger, a queued run is untouched and a finished one has its time.
\<close>

theorem server_well_typed:
  assumes "reachable d s" and "external_queue (dp_api d)"
  shows "wf_db (sv_db s)"
  by (rule reachable_wf [OF assms])

definition demo_auth :: auth_lib where
  "demo_auth = \<lparr>au_sha256 = id, au_hashpw = (\<lambda>p salt. ''h''), au_checkpw = (\<lambda>p h. Some True), au_jwt_encode = (\<lambda>p s a. ''t''),
     au_jwt_decode = (\<lambda>now t s as. Inr [(''sub'', JStr ''1'')]), au_uuid_str = (\<lambda>k. ''1''), au_uuid = (\<lambda>t. Some 1)\<rparr>"

definition demo_deployment :: "unit deployment" where
  "demo_deployment = \<lparr>dp_api = demo_api, dp_worker = demo_worker, dp_auth = demo_auth\<rparr>"

text \<open>A user registers and creates a pipeline.\<close>

definition demo_server :: server where
  "demo_server = initial\<lparr>sv_db := empty_db\<lparr>
     db_users := [(1, \<lparr>us_email = ''a'', us_hashed_password = ''h'', us_is_active = True, us_created_at = 0\<rparr>)],
     db_pipelines := [(2, \<lparr>pl_owner_id = 1, pl_name = ''p'', pl_spec = JDict [], pl_created_at = 5, pl_updated_at = 5\<rparr>)]\<rparr>\<rparr>"

lemma demo_external: "external_queue (dp_api demo_deployment)"
  by (simp add: demo_deployment_def demo_api_def external_queue_def)

lemma demo_user:
  assumes "dict_get (db_users db) 1 = Some row" and "us_is_active row"
  shows "get_current_user (dp_auth demo_deployment) (we_settings (dp_worker demo_deployment)) 0 (Some ''t'') db = Inr (1, row)"
  using assms by (simp add: get_current_user_def decode_token_def subject_id_def demo_deployment_def demo_auth_def)

lemma demo_reachable: "reachable demo_deployment demo_server"
proof -
  obtain r db1 where reg: "register demo_auth [] 1 0 ''a'' ''pw'' empty_db = Inr (r, db1)"
    and db1: "db1 = empty_db\<lparr>db_users := [(1, \<lparr>us_email = ''a'', us_hashed_password = ''h'', us_is_active = True, us_created_at = 0\<rparr>)]\<rparr>"
    by (simp add: register_Inr user_by_email_def one_or_none_def empty_db_def insert_user_def insert_row_def demo_auth_def hash_password_def)
  define s1 where "s1 = initial\<lparr>sv_db := db1\<rparr>"
  have s1: "reachable demo_deployment s1"
    using reachable.step [OF reachable.start server_step.registration [of demo_deployment, where s = initial]] reg
    by (simp add: s1_def initial_def demo_deployment_def)
  let ?ca = "\<lparr>ca_new_id = 2, ca_now = 5, ca_random = []\<rparr>"
  have user: "get_current_user (dp_auth demo_deployment) (we_settings (dp_worker demo_deployment)) 0 (Some ''t'') (sv_db s1) =
      Inr (1, \<lparr>us_email = ''a'', us_hashed_password = ''h'', us_is_active = True, us_created_at = 0\<rparr>)"
    by (rule demo_user) (simp_all add: s1_def db1 initial_def)
  have fresh: "unused (sv_db s1) (ca_new_id ?ca)" by (simp add: s1_def db1 initial_def empty_db_def unused_def)
  obtain res where "handle (dp_api demo_deployment) ?ca 1 (CreatePipeline ''p'' (JDict [])) (sv_db s1) = (res, None, sv_db demo_server)"
    by (simp add: s1_def db1 initial_def empty_db_def demo_deployment_def demo_api_def demo_server_def session_def create_pipeline_def
        validate_spec_def insert_pipeline_def insert_row_def respond_def Let_def)
  from reachable.step [OF s1 request [OF user fresh this]] show ?thesis
    by (simp add: enqueued_def s1_def demo_server_def)
qed

theorem server_well_typed_witness: "length (db_pipelines (sv_db demo_server)) = 1 \<and> wf_db (sv_db demo_server)"
  using server_well_typed [OF demo_reachable demo_external] by (simp add: demo_server_def)

end
