(* ===== verification/Run_Stream.thy ===== *)
theory Run_Stream
  imports Server_Machine
begin

text \<open>
  The live stream of a run: \<open>stream_run_events\<close> of \<open>etl_server/routers/runs.py\<close>, which polls the database and sends
  server-sent events. One poll is one session; what the server does between two polls is its own steps.
\<close>

section \<open>The stream\<close>

definition SSE_MAX_POLLS :: nat where "SSE_MAX_POLLS = 4 * 60 * 15"

datatype sse_event =
    SseLog log_read | SseStatus string | SseDone string "error_read list" | SseTimeout string

record stream =
  ss_last_log_id :: nat
  ss_last_status :: "string option"
  ss_polls :: nat

definition stream_start :: stream where
  "stream_start = \<lparr>ss_last_log_id = 0, ss_last_status = None, ss_polls = 0\<rparr>"

datatype stream_end = Open | Closed | Raised exn

definition run_state_of :: "string \<Rightarrow> exn + run_phase" where
  "run_state_of s =
     (case filter (\<lambda>p. phase_value p = s) [RQueued, RRunning, RSucceeded, RFailed] of
        p # _ \<Rightarrow> Inr p
      | [] \<Rightarrow> Inl (ValueError (repr_str s @ '' is not a valid RunState'')))"

definition poll :: "uuid \<Rightarrow> stream \<Rightarrow> database \<Rightarrow> sse_event list \<times> stream_end \<times> stream" where
  "poll run_id st db =
     (case dict_get (db_runs db) run_id of
        None \<Rightarrow> ([], Closed, st)
      | Some run \<Rightarrow>
          let logs = filter (\<lambda>l. lg_run_id l = run_id \<and> ss_last_log_id st < lg_id l) (db_logs db);
              status = rn_status run
          in case run_state_of status of
               Inl e \<Rightarrow> ([], Raised e, st)
             | Inr phase \<Rightarrow>
                 let errors = map read_error (filter (\<lambda>e. er_run_id e = run_id) (db_errors db));
                     log_events = map (\<lambda>l. SseLog (read_log l)) logs;
                     status_events = (if Some status \<noteq> ss_last_status st then [SseStatus status] else []);
                     st = st\<lparr>ss_last_log_id := (if logs = [] then ss_last_log_id st else lg_id (last logs)),
                             ss_last_status := Some status\<rparr>
                 in if terminal phase then (log_events @ status_events @ [SseDone status errors], Closed, st)
                    else let st = st\<lparr>ss_polls := ss_polls st + 1\<rparr>
                         in if SSE_MAX_POLLS \<le> ss_polls st
                            then (log_events @ status_events @ [SseTimeout status], Closed, st)
                            else (log_events @ status_events, Open, st))"

text \<open>Each round first asks whether the client is still there.\<close>

fun event_stream :: "uuid \<Rightarrow> stream \<Rightarrow> (bool \<times> database) list \<Rightarrow> sse_event list \<times> stream_end" where
  "event_stream run_id st [] = ([], Open)"
| "event_stream run_id st ((disconnected, db) # rounds) =
     (if disconnected then ([], Closed)
      else (case poll run_id st db of
          (events, Open, st) \<Rightarrow> (case event_stream run_id st rounds of (later, e) \<Rightarrow> (events @ later, e))
        | (events, e, st) \<Rightarrow> (events, e)))"

definition stream_run_events :: "uuid \<Rightarrow> uuid \<Rightarrow> database \<Rightarrow> (bool \<times> database) list \<Rightarrow> server_exn + (sse_event list \<times> stream_end)" where
  "stream_run_events user run_id db rounds =
     sbind (get_owned_run db run_id user) (\<lambda>_. Inr (event_stream run_id stream_start rounds))"

section \<open>How the log of a run grows\<close>

definition run_logs :: "uuid \<Rightarrow> database \<Rightarrow> log_row list" where
  "run_logs k db = filter (\<lambda>l. lg_run_id l = k) (db_logs db)"

text \<open>
  A step of the server drops the log rows of runs it deletes and appends rows with new numbers; the rows of
  every run that stays are kept.
\<close>

definition log_step :: "database \<Rightarrow> database \<Rightarrow> bool" where
  "log_step db db' \<longleftrightarrow>
     (\<exists>P new. db_logs db' = filter P (db_logs db) @ new \<and> list_all (\<lambda>l. db_next_log db \<le> lg_id l) new \<and>
        db_next_log db \<le> db_next_log db' \<and>
        (\<forall>l \<in> set (db_logs db). lg_run_id l \<in> fst ` set (db_runs db') \<longrightarrow> P l))"

lemma log_step_same: "db_logs db' = db_logs db \<Longrightarrow> db_next_log db' = db_next_log db \<Longrightarrow> log_step db db'"
  unfolding log_step_def by (intro exI [of _ "\<lambda>_. True"] exI [of _ "[]"]) simp

lemma log_step_refl [simp]: "log_step db db"
  by (simp add: log_step_same)

lemma log_step_delete_pipeline:
  assumes "wf_db db"
  shows "log_step db (delete_pipeline_row k db)"
proof -
  have "lg_run_id l \<notin> set (runs_of_pipeline db k)" if "lg_run_id l \<in> fst ` set (db_runs (delete_pipeline_row k db))" for l
    using that wf_tables(3) [OF assms]
    by (auto simp: delete_pipeline_row_def runs_of_pipeline_def Let_def wf_dict_def dest: eq_key_imp_eq_value)
  then show ?thesis
    unfolding log_step_def
    by (intro exI [of _ "\<lambda>l. lg_run_id l \<notin> set (runs_of_pipeline db k)"] exI [of _ "[]"])
      (auto simp: delete_pipeline_row_def Let_def)
qed

lemma log_step_session:
  assumes "\<And>res db'. h db = Inr (res, db') \<Longrightarrow> log_step db db'" and "session h db = (r, job, db')"
  shows "log_step db db'"
  using assms by (auto simp: session_def split: sum.splits)

lemma respond_db: "respond f g h k db = Inr (res, db') \<Longrightarrow> db' = db"
  by (auto simp: respond_def split: option.splits)

lemma upsert_secret_logs:
  "upsert_secret lib c rnd k now u ref val db = Inr (k', db') \<Longrightarrow> db_logs db' = db_logs db \<and> db_next_log db' = db_next_log db"
  by (auto simp: upsert_secret_def Let_def insert_secret_def sbind_eq_Inr split: sum.splits option.splits prod.splits)

lemma handle_log_step:
  assumes "wf_db db" and "external_queue env" and "handle env ca u req db = (res, job, db')"
  shows "log_step db db'"
proof -
  note defs = create_pipeline_def list_pipelines_def get_pipeline_def update_pipeline_def delete_pipeline_def list_runs_def get_run_def
    create_schedule_def list_schedules_def get_schedule_def update_schedule_def delete_schedule_def set_secret_def list_secrets_def
    remove_secret_def delete_secret_def insert_pipeline_def insert_schedule_def
  show ?thesis
  proof (cases req)
    case (DeletePipeline k)
    with assms show ?thesis
      by (auto simp: defs sbind_eq_Inr elim!: log_step_session [rotated] intro: log_step_delete_pipeline)
  next
    case (TriggerRun pk params)
    with assms(2,3) show ?thesis
      by (auto simp: trigger_run_def insert_run_def external_queue_def sbind_eq_Inr Let_def intro!: log_step_same
          dest!: respond_db split: sum.splits)
  qed (use assms in \<open>auto simp: defs sbind_eq_Inr Let_def split: if_splits dest!: respond_db upsert_secret_logs
      elim!: log_step_session [rotated] intro!: log_step_same\<close>)
qed


lemma register_log_step: "register lib salt k now email pw db = Inr (r, db') \<Longrightarrow> log_step db db'"
  by (auto simp: register_Inr insert_user_def sbind_eq_Inr Let_def intro!: log_step_same)

lemma persist_errors_logs:
  "persist_errors k es db = Inr db' \<Longrightarrow> db_logs db' = db_logs db \<and> db_next_log db' = db_next_log db"
  by (induction es arbitrary: db) (auto simp: sbind_eq_Inr insert_error_def split: if_splits)

lemma save_run_logs:
  "save_run k f db = Inr db' \<Longrightarrow> db_logs db' = db_logs db \<and> db_next_log db' = db_next_log db"
  by (auto simp: save_run_def split: if_splits)

lemma mark_logs:
  "mark_running k now db = Inr db' \<Longrightarrow> db_logs db' = db_logs db \<and> db_next_log db' = db_next_log db"
  "mark_orphan k now db = Inr db' \<Longrightarrow> db_logs db' = db_logs db \<and> db_next_log db' = db_next_log db"
  by (simp_all add: mark_running_def mark_orphan_def save_run_logs)

lemma end_logs:
  "fail_run k err started now db = Inr db' \<Longrightarrow> db_logs db' = db_logs db \<and> db_next_log db' = db_next_log db"
  "finish_run k rr now db = Inr db' \<Longrightarrow> db_logs db' = db_logs db \<and> db_next_log db' = db_next_log db"
  by (auto simp: fail_run_def finish_run_def insert_error_def sbind_eq_Inr split: option.splits if_splits dest!: save_run_logs persist_errors_logs)

lemma log_rows_ids: "list_all (\<lambda>l. i \<le> lg_id l) (log_rows k i n es)"
proof (induction es arbitrary: i n)
  case (Cons e es)
  have "list_all (\<lambda>l. i \<le> lg_id l) (log_rows k (Suc i) (Suc n) es)"
    by (rule list.pred_mono_strong [OF Cons.IH]) simp
  then show ?case by simp
qed simp

lemma flush_log_step:
  assumes "flush_events k n es db = Inr db'"
  shows "log_step db db'"
proof (cases "k \<in> fst ` set (db_runs db)")
  case True
  then have db': "db' = db\<lparr>db_logs := db_logs db @ log_rows k (db_next_log db) n es, db_next_log := db_next_log db + length es\<rparr>"
    using assms by (simp add: flush_events_eq)
  show ?thesis
    unfolding log_step_def db'
    by (intro exI [of _ "\<lambda>_. True"] exI [of _ "log_rows k (db_next_log db) n es"]) (simp add: log_rows_ids)
next
  case False
  with assms show ?thesis by (cases es) (simp_all add: insert_log_def log_row_of_def)
qed

lemma worker_log_step: "worker_step env (p, db) (p', db') \<Longrightarrow> log_step db db'"
  by (cases rule: worker_stepE)
    (auto simp: session_end_def split: sum.splits dest: mark_logs end_logs flush_log_step intro: log_step_same)

lemma server_log_step:
  assumes "server_step d s s'" and "wf_db (sv_db s)" and "external_queue (dp_api d)"
  shows "log_step (sv_db s) (sv_db s')"
  using assms(1)
proof cases
  case (request now token u row ca req res job db')
  then show ?thesis using handle_log_step [OF assms(2,3)] by simp
next
  case (tick fresh now ids q' db')
  then show ?thesis using tick_eq(2,3) [OF assms(2)] by (auto intro!: log_step_same)
qed (auto dest: register_log_step worker_log_step)

text \<open>Numbers of log rows are positive, so that a stream that has seen nothing starts below them.\<close>

definition ids_positive :: "database \<Rightarrow> bool" where
  "ids_positive db \<longleftrightarrow> 0 < db_next_log db \<and> list_all (\<lambda>l. 0 < lg_id l) (db_logs db)"

lemma log_step_positive: "log_step db db' \<Longrightarrow> ids_positive db \<Longrightarrow> ids_positive db'"
  unfolding log_step_def ids_positive_def by (fastforce simp: list_all_iff)

lemma reachable_positive: "reachable d s \<Longrightarrow> external_queue (dp_api d) \<Longrightarrow> ids_positive (sv_db s)"
proof (induction rule: reachable.induct)
  case start
  then show ?case by (simp add: ids_positive_def initial_def empty_db_def)
next
  case (step s s')
  then show ?case using server_log_step [of d s s'] reachable_wf log_step_positive by blast
qed

text \<open>Steps during which a run is not deleted only extend its log, with rows of larger numbers.\<close>

definition run_kept :: "'c deployment \<Rightarrow> uuid \<Rightarrow> server \<Rightarrow> server \<Rightarrow> bool" where
  "run_kept d k s s' \<longleftrightarrow> server_step d s s' \<and> k \<in> fst ` set (db_runs (sv_db s'))"

definition log_extends :: "uuid \<Rightarrow> database \<Rightarrow> database \<Rightarrow> bool" where
  "log_extends k db db' \<longleftrightarrow> (\<exists>new. run_logs k db' = run_logs k db @ new)"

lemma log_step_extends:
  assumes "log_step db db'" and "k \<in> fst ` set (db_runs db')"
  shows "log_extends k db db'"
proof -
  obtain P new where "db_logs db' = filter P (db_logs db) @ new"
    and keep: "\<forall>l \<in> set (db_logs db). lg_run_id l \<in> fst ` set (db_runs db') \<longrightarrow> P l"
    using assms(1) unfolding log_step_def by blast
  moreover have "filter (\<lambda>l. lg_run_id l = k) (filter P (db_logs db)) = filter (\<lambda>l. lg_run_id l = k) (db_logs db)"
    using keep assms(2) unfolding filter_filter by (intro filter_cong) auto
  ultimately show ?thesis by (auto simp: log_extends_def run_logs_def)
qed

lemma kept_steps:
  assumes "(run_kept d k)\<^sup>*\<^sup>* s s'" and "reachable d s" and "external_queue (dp_api d)"
  shows "reachable d s' \<and> log_extends k (sv_db s) (sv_db s')"
  using assms(1)
proof (induction rule: rtranclp_induct)
  case base
  then show ?case using assms(2) by (simp add: log_extends_def)
next
  case (step s1 s2)
  then have "reachable d s2" by (auto simp: run_kept_def intro: reachable.step)
  moreover have "log_extends k (sv_db s1) (sv_db s2)"
    using step server_log_step [of d s1 s2] reachable_wf assms(3) by (auto simp: run_kept_def intro!: log_step_extends)
  ultimately show ?case using step.IH by (auto simp: log_extends_def)
qed


section \<open>What the client receives\<close>

fun sent_logs :: "sse_event list \<Rightarrow> log_read list" where
  "sent_logs [] = []"
| "sent_logs (SseLog l # es) = l # sent_logs es"
| "sent_logs (_ # es) = sent_logs es"

fun sent_states :: "sse_event list \<Rightarrow> string list" where
  "sent_states [] = []"
| "sent_states (SseStatus s # es) = s # sent_states es"
| "sent_states (_ # es) = sent_states es"

lemma sent_append [simp]:
  "sent_logs (xs @ ys) = sent_logs xs @ sent_logs ys" "sent_states (xs @ ys) = sent_states xs @ sent_states ys"
  by (induction xs rule: sent_logs.induct) simp_all

lemma sent_map_log [simp]:
  "sent_logs (map (\<lambda>l. SseLog (f l)) ls) = map f ls" "sent_states (map (\<lambda>l. SseLog (f l)) ls) = []"
  by (induction ls) simp_all

definition status_of :: "uuid \<Rightarrow> database \<Rightarrow> string" where
  "status_of k db = (case dict_get (db_runs db) k of Some r \<Rightarrow> rn_status r | None \<Rightarrow> [])"

definition run_finished :: "uuid \<Rightarrow> database \<Rightarrow> bool" where
  "run_finished k db \<longleftrightarrow> status_of k db \<in> {''succeeded'', ''failed''}"

definition last_id :: "log_row list \<Rightarrow> nat" where
  "last_id ls = (if ls = [] then 0 else lg_id (last ls))"

text \<open>A poll after the rows \<open>old\<close> were sent finds exactly the newer ones.\<close>

lemma newer_logs:
  assumes "wf_db db" and "ids_positive db" and "run_logs k db = old @ new"
  shows "filter (\<lambda>l. lg_run_id l = k \<and> last_id old < lg_id l) (db_logs db) = new"
proof -
  have "sorted_wrt (\<lambda>a b. lg_id a < lg_id b) (db_logs db)"
    using assms(1) by (simp add: wf_db_def keys_ok_def sorted_wrt_map)
  then have "sorted_wrt (\<lambda>a b. lg_id a < lg_id b) (run_logs k db)"
    unfolding run_logs_def by (rule sorted_wrt_filter)
  then have sorted: "sorted_wrt (\<lambda>a b. lg_id a < lg_id b) (old @ new)" by (simp add: assms(3))
  have pos: "0 < lg_id l" if "l \<in> set new" for l
  proof -
    have "l \<in> set (run_logs k db)" using that by (simp add: assms(3))
    with assms(2) show ?thesis by (simp add: ids_positive_def list_all_iff run_logs_def)
  qed
  have "filter (\<lambda>l. last_id old < lg_id l) new = new"
    using sorted pos by (auto simp: last_id_def sorted_wrt_append intro!: filter_True)
  moreover have "filter (\<lambda>l. last_id old < lg_id l) old = []"
  proof (cases old rule: rev_cases)
    case (snoc xs x)
    with sorted show ?thesis by (auto simp: last_id_def sorted_wrt_append filter_empty_conv)
  qed simp
  ultimately have "filter (\<lambda>l. last_id old < lg_id l) (run_logs k db) = new" by (simp add: assms(3))
  then show ?thesis by (simp add: run_logs_def conj_commute)
qed

lemma run_state_known:
  assumes "wf_db db" and "dict_get (db_runs db) k = Some r"
  obtains phase where "run_state_of (rn_status r) = Inr phase" "terminal phase \<longleftrightarrow> run_finished k db"
proof -
  have "run_ok r" using assms unfolding wf_db_def by (blast intro: list_all_get)
  then show thesis using that assms(2)
    by (auto simp: run_ok_def run_state_of_def terminal_def run_finished_def status_of_def)
qed

text \<open>One poll: the new log rows, the state when it changed, and the end when the run is finished.\<close>

definition sent_poll :: "stream \<Rightarrow> uuid \<Rightarrow> log_row list \<Rightarrow> database \<Rightarrow> sse_event list" where
  "sent_poll st k new db =
     map (\<lambda>l. SseLog (read_log l)) new @ (if Some (status_of k db) \<noteq> ss_last_status st then [SseStatus (status_of k db)] else [])"

definition after_poll :: "stream \<Rightarrow> uuid \<Rightarrow> log_row list \<Rightarrow> database \<Rightarrow> stream" where
  "after_poll st k logs db = st\<lparr>ss_last_log_id := last_id logs, ss_last_status := Some (status_of k db), ss_polls := ss_polls st + 1\<rparr>"

lemma poll_sends:
  assumes "wf_db db" and "ids_positive db" and "k \<in> fst ` set (db_runs db)" and "run_logs k db = old @ new"
    and "ss_last_log_id st = last_id old"
  shows "run_finished k db \<Longrightarrow> \<exists>st'. poll k st db = (sent_poll st k new db @
      [SseDone (status_of k db) (map read_error (filter (\<lambda>e. er_run_id e = k) (db_errors db)))], Closed, st')"
    and "\<not> run_finished k db \<Longrightarrow> ss_polls st + 1 < SSE_MAX_POLLS \<Longrightarrow>
      poll k st db = (sent_poll st k new db, Open, after_poll st k (old @ new) db)"
proof -
  obtain r where r: "dict_get (db_runs db) k = Some r" using assms(3) dict_get_None_iff [of "db_runs db" k] by auto
  obtain phase where phase: "run_state_of (rn_status r) = Inr phase" "terminal phase \<longleftrightarrow> run_finished k db"
    by (rule run_state_known [OF assms(1) r])
  have st: "status_of k db = rn_status r" by (simp add: status_of_def r)
  note logs = newer_logs [OF assms(1,2,4), folded assms(5)]
  have last: "(if new = [] then ss_last_log_id st else lg_id (last new)) = last_id (old @ new)"
    using assms(5) by (simp add: last_id_def)
  show "\<exists>st'. poll k st db = (sent_poll st k new db @
      [SseDone (status_of k db) (map read_error (filter (\<lambda>e. er_run_id e = k) (db_errors db)))], Closed, st')" if "run_finished k db"
    using that r phase by (simp add: poll_def sent_poll_def st logs Let_def)
  show "poll k st db = (sent_poll st k new db, Open, after_poll st k (old @ new) db)"
    if "\<not> run_finished k db" "ss_polls st + 1 < SSE_MAX_POLLS"
    using that r phase by (simp add: poll_def sent_poll_def after_poll_def st logs last Let_def)
qed


lemma kept_present: "(run_kept d k)\<^sup>*\<^sup>* s s' \<Longrightarrow> k \<in> fst ` set (db_runs (sv_db s)) \<Longrightarrow> k \<in> fst ` set (db_runs (sv_db s'))"
  by (induction rule: rtranclp_induct) (simp_all add: run_kept_def)

definition opt_list :: "'a option \<Rightarrow> 'a list" where
  "opt_list x = (case x of None \<Rightarrow> [] | Some y \<Rightarrow> [y])"

lemma sent_poll_simps [simp]:
  "sent_logs (sent_poll st k new db) = map read_log new"
  "opt_list (ss_last_status st) @ sent_states (sent_poll st k new db) = remdups_adj (opt_list (ss_last_status st) @ [status_of k db])"
  by (auto simp: sent_poll_def opt_list_def split: option.splits)

lemma remdups_adj_snoc: "remdups_adj (opt_list x @ [y]) @ zs = remdups_adj (opt_list x @ y # ws)"
  if "y # zs = remdups_adj (y # ws)"
  using that by (cases x) (auto simp: opt_list_def)

lemma event_stream_complete:
  assumes "external_queue (dp_api d)" and "ss \<noteq> []"
    and "reachable d s" and "k \<in> fst ` set (db_runs (sv_db s))" and "successively (run_kept d k)\<^sup>*\<^sup>* (s # ss)"
    and "\<forall>t \<in> set (butlast ss). \<not> run_finished k (sv_db t)" and "run_finished k (sv_db (last ss))"
    and "run_logs k (sv_db s) = old @ rest" and "ss_last_log_id st = last_id old" and "ss_polls st + length ss \<le> SSE_MAX_POLLS"
  shows "\<exists>events. event_stream k st (map (\<lambda>t. (False, sv_db t)) ss) =
      (events @ [SseDone (status_of k (sv_db (last ss)))
         (map read_error (filter (\<lambda>e. er_run_id e = k) (db_errors (sv_db (last ss)))))], Closed) \<and>
    map read_log old @ sent_logs events = map read_log (run_logs k (sv_db (last ss))) \<and>
    opt_list (ss_last_status st) @ sent_states events = remdups_adj (opt_list (ss_last_status st) @ map (\<lambda>t. status_of k (sv_db t)) ss)"
  using assms(2-)
proof (induction ss arbitrary: s st old rest)
  case (Cons t ss)
  have steps: "(run_kept d k)\<^sup>*\<^sup>* s t" using Cons.prems(4) by simp
  have t: "reachable d t" "log_extends k (sv_db s) (sv_db t)" using kept_steps [OF steps Cons.prems(2) assms(1)] by simp_all
  have present: "k \<in> fst ` set (db_runs (sv_db t))" by (rule kept_present [OF steps Cons.prems(3)])
  obtain new where new: "run_logs k (sv_db t) = old @ new"
    using t(2) Cons.prems(7) by (auto simp: log_extends_def)
  note poll = poll_sends [OF reachable_wf [OF t(1) assms(1)] reachable_positive [OF t(1) assms(1)] present new Cons.prems(8)]
  show ?case
  proof (cases "ss = []")
    case True
    with Cons.prems(6) obtain st' where "poll k st (sv_db t) = (sent_poll st k new (sv_db t) @ [SseDone (status_of k (sv_db t))
        (map read_error (filter (\<lambda>e. er_run_id e = k) (db_errors (sv_db t))))], Closed, st')"
      using poll(1) by auto
    with True new show ?thesis by (intro exI [of _ "sent_poll st k new (sv_db t)"]) simp
  next
    case False
    let ?st = "after_poll st k (old @ new) (sv_db t)"
    have open': "poll k st (sv_db t) = (sent_poll st k new (sv_db t), Open, ?st)"
      using False Cons.prems(5,9) by (intro poll(2)) (cases ss, auto)+
    have "\<exists>events. event_stream k ?st (map (\<lambda>t. (False, sv_db t)) ss) =
        (events @ [SseDone (status_of k (sv_db (last ss)))
           (map read_error (filter (\<lambda>e. er_run_id e = k) (db_errors (sv_db (last ss)))))], Closed) \<and>
      map read_log (old @ new) @ sent_logs events = map read_log (run_logs k (sv_db (last ss))) \<and>
      opt_list (ss_last_status ?st) @ sent_states events =
        remdups_adj (opt_list (ss_last_status ?st) @ map (\<lambda>t. status_of k (sv_db t)) ss)"
      using False Cons.prems(4,5,6,9) new
      by (intro Cons.IH [OF False t(1) present, of "old @ new" "[]"]) (auto simp: after_poll_def successively_Cons)
    then obtain events where ev: "event_stream k ?st (map (\<lambda>t. (False, sv_db t)) ss) =
        (events @ [SseDone (status_of k (sv_db (last ss)))
           (map read_error (filter (\<lambda>e. er_run_id e = k) (db_errors (sv_db (last ss)))))], Closed)"
      "map read_log (old @ new) @ sent_logs events = map read_log (run_logs k (sv_db (last ss)))"
      "status_of k (sv_db t) # sent_states events = remdups_adj (status_of k (sv_db t) # map (\<lambda>t. status_of k (sv_db t)) ss)"
      by (auto simp: after_poll_def opt_list_def)
    show ?thesis
      using False ev(1,2) open' remdups_adj_snoc [OF ev(3), of "ss_last_status st"]
      by (intro exI [of _ "sent_poll st k new (sv_db t) @ events"]) (simp add: append_assoc [symmetric] del: append_assoc)
  qed
qed simp

text \<open>
  C40. The live stream is complete. While a client is connected and polls a run that is not deleted, whatever the
  server does between the polls, until the first poll that finds the run finished, at most 3600 polls later: the
  client receives every log row of the run exactly once and in order, every state it was polled in, without
  repetitions, and at the end the final state with all errors; then the stream is closed.
\<close>

theorem stream_delivers:
  assumes "external_queue (dp_api d)" and "reachable d s" and "get_owned_run (sv_db s) k u = Inr r"
    and "ss \<noteq> []" and "successively (run_kept d k)\<^sup>*\<^sup>* (s # ss)" and "length ss \<le> SSE_MAX_POLLS"
    and "\<forall>t \<in> set (butlast ss). \<not> run_finished k (sv_db t)" and "run_finished k (sv_db (last ss))"
  shows "\<exists>events. stream_run_events u k (sv_db s) (map (\<lambda>t. (False, sv_db t)) ss) =
      Inr (events @ [SseDone (status_of k (sv_db (last ss)))
        (map read_error (filter (\<lambda>e. er_run_id e = k) (db_errors (sv_db (last ss)))))], Closed) \<and>
    sent_logs events = map read_log (run_logs k (sv_db (last ss))) \<and>
    sent_states events = remdups_adj (map (\<lambda>t. status_of k (sv_db t)) ss)"
proof -
  have "k \<in> fst ` set (db_runs (sv_db s))" using assms(3) by (auto simp: get_owned_Inr dest: dict_get_SomeD)
  then show ?thesis
    using event_stream_complete [OF assms(1,4,2) _ assms(5,7,8), of "[]" "run_logs k (sv_db s)" stream_start] assms(3,6)
    by (auto simp: stream_run_events_def stream_start_def last_id_def opt_list_def)
qed


text \<open>The run of the pipeline of the example is triggered and executed; a client that then connects gets its log and its error.\<close>

theorem stream_delivers_witness:
  "\<exists>s events l errors. reachable demo_deployment s \<and>
     stream_run_events 1 30 (sv_db s) [(False, sv_db s)] = Inr (events @ [SseDone ''failed'' errors], Closed) \<and>
     sent_logs events = [l] \<and> sent_states events = [''failed''] \<and> length errors = 1"
proof -
  let ?ca = "\<lparr>ca_new_id = 30, ca_now = 6, ca_random = []\<rparr>" and ?ex = "demo_execution [1]"
  let ?user = "\<lparr>us_email = ''a'', us_hashed_password = ''h'', us_is_active = True, us_created_at = 0\<rparr>"
  let ?r = "manual_run 6 2 1 None"
  define s1 where "s1 = demo_server\<lparr>sv_db := (sv_db demo_server)\<lparr>db_runs := [(30, ?r)]\<rparr>, sv_queue := arq_enqueue 30 []\<rparr>"
  have user: "get_current_user (dp_auth demo_deployment) (we_settings (dp_worker demo_deployment)) 0 (Some ''t'') (sv_db demo_server) = Inr (1, ?user)"
    by (rule demo_user) (simp_all add: demo_server_def)
  have fresh: "unused (sv_db demo_server) (ca_new_id ?ca)" by (simp add: demo_server_def empty_db_def unused_def)
  obtain res where "handle (dp_api demo_deployment) ?ca 1 (TriggerRun 2 None) (sv_db demo_server) = (res, Some 30, sv_db s1)"
    by (simp add: s1_def demo_server_def initial_def empty_db_def demo_deployment_def demo_api_def trigger_run_def get_owned_pipeline_def
        insert_run_def insert_row_def manual_run_def respond_def Let_def)
  from reachable.step [OF demo_reachable request [OF user fresh this]] have s1: "reachable demo_deployment s1"
    by (simp add: enqueued_def s1_def demo_server_def initial_def)
  have load: "load_run 30 (sv_db s1) = Claim 1 (JDict [])"
    by (simp add: load_run_def s1_def demo_server_def manual_run_def)
  have "collect_secret_refs mystery_spec = []" by code_simp
  then obtain options where prep: "prepare_run demo_worker 1 (JDict []) (sv_db s1) = Inr (mystery_spec, [], options)"
    by (simp add: prepare_run_def demo_worker_def raising_def secrets_cipher_def default_settings_def make_cipher_def fernet_init_def
        demo_crypto_def run_options_def resolve_secrets_def)
  obtain v where v: "validate_pipeline (we_registry demo_worker) mystery_spec = [v]"
  proof -
    have "length (validate_pipeline (we_registry demo_worker) mystery_spec) = 1" by code_simp
    with that show thesis by (auto simp: length_Suc_conv)
  qed
  let ?rr = "invalid_result mystery_spec [v]"
  have "execute_pipeline (we_registry demo_worker) (ex_schedule ?ex) mystery_spec [] options = Some (Inr ?rr)"
    by (simp add: execute_pipeline_def v Let_def)
  note exec = execute_run_finishes [OF load prep this]
  define s2 where "s2 = s1\<lparr>sv_queue := [], sv_db := after_run ?ex ?rr 30 (sv_db s1), sv_procs := sv_procs s1 @ [Ended]\<rparr>"
  have s2: "reachable demo_deployment s2"
    unfolding s2_def using exec
    by (intro reachable_execution [OF s1]) (simp_all add: s1_def arq_enqueue_def demo_deployment_def)
  have db2: "db_runs (sv_db s2) = [(30, finished_run ?ex ?rr ?r)]" "db_logs (sv_db s2) = log_rows 30 1 0 (rr_logs ?rr)"
      "db_errors (sv_db s2) = error_rows 30 1 (rr_errors ?rr)"
    by (simp_all add: s2_def s1_def after_run_def demo_server_def empty_db_def update_row_def)
  have "get_owned_run (sv_db s2) 30 1 = Inr (finished_run ?ex ?rr ?r)"
    by (simp add: get_owned_run_def db2 finished_run_def manual_run_def)
  moreover have status: "status_of 30 (sv_db s2) = ''failed''"
    by (simp add: status_of_def db2 finished_run_def invalid_result_def Let_def)
  ultimately obtain events where ev: "stream_run_events 1 30 (sv_db s2) [(False, sv_db s2)] =
      Inr (events @ [SseDone ''failed'' (map read_error (filter (\<lambda>e. er_run_id e = 30) (db_errors (sv_db s2))))], Closed)"
    "sent_logs events = map read_log (run_logs 30 (sv_db s2))" "sent_states events = [''failed'']"
    using stream_delivers [OF demo_external s2, of 30 1 _ "[s2]"] by (auto simp: SSE_MAX_POLLS_def run_finished_def)
  have one: "length (run_logs 30 (sv_db s2)) = 1" "length (filter (\<lambda>e. er_run_id e = 30) (db_errors (sv_db s2))) = 1"
    by (simp_all add: run_logs_def db2 invalid_result_def log_row_of_def error_row_of_def Let_def)
  then obtain x where x: "run_logs 30 (sv_db s2) = [x]" by (auto simp: length_Suc_conv)
  show ?thesis
  proof (intro exI conjI)
    show "stream_run_events 1 30 (sv_db s2) [(False, sv_db s2)] = Inr (events @ [SseDone ''failed''
        (map read_error (filter (\<lambda>e. er_run_id e = 30) (db_errors (sv_db s2))))], Closed)" by (rule ev(1))
    show "sent_logs events = [read_log x]" using ev(2) x by simp
  qed (use s2 ev(3) one in simp_all)
qed

end
