(* ===== verification/Spec2Isabelle.thy ===== *)
theory Spec2Isabelle
  imports Rate_Limiter Builtin_Nodes File_Nodes Decrypt_Node Cli Run_Stream
begin

text \<open>
  A verification library for the ETL tool: a Python engine (\<open>src/src/etl_core\<close>) that runs pipelines described by a
  JSON document, and a multi-user server (\<open>src/src/etl_server\<close>) that stores, schedules and executes them.

  \<^bold>\<open>The program.\<close> A pipeline is a graph of nodes and edges. \<open>validate_pipeline\<close> checks it statically;
  \<open>execute_pipeline\<close> orders it topologically and executes node after node, fanning out over the values of iterator
  nodes under a concurrency cap. Before a node runs, the references in its configuration are resolved against the
  outputs of earlier nodes. Nodes fetch over HTTP, read and write files and database tables, merge, transform and
  decrypt records. Secrets are resolved by providers, and every text that leaves a run is redacted. Requests of
  the tool go through an SSRF guard. The server keeps users, pipelines, schedules, runs and secrets in a database;
  requests and the scheduler create queued runs, a worker claims and executes them, and clients follow them by
  an event stream. The command line offers runs, validation and connectivity tests without the server.

  \<^bold>\<open>Conventions.\<close> Records stand for classes, datatypes for enumerations and unions, association lists for Python
  dictionaries with their order. Exceptions are values of type \<open>exn\<close>, and an operation that may raise answers a
  sum with the exception on the left. Integers are unbounded as in Python, addresses are words of 32 and 128 bits,
  floats are exact doubles with correct rounding. Characters are code points below 256; icons and the ellipsis
  are written as bytes. Operations that change state take and return it: tables, file systems, limiters, the
  database. What lies outside the sources is a parameter: resolver, network, clock, driver, ciphers, pydantic,
  pandas, cron, bcrypt and PyJWT; a law of such a parameter is a named hypothesis that states its documented behaviour.

  \<^bold>\<open>Theories and sources.\<close>

  \<^item> \<open>Prelude\<close>, \<open>Py_Value\<close>, \<open>Json_Text\<close>: dictionaries, sums, texts; Python values with equality, order, truth and
    floats; \<open>json.dumps\<close> and \<open>json.loads\<close> with their round trip.
  \<^item> \<open>Paths\<close> (\<open>paths.py\<close>), \<open>Errors\<close> (\<open>errors.py\<close>), \<open>References\<close> (\<open>references.py\<close>), \<open>Redact\<close> and \<open>Url\<close> (\<open>redact.py\<close> and what it
    uses of \<open>urllib.parse\<close>), \<open>Secrets\<close> (\<open>secrets.py\<close>), \<open>Run_Context\<close> (\<open>context.py\<close>, \<open>events.py\<close>, \<open>nodes/base.py\<close>,
    \<open>nodes/registry.py\<close>). Shown: reading back what was set, that static collection sees every reference the run meets,
    that no form of a secret survives redaction, that exactly the named secrets are resolved.
  \<^item> \<open>Graph\<close>, \<open>Topo\<close>, \<open>Validate\<close>, \<open>Fanout\<close>, \<open>Engine\<close> (\<open>schema.py\<close>, \<open>engine.py\<close>). Kahn's algorithm orders exactly the acyclic
    graphs, and validation accepts exactly the documents of the declarative predicate \<open>runnable\<close>. The fan-out is a machine of
    tasks, a semaphore and cancellations; a schedule is a list of choices, and every theorem holds for all schedules.
    \<open>Engine_Results\<close>, \<open>Engine_Determinism\<close> and \<open>Engine_Success\<close> show that runs return, account for every node,
    do not depend on the interleaving, and succeed when their nodes do.
  \<^item> \<open>Node_Contract\<close> states the interface between engine and nodes as a locale; \<open>Builtin_Nodes\<close> interprets it for the node
    types of the registry and shows that no error of a run contains a secret.
  \<^item> \<open>Iterator_Node\<close>, \<open>Merge_Node\<close>, \<open>Expression\<close>, \<open>Transform_Node\<close>, \<open>Decrypt_Node\<close>, \<open>File_Nodes\<close>, \<open>Db_Nodes\<close>, \<open>Api_Source\<close>
    (\<open>nodes/\<close>): the range iterator is an arithmetic progression, the hash join the nested-loop join, decryption inverts
    encryption, the file nodes stay inside their directories, a database write is atomic, offset pagination is complete.
  \<^item> \<open>Ip_Address\<close>, \<open>Ssrf\<close> (\<open>ssrf.py\<close>), \<open>Http_Client\<close>, \<open>Rate_Limiter\<close> (\<open>http_client.py\<close>), \<open>Fileio\<close> (\<open>fileio.py\<close>), \<open>Crypto\<close>
    (\<open>crypto.py\<close>), \<open>Db\<close> (\<open>db.py\<close>): no hop of a request leaves the policy, retries end, slots keep their distance,
    files read back what was written.
  \<^item> \<open>Diagnostics\<close> (\<open>diagnostics.py\<close> and its router) and \<open>Cli\<close> (\<open>cli.py\<close>): the ladder of checks contacts permitted hosts only
    and stops climbing at a failure; exit codes and printed secrets of the commands.
  \<^item> \<open>Server_Store\<close>, \<open>Secret_Store\<close>, \<open>Job_Queue\<close>, \<open>Scheduler\<close>, \<open>Server_Api\<close>, \<open>Settings\<close>, \<open>Auth\<close>, \<open>Worker\<close> (\<open>models.py\<close>,
    \<open>service.py\<close>, \<open>secrets_store.py\<close>, \<open>queue.py\<close>, \<open>scheduler.py\<close>, \<open>routers/\<close>, \<open>config.py\<close>, \<open>security.py\<close>, \<open>deps.py\<close>, \<open>worker.py\<close>): the
    tables with their keys, the operations on them, and the well-formedness of the database, which every operation keeps.
  \<^item> \<open>Tenant_Isolation\<close>, \<open>Run_Lifecycle\<close>, \<open>Server_Machine\<close>, \<open>Run_Stream\<close> span components: a user is served as if alone; a
    triggered run ends in the state the engine reported; every interleaving of requests, ticks and worker
    transactions keeps the database well-typed; the stream delivers every event once and in order.

  \<^bold>\<open>Interfaces.\<close> Locales state what one component relies on in another: providers of secrets (the environment
    and a static dictionary are interpretations, and the store of the server is shown to be one in a well-formed
    database), ciphers, job queues and node types. Each is interpreted on the definitions of the model, and the
    properties rest on the interpretations.

  \<^bold>\<open>Bounds and fuel.\<close> Recursions that are not structural have a termination proof. The engine's loop uses \<open>option\<close> for a
    schedule that does not end; \<open>execute_pipeline_returns\<close> shows that it always does. A guarded HTTP exchange of a
    connectivity test has 21 hops, the first request and the twenty redirects httpx follows; \<open>SSE_MAX_POLLS\<close> is
    the source's own bound.

  \<^bold>\<open>Not modelled.\<close> Times, latencies and durations, except where the code computes with them (limiter, schedules, row
    stamps). Parsing and printing of documents by pydantic, codecs of pandas, argparse, and the bytes of
    HTTP answers. The wiring in \<open>app.py\<close>, \<open>deps.py\<close> (access to application state), \<open>arq_worker.py\<close>, \<open>etl_server/db.py\<close> and
    \<open>__main__.py\<close> and the generated migrations only call libraries. The registry of \<open>Builtin_Nodes\<close> holds the API source,
    iterator, merge and transform nodes; the file, database and decrypt nodes are modelled as operations on
    explicit state, which the engine's node interface does not thread. The frontend is another program.
\<close>

end
